(* ===== verification/Prelude.thy ===== *)
theory Prelude
  imports Main "HOL-Library.Word"
begin

text \<open>
  What every component shares: the outcomes of a C function that leaves the defined
  behaviour of the language (a failed \<open>assert\<close>, an access past an array, a null pointer, a
  second lock of a mutex), checked array accesses, the counted \<open>for\<close> loop, the element
  removal loop that the sources repeat for every array, and C strings in fixed buffers.
\<close>

unbundle bit_operations_syntax

named_theorems result_simps "evaluation of checked operations whose checks succeed"
named_theorems config_simps "values of the configuration constants"

section \<open>Outcomes\<close>

datatype fault = Assert_Failed | Out_Of_Bounds | Null_Deref | Deadlock

type_synonym 'a result = "fault + 'a"

type_synonym u8 = "8 word"
type_synonym u16 = "16 word"
type_synonym u32 = "32 word"
type_synonym u64 = "64 word"
type_synonym bytes = "8 word list"

definition rbind :: "'a result \<Rightarrow> ('a \<Rightarrow> 'b result) \<Rightarrow> 'b result" where
  "rbind m f = (case m of Inl e \<Rightarrow> Inl e | Inr x \<Rightarrow> f x)"

lemma rbind_Inl [simp]: "rbind (Inl e) f = Inl e"
  by (simp add: rbind_def)

lemma rbind_Inr [simp]: "rbind (Inr x) f = f x"
  by (simp add: rbind_def)

lemma rbind_eq_Inr: "rbind m f = Inr y \<longleftrightarrow> (\<exists>x. m = Inr x \<and> f x = Inr y)"
  by (cases m) auto

lemma rbind_assoc: "rbind (rbind m f) g = rbind m (\<lambda>x. rbind (f x) g)"
  by (cases m) auto

lemma rbind_cong [fundef_cong]:
  "m = m' \<Longrightarrow> (\<And>x. m' = Inr x \<Longrightarrow> f x = f' x) \<Longrightarrow> rbind m f = rbind m' f'"
  by (cases m') auto

text \<open>The standard \<open>assert\<close> macro: the sources are compiled without \<open>NDEBUG\<close>.\<close>

definition c_assert :: "bool \<Rightarrow> unit result" where
  "c_assert b = (if b then Inr () else Inl Assert_Failed)"

lemma c_assert_True [simp]: "b \<Longrightarrow> c_assert b = Inr ()"
  by (simp add: c_assert_def)

lemma c_assert_eq_Inr [simp]: "c_assert b = Inr u \<longleftrightarrow> b"
  by (simp add: c_assert_def)

section \<open>Checked array accesses\<close>

definition arr_get :: "'a list \<Rightarrow> nat \<Rightarrow> 'a result" where
  "arr_get a i = (if i < length a then Inr (a ! i) else Inl Out_Of_Bounds)"

definition arr_set :: "'a list \<Rightarrow> nat \<Rightarrow> 'a \<Rightarrow> 'a list result" where
  "arr_set a i x = (if i < length a then Inr (a[i := x]) else Inl Out_Of_Bounds)"

lemma arr_get_ok [simp]: "i < length a \<Longrightarrow> arr_get a i = Inr (a ! i)"
  by (simp add: arr_get_def)

lemma arr_set_ok [simp]: "i < length a \<Longrightarrow> arr_set a i x = Inr (a[i := x])"
  by (simp add: arr_set_def)

lemma arr_get_bad [simp]: "length a \<le> i \<Longrightarrow> arr_get a i = Inl Out_Of_Bounds"
  by (simp add: arr_get_def)

lemma arr_set_bad [simp]: "length a \<le> i \<Longrightarrow> arr_set a i x = Inl Out_Of_Bounds"
  by (simp add: arr_set_def)

lemma arr_get_eq_Inr: "arr_get a i = Inr x \<longleftrightarrow> i < length a \<and> x = a ! i"
  by (auto simp: arr_get_def)

lemma arr_set_eq_Inr: "arr_set a i x = Inr b \<longleftrightarrow> i < length a \<and> b = a[i := x]"
  by (auto simp: arr_set_def)

section \<open>Counted loops\<close>

text \<open>
  \<open>for (i = i0; i < n; ++i) body\<close> over the variables the body assigns, for a bound the body
  leaves alone; the body says whether it leaves the loop (\<open>break\<close> or \<open>return\<close>).
\<close>

datatype 's ctl = Continue 's | Break 's

function for_loop :: "(nat \<Rightarrow> 's \<Rightarrow> 's ctl result) \<Rightarrow> nat \<Rightarrow> nat \<Rightarrow> 's \<Rightarrow> 's result" where
  "for_loop body i n s =
     (if i < n then rbind (body i s)
        (\<lambda>c. case c of Continue s' \<Rightarrow> for_loop body (Suc i) n s' | Break s' \<Rightarrow> Inr s')
      else Inr s)"
  by pat_completeness auto
termination
  by (relation "measure (\<lambda>(body, i, n, s). n - i)") auto

declare for_loop.simps [simp del]

lemma for_loop_done [simp]: "n \<le> i \<Longrightarrow> for_loop body i n s = Inr s"
  by (simp add: for_loop.simps)

lemma for_loop_step:
  "i < n \<Longrightarrow> for_loop body i n s = rbind (body i s)
     (\<lambda>c. case c of Continue s' \<Rightarrow> for_loop body (Suc i) n s' | Break s' \<Rightarrow> Inr s')"
  by (simp add: for_loop.simps)

text \<open>The invariant rule: total correctness of a counted loop.\<close>

lemma for_loop_rule:
  assumes "P i s" and "i \<le> n"
    and step: "\<And>j t. i \<le> j \<Longrightarrow> j < n \<Longrightarrow> P j t \<Longrightarrow>
      (\<exists>t'. body j t = Inr (Continue t') \<and> P (Suc j) t') \<or> (\<exists>t'. body j t = Inr (Break t') \<and> Q t')"
  shows "\<exists>s'. for_loop body i n s = Inr s' \<and> (P n s' \<or> Q s')"
  using assms
proof (induction "n - i" arbitrary: i s)
  case 0
  then show ?case by auto
next
  case (Suc k)
  then have lt: "i < n" by simp
  from Suc.prems(3) [of i s] Suc.prems(1) lt
  consider t' where "body i s = Inr (Continue t')" "P (Suc i) t'"
    | t' where "body i s = Inr (Break t')" "Q t'" by auto
  then show ?case
  proof cases
    case 1
    have "\<exists>s'. for_loop body (Suc i) n t' = Inr s' \<and> (P n s' \<or> Q s')"
    proof (rule Suc.hyps(1))
      show "k = n - Suc i" using Suc.hyps(2) by simp
      show "P (Suc i) t'" by (rule 1(2))
      show "Suc i \<le> n" using lt by simp
      fix j t assume "Suc i \<le> j" "j < n" "P j t"
      then show "(\<exists>t'. body j t = Inr (Continue t') \<and> P (Suc j) t') \<or>
          (\<exists>t'. body j t = Inr (Break t') \<and> Q t')"
        by (intro Suc.prems(3)) simp_all
    qed
    then show ?thesis using lt 1(1) by (simp add: for_loop_step)
  next
    case 2
    then show ?thesis using lt by (simp add: for_loop_step)
  qed
qed

text \<open>Partial correctness: whatever a loop that returns has kept.\<close>

lemma for_loop_inv:
  assumes "for_loop body i n s = Inr s'" and "P s"
    and "\<And>j t t'. j < n \<Longrightarrow> P t \<Longrightarrow> body j t = Inr (Continue t') \<Longrightarrow> P t'"
    and "\<And>j t t'. j < n \<Longrightarrow> P t \<Longrightarrow> body j t = Inr (Break t') \<Longrightarrow> P t'"
  shows "P s'"
  using assms
proof (induction "n - i" arbitrary: i s)
  case 0
  from 0(1) have "n \<le> i" by simp
  with 0(2) have "s' = s" by simp
  with 0(3) show ?case by simp
next
  case (Suc k)
  from Suc.hyps(2) have lt: "i < n" by linarith
  from Suc.prems(1) lt obtain c where c: "body i s = Inr c"
    and rest: "(case c of Continue t \<Rightarrow> for_loop body (Suc i) n t | Break t \<Rightarrow> Inr t) = Inr s'"
    by (auto simp: for_loop_step rbind_eq_Inr)
  show ?case
  proof (cases c)
    case (Continue t)
    show ?thesis
    proof (rule Suc.hyps(1))
      show "k = n - Suc i" using Suc.hyps(2) by simp
      show "for_loop body (Suc i) n t = Inr s'" using rest Continue by simp
      show "P t" by (rule Suc.prems(3) [OF lt Suc.prems(2)]) (simp add: c Continue)
    qed (fact Suc.prems(3), fact Suc.prems(4))
  next
    case (Break t)
    then show ?thesis using Suc.prems(4) [OF lt Suc.prems(2), of t] c rest by simp
  qed
qed

section \<open>Outcomes and postconditions\<close>

text \<open>
  \<open>wpf F m Q\<close>: the operation \<open>m\<close> returns a value that satisfies \<open>Q\<close>, or ends in one of the
  faults \<open>F\<close>. With \<open>F = {}\<close> this is total correctness: the operation does return.
\<close>

definition wpf :: "fault set \<Rightarrow> 'a result \<Rightarrow> ('a \<Rightarrow> bool) \<Rightarrow> bool" where
  "wpf F m Q \<longleftrightarrow> (case m of Inl e \<Rightarrow> e \<in> F | Inr x \<Rightarrow> Q x)"

lemma wpf_Inr [simp]: "wpf F (Inr x) Q \<longleftrightarrow> Q x"
  by (simp add: wpf_def)

lemma wpf_Inl [simp]: "wpf F (Inl e) Q \<longleftrightarrow> e \<in> F"
  by (simp add: wpf_def)

lemma wpf_rbind [simp]: "wpf F (rbind m f) Q \<longleftrightarrow> wpf F m (\<lambda>x. wpf F (f x) Q)"
  by (cases m) simp_all

lemma wpf_mono: "wpf F m Q \<Longrightarrow> F \<subseteq> G \<Longrightarrow> (\<And>x. Q x \<Longrightarrow> R x) \<Longrightarrow> wpf G m R"
  by (cases m) auto

lemma wpf_conseq: "wpf F m Q \<Longrightarrow> (\<And>x. Q x \<Longrightarrow> R x) \<Longrightarrow> wpf F m R"
  by (cases m) auto

lemma wpf_conj: "wpf F m Q \<Longrightarrow> wpf F m R \<Longrightarrow> wpf F m (\<lambda>x. Q x \<and> R x)"
  by (cases m) auto

lemma wpf_InrD: "wpf F m Q \<Longrightarrow> m = Inr x \<Longrightarrow> Q x"
  by simp

lemma wpf_total: "wpf {} m Q \<longleftrightarrow> (\<exists>x. m = Inr x \<and> Q x)"
  by (cases m) auto

lemma wpf_arr_get [simp]:
  "i < length a \<Longrightarrow> wpf F (arr_get a i) Q \<longleftrightarrow> Q (a ! i)"
  by simp

lemma wpf_arr_set_oob:
  "wpf {Out_Of_Bounds} (arr_set a i x) Q \<longleftrightarrow> (i < length a \<longrightarrow> Q (a[i := x]))"
  by (simp add: arr_set_def)

lemma wpf_for_loop:
  assumes "P i s" and "i \<le> n"
    and "\<And>j t. i \<le> j \<Longrightarrow> j < n \<Longrightarrow> P j t \<Longrightarrow>
      wpf F (body j t) (\<lambda>c. case c of Continue t' \<Rightarrow> P (Suc j) t' | Break t' \<Rightarrow> Q t')"
    and "\<And>t. P n t \<Longrightarrow> Q t"
  shows "wpf F (for_loop body i n s) Q"
  using assms
proof (induction "n - i" arbitrary: i s)
  case 0
  then show ?case by simp
next
  case (Suc k)
  then have lt: "i < n" by simp
  have "wpf F (body i s) (\<lambda>c. wpf F (case c of Continue s' \<Rightarrow> for_loop body (Suc i) n s' | Break s' \<Rightarrow> Inr s') Q)"
  proof (rule wpf_conseq [OF Suc.prems(3) [OF order_refl lt Suc.prems(1)]])
    fix c assume c: "case c of Continue t' \<Rightarrow> P (Suc i) t' | Break t' \<Rightarrow> Q t'"
    show "wpf F (case c of Continue s' \<Rightarrow> for_loop body (Suc i) n s' | Break s' \<Rightarrow> Inr s') Q"
    proof (cases c)
      case (Continue t)
      have "wpf F (for_loop body (Suc i) n t) Q"
      proof (rule Suc.hyps(1))
        show "k = n - Suc i" using Suc.hyps(2) by simp
        show "P (Suc i) t" using c Continue by simp
        show "Suc i \<le> n" using lt by simp
        show "wpf F (body j t) (\<lambda>c. case c of Continue t' \<Rightarrow> P (Suc j) t' | Break t' \<Rightarrow> Q t')"
          if "Suc i \<le> j" "j < n" "P j t" for j t
          using that by (intro Suc.prems(3)) simp_all
      qed (rule Suc.prems(4))
      then show ?thesis by (simp add: Continue)
    next
      case (Break t)
      then show ?thesis using c by simp
    qed
  qed
  then show ?case using lt by (simp add: for_loop_step)
qed

section \<open>Searching an array\<close>

text \<open>
  \<open>for (i = 0; i < n; ++i) if (test) break;\<close>: the first answer of \<open>f\<close>, if there is one.
\<close>

definition scan :: "(nat \<Rightarrow> 'a \<Rightarrow> 'r option) \<Rightarrow> nat \<Rightarrow> 'a list \<Rightarrow> 'r option result" where
  "scan f n a = for_loop (\<lambda>i found. rbind (arr_get a i) (\<lambda>x.
     Inr (case f i x of None \<Rightarrow> Continue found | Some r \<Rightarrow> Break (Some r)))) 0 n None"

lemma scan_cases:
  assumes "n \<le> length a"
  obtains (none) "scan f n a = Inr None" and "\<And>i. i < n \<Longrightarrow> f i (a ! i) = None"
  | (first) j r where "scan f n a = Inr (Some r)" and "j < n" and "f j (a ! j) = Some r"
      and "\<And>i. i < j \<Longrightarrow> f i (a ! i) = None"
proof -
  have "\<exists>s'. scan f n a = Inr s' \<and> (s' = None \<and> (\<forall>i<n. f i (a ! i) = None) \<or>
      (\<exists>j<n. \<exists>r. s' = Some r \<and> f j (a ! j) = Some r \<and> (\<forall>i<j. f i (a ! i) = None)))"
    unfolding scan_def
  proof (rule for_loop_rule [where P = "\<lambda>k s. s = None \<and> (\<forall>i<k. f i (a ! i) = None)" and
        Q = "\<lambda>s. \<exists>j<n. \<exists>r. s = Some r \<and> f j (a ! j) = Some r \<and> (\<forall>i<j. f i (a ! i) = None)"])
    fix k and t :: "'b option" assume k: "k < n" and inv: "t = None \<and> (\<forall>i<k. f i (a ! i) = None)"
    then have get: "arr_get a k = Inr (a ! k)" using assms by simp
    show "(\<exists>t'. rbind (arr_get a k) (\<lambda>x. Inr (case f k x of None \<Rightarrow> Continue t | Some r \<Rightarrow> Break (Some r))) =
          Inr (Continue t') \<and> t' = None \<and> (\<forall>i<Suc k. f i (a ! i) = None)) \<or>
        (\<exists>t'. rbind (arr_get a k) (\<lambda>x. Inr (case f k x of None \<Rightarrow> Continue t | Some r \<Rightarrow> Break (Some r))) =
          Inr (Break t') \<and> (\<exists>j<n. \<exists>r. t' = Some r \<and> f j (a ! j) = Some r \<and> (\<forall>i<j. f i (a ! i) = None)))"
      using k inv get by (cases "f k (a ! k)") (auto simp: less_Suc_eq)
  qed simp_all
  then show thesis using none first by blast
qed

text \<open>The conversion of a wider signed value to \<open>int\<close>.\<close>

definition c_int :: "int \<Rightarrow> int" where
  "c_int n = signed_take_bit 31 n"

lemma c_int_small [simp]: "- (2 ^ 31) \<le> n \<Longrightarrow> n < 2 ^ 31 \<Longrightarrow> c_int n = n"
  by (simp add: c_int_def signed_take_bit_int_eq_self)

section \<open>Removing an array element\<close>

text \<open>
  \<open>for (j = i; j < n - 1; ++j) a[j] = a[j + 1];\<close> is written out at every place of the sources
  that removes an element from an array with a separate count. The callers reach it with
  \<open>i < n\<close>, so \<open>n - 1\<close> never wraps.
\<close>

function shift_down :: "nat \<Rightarrow> nat \<Rightarrow> 'a list \<Rightarrow> 'a list result" where
  "shift_down j n a =
     (if j < n - 1
      then rbind (arr_get a (j + 1)) (\<lambda>x. rbind (arr_set a j x) (shift_down (j + 1) n))
      else Inr a)"
  by pat_completeness auto
termination
  by (relation "measure (\<lambda>(j, n, a). n - j)") auto

declare shift_down.simps [simp del]

definition shifted :: "nat \<Rightarrow> nat \<Rightarrow> 'a list \<Rightarrow> 'a list" where
  "shifted i n a = take i a @ drop (i + 1) (take n a) @ drop (n - 1) a"

lemma length_shifted [simp]: "i < n \<Longrightarrow> n \<le> length a \<Longrightarrow> length (shifted i n a) = length a"
  by (simp add: shifted_def)

lemma shift_down_ok:
  "i < n \<Longrightarrow> n \<le> length a \<Longrightarrow> shift_down i n a = Inr (shifted i n a)"
proof (induction i n a rule: shift_down.induct)
  case (1 j n a)
  show ?case
  proof (cases "j < n - 1")
    case True
    have "shift_down j n a = shift_down (j + 1) n (a[j := a ! (j + 1)])"
      using True 1 by (simp add: shift_down.simps [of j n a])
    also have "\<dots> = Inr (shifted (j + 1) n (a[j := a ! (j + 1)]))"
      using True 1 by simp
    also have "shifted (j + 1) n (a[j := a ! (j + 1)]) = shifted j n a"
    proof (rule nth_equalityI)
      show "length (shifted (j + 1) n (a[j := a ! (j + 1)])) = length (shifted j n a)"
        using True 1 by simp
    next
      fix k assume "k < length (shifted (j + 1) n (a[j := a ! (j + 1)]))"
      then show "shifted (j + 1) n (a[j := a ! (j + 1)]) ! k = shifted j n a ! k"
        using True 1(2,3) by (auto simp: shifted_def nth_append nth_list_update less_Suc_eq)
    qed
    finally show ?thesis .
  next
    case False
    then have "n = Suc j" using 1 by simp
    then show ?thesis using False 1(3)
      by (subst shift_down.simps) (simp add: shifted_def)
  qed
qed

lemma take_shifted:
  "i < n \<Longrightarrow> n \<le> length a \<Longrightarrow> take (n - 1) (shifted i n a) = take i a @ drop (i + 1) (take n a)"
  by (simp add: shifted_def)

lemma shifted_nth:
  "i < n \<Longrightarrow> n \<le> length a \<Longrightarrow> k < length a \<Longrightarrow>
   shifted i n a ! k = (if i \<le> k \<and> k < n - 1 then a ! Suc k else a ! k)"
  by (auto simp: shifted_def nth_append)

section \<open>C strings in fixed buffers\<close>

text \<open>
  \<open>strncpy(dst, src, n)\<close> copies at most \<open>n\<close> characters and pads with zeros; it does not
  terminate the copy of a longer string. \<open>strlen\<close> (and every reader of a C string) walks to
  the first zero, past the end of the buffer when there is none.
\<close>

definition c_strncpy :: "nat \<Rightarrow> bytes \<Rightarrow> bytes" where
  "c_strncpy n src = take n (src @ replicate n 0)"

definition c_string :: "bytes \<Rightarrow> bytes result" where
  "c_string buf = (if 0 \<in> set buf then Inr (takeWhile (\<lambda>c. c \<noteq> 0) buf) else Inl Out_Of_Bounds)"

lemma length_c_strncpy [simp]: "length (c_strncpy n src) = n"
  by (simp add: c_strncpy_def)

lemma takeWhile_nonzero:
  "0 \<notin> set xs \<Longrightarrow> takeWhile (\<lambda>c. c \<noteq> (0::u8)) (xs @ 0 # ys) = xs"
  by (induction xs) auto

lemma c_string_c_strncpy:
  assumes "0 \<notin> set src" and "length src < n"
  shows "c_string (c_strncpy n src) = Inr src"
proof -
  from assms(2) obtain m where m: "n = length src + Suc m"
    by (metis add_Suc_right less_imp_Suc_add)
  then have "c_strncpy n src = src @ 0 # replicate m 0"
    by (simp add: c_strncpy_def)
  with assms(1) show ?thesis
    by (simp add: c_string_def takeWhile_nonzero)
qed

lemma c_string_c_strncpy_overrun:
  assumes "0 \<notin> set src" and "n \<le> length src"
  shows "c_string (c_strncpy n src) = Inl Out_Of_Bounds"
  using assms in_set_takeD [of 0 n src] by (auto simp: c_string_def c_strncpy_def)

end
