(* ===== verification/Timespec.thy ===== *)
theory Timespec
  imports Prelude "HOL-Library.Signed_Division"
begin

text \<open>
  The clock arithmetic of \<open>include/uccn/common/time.h\<close> and the timeouts that
  \<open>src/uccn.c\<close> builds from \<open>include/uccn/config.h\<close>. A negative number of seconds stands for
  "never". C's division truncates, so \<open>/\<close> and \<open>%\<close> are the signed operations
  \<open>sdiv\<close> and \<open>smod\<close>.
\<close>

record timespec =
  tv_sec :: int
  tv_nsec :: int

definition TIMESPEC_ZERO :: timespec where
  "TIMESPEC_ZERO = \<lparr>tv_sec = 0, tv_nsec = 0\<rparr>"

definition TIMESPEC_INF :: timespec where
  "TIMESPEC_INF = \<lparr>tv_sec = -1, tv_nsec = 0\<rparr>"

definition TIMESPEC_INF_INIT :: timespec where
  "TIMESPEC_INF_INIT = \<lparr>tv_sec = -1, tv_nsec = -1\<rparr>"

definition TIMESPEC_ISZERO :: "timespec \<Rightarrow> bool" where
  "TIMESPEC_ISZERO t \<longleftrightarrow> tv_sec t = 0 \<and> tv_nsec t = 0"

definition TIMESPEC_ISFINITE :: "timespec \<Rightarrow> bool" where
  "TIMESPEC_ISFINITE t \<longleftrightarrow> tv_sec t \<ge> 0 \<and> tv_nsec t \<ge> 0"

definition timespec_cmp :: "timespec \<Rightarrow> timespec \<Rightarrow> int" where
  "timespec_cmp a b =
     (if tv_sec a < 0 \<and> tv_sec b \<ge> 0 then 1
      else if tv_sec a \<ge> 0 \<and> tv_sec b < 0 then -1
      else if tv_sec a < 0 \<and> tv_sec b < 0 then 0
      else if tv_sec a > tv_sec b then 1
      else if tv_sec a < tv_sec b then -1
      else if tv_nsec a > tv_nsec b then 1
      else if tv_nsec a < tv_nsec b then -1
      else 0)"

definition timespec_add :: "timespec \<Rightarrow> timespec \<Rightarrow> timespec" where
  "timespec_add a b =
     (if tv_sec a < 0 \<or> tv_sec b < 0 then TIMESPEC_INF_INIT
      else
        let sec = tv_sec a + tv_sec b;
            nsec = tv_nsec a + tv_nsec b
        in \<lparr>tv_sec = sec + nsec sdiv 1000000000, tv_nsec = nsec smod 1000000000\<rparr>)"

definition timespec_diff :: "timespec \<Rightarrow> timespec \<Rightarrow> timespec" where
  "timespec_diff a b =
     (if tv_sec a < 0 \<or> tv_sec b < 0 then TIMESPEC_INF_INIT
      else
        let d = (if timespec_cmp a b > 0
                 then \<lparr>tv_sec = tv_sec a - tv_sec b, tv_nsec = tv_nsec a - tv_nsec b\<rparr>
                 else \<lparr>tv_sec = tv_sec b - tv_sec a, tv_nsec = tv_nsec b - tv_nsec a\<rparr>)
        in if tv_nsec d < 0
           then \<lparr>tv_sec = tv_sec d - 1, tv_nsec = tv_nsec d + 1000000000\<rparr> else d)"

section \<open>Timeouts\<close>

definition CONFIG_UCCN_LIVELINESS_TIMEOUT_MS :: int where
  "CONFIG_UCCN_LIVELINESS_TIMEOUT_MS = 2000"

definition CONFIG_UCCN_LIVELINESS_ASSERT_TIMEOUT_MS :: int where
  "CONFIG_UCCN_LIVELINESS_ASSERT_TIMEOUT_MS = 1000"

definition CONFIG_UCCN_PEER_DISCOVERY_PERIOD_MS :: int where
  "CONFIG_UCCN_PEER_DISCOVERY_PERIOD_MS = 1000"

definition CONFIG_UCCN_ENDPOINT_PROBE_TIMEOUT_MS :: int where
  "CONFIG_UCCN_ENDPOINT_PROBE_TIMEOUT_MS = 500"

lemmas timeout_ms_defs [config_simps] =
  CONFIG_UCCN_LIVELINESS_TIMEOUT_MS_def CONFIG_UCCN_LIVELINESS_ASSERT_TIMEOUT_MS_def
  CONFIG_UCCN_PEER_DISCOVERY_PERIOD_MS_def CONFIG_UCCN_ENDPOINT_PROBE_TIMEOUT_MS_def

definition g_uccn_liveliness_timeout :: timespec where
  "g_uccn_liveliness_timeout =
     \<lparr>tv_sec = CONFIG_UCCN_LIVELINESS_TIMEOUT_MS sdiv 1000,
      tv_nsec = 1000000 * (CONFIG_UCCN_LIVELINESS_TIMEOUT_MS smod 1000)\<rparr>"

definition g_uccn_liveliness_assert_timeout :: timespec where
  "g_uccn_liveliness_assert_timeout =
     \<lparr>tv_sec = CONFIG_UCCN_LIVELINESS_ASSERT_TIMEOUT_MS sdiv 1000,
      tv_nsec = 1000000 * (CONFIG_UCCN_LIVELINESS_ASSERT_TIMEOUT_MS smod 1000)\<rparr>"

definition g_uccn_peer_discovery_period :: timespec where
  "g_uccn_peer_discovery_period =
     \<lparr>tv_sec = CONFIG_UCCN_PEER_DISCOVERY_PERIOD_MS sdiv 1000,
      tv_nsec = 1000000 * (CONFIG_UCCN_PEER_DISCOVERY_PERIOD_MS smod 1000)\<rparr>"

definition g_uccn_endpoint_probe_timeout :: timespec where
  "g_uccn_endpoint_probe_timeout =
     \<lparr>tv_sec = CONFIG_UCCN_ENDPOINT_PROBE_TIMEOUT_MS sdiv 1000,
      tv_nsec = 1000000 * (CONFIG_UCCN_ENDPOINT_PROBE_TIMEOUT_MS smod 1000)\<rparr>"

section \<open>What the operations compute\<close>

text \<open>A time in normal form, and its reading in nanoseconds.\<close>

definition normal :: "timespec \<Rightarrow> bool" where
  "normal t \<longleftrightarrow> tv_sec t \<ge> 0 \<and> 0 \<le> tv_nsec t \<and> tv_nsec t < 1000000000"

definition nanos :: "timespec \<Rightarrow> int" where
  "nanos t = tv_sec t * 1000000000 + tv_nsec t"

lemma sdiv_nonneg: "0 \<le> (x::int) \<Longrightarrow> 0 < y \<Longrightarrow> x sdiv y = x div y"
  by (cases "x = 0") (auto simp: signed_divide_int_def)

lemma smod_nonneg: "0 \<le> (x::int) \<Longrightarrow> 0 < y \<Longrightarrow> x smod y = x mod y"
  by (cases "x = 0") (auto simp: signed_modulo_int_def)

lemma normal_timeouts [simp]:
  "normal g_uccn_liveliness_timeout" "normal g_uccn_liveliness_assert_timeout"
  "normal g_uccn_peer_discovery_period" "normal g_uccn_endpoint_probe_timeout"
  by (simp_all add: normal_def g_uccn_liveliness_timeout_def g_uccn_liveliness_assert_timeout_def
      g_uccn_peer_discovery_period_def g_uccn_endpoint_probe_timeout_def config_simps
      sdiv_nonneg smod_nonneg)

lemma nanos_timeouts [simp]:
  "nanos g_uccn_liveliness_timeout = 2000000000"
  "nanos g_uccn_liveliness_assert_timeout = 1000000000"
  "nanos g_uccn_peer_discovery_period = 1000000000"
  "nanos g_uccn_endpoint_probe_timeout = 500000000"
  by (simp_all add: nanos_def g_uccn_liveliness_timeout_def g_uccn_liveliness_assert_timeout_def
      g_uccn_peer_discovery_period_def g_uccn_endpoint_probe_timeout_def config_simps
      sdiv_nonneg smod_nonneg)

lemma normal_nanos_inject:
  assumes "normal a" and "normal b" and "nanos a = nanos b"
  shows "a = b"
proof -
  have sec: "tv_sec a = tv_sec b"
    using assms by (simp add: normal_def nanos_def)
  with assms(3) have "tv_nsec a = tv_nsec b" by (simp add: nanos_def)
  with sec show ?thesis by simp
qed

lemma normal_cmp:
  assumes "normal a" and "normal b"
  shows "timespec_cmp a b = sgn (nanos a - nanos b)"
proof -
  have "nanos a < nanos b" if "tv_sec a < tv_sec b"
    using that assms by (simp add: normal_def nanos_def)
  moreover have "nanos b < nanos a" if "tv_sec b < tv_sec a"
    using that assms by (simp add: normal_def nanos_def)
  ultimately show ?thesis using assms
    by (cases "tv_sec a = tv_sec b")
      (auto simp: timespec_cmp_def normal_def nanos_def sgn_if not_less linorder_neq_iff)
qed

lemma normal_add: "normal a \<Longrightarrow> normal b \<Longrightarrow> normal (timespec_add a b)"
  by (auto simp: timespec_add_def normal_def Let_def sdiv_nonneg smod_nonneg)

lemma nanos_add:
  assumes "normal a" and "normal b"
  shows "nanos (timespec_add a b) = nanos a + nanos b"
proof -
  let ?n = "tv_nsec a + tv_nsec b"
  have "?n = 1000000000 * (?n div 1000000000) + ?n mod 1000000000" by simp
  then show ?thesis using assms
    by (simp add: timespec_add_def normal_def nanos_def Let_def sdiv_nonneg smod_nonneg algebra_simps)
qed

lemma normal_diff: "normal a \<Longrightarrow> normal b \<Longrightarrow> normal (timespec_diff a b)"
  by (auto simp: timespec_diff_def timespec_cmp_def normal_def Let_def split: if_splits)

lemma nanos_diff:
  assumes "normal a" and "normal b"
  shows "nanos (timespec_diff a b) = \<bar>nanos a - nanos b\<bar>"
proof -
  have "nanos (timespec_diff a b) =
      (if timespec_cmp a b > 0 then nanos a - nanos b else nanos b - nanos a)"
    using assms by (simp add: timespec_diff_def normal_def nanos_def Let_def algebra_simps)
  then show ?thesis using assms by (simp add: normal_cmp sgn_if split: if_splits)
qed

lemma cmp_refl [simp]: "timespec_cmp a a = 0"
  by (simp add: timespec_cmp_def)

lemma cmp_swap: "timespec_cmp b a = - timespec_cmp a b"
  by (cases "tv_sec a < 0"; cases "tv_sec b < 0"; cases "tv_sec a" "tv_sec b" rule: linorder_cases;
      cases "tv_nsec a" "tv_nsec b" rule: linorder_cases)
    (simp_all add: timespec_cmp_def)

lemma cmp_le:
  "timespec_cmp a b \<le> 0 \<longleftrightarrow> tv_sec b < 0 \<or>
     0 \<le> tv_sec a \<and> (tv_sec a < tv_sec b \<or> tv_sec a = tv_sec b \<and> tv_nsec a \<le> tv_nsec b)"
  by (cases "tv_sec a < 0"; cases "tv_sec b < 0"; cases "tv_sec a" "tv_sec b" rule: linorder_cases;
      cases "tv_nsec a" "tv_nsec b" rule: linorder_cases)
    (simp_all add: timespec_cmp_def)

lemma cmp_trans: "timespec_cmp a b \<le> 0 \<Longrightarrow> timespec_cmp b c \<le> 0 \<Longrightarrow> timespec_cmp a c \<le> 0"
  unfolding cmp_le by linarith

text \<open>
  The order of \<open>timespec_cmp\<close>, in which all times without end are alike, as the library's order on
  the type.
\<close>

instantiation timespec_ext :: (type) preorder
begin

definition less_eq_timespec_ext :: "'a timespec_scheme \<Rightarrow> 'a timespec_scheme \<Rightarrow> bool" where
  "less_eq_timespec_ext a b \<longleftrightarrow> timespec_cmp (timespec.truncate a) (timespec.truncate b) \<le> 0"

definition less_timespec_ext :: "'a timespec_scheme \<Rightarrow> 'a timespec_scheme \<Rightarrow> bool" where
  "less_timespec_ext a b \<longleftrightarrow> timespec_cmp (timespec.truncate a) (timespec.truncate b) < 0"

instance
proof
  fix a b c :: "'a timespec_scheme"
  show "a < b \<longleftrightarrow> a \<le> b \<and> \<not> b \<le> a"
    using cmp_swap [of "timespec.truncate a" "timespec.truncate b"]
    by (auto simp: less_eq_timespec_ext_def less_timespec_ext_def)
  show "a \<le> c" if "a \<le> b" "b \<le> c" using that cmp_trans by (auto simp: less_eq_timespec_ext_def)
qed (simp add: less_eq_timespec_ext_def)

end

lemma timespec_le:
  "(a :: timespec) \<le> b \<longleftrightarrow> timespec_cmp a b \<le> 0" "(a :: timespec) < b \<longleftrightarrow> timespec_cmp a b < 0"
proof -
  have "timespec.truncate t = t" for t :: timespec by (cases t) (simp add: timespec.truncate_def)
  then show "a \<le> b \<longleftrightarrow> timespec_cmp a b \<le> 0" "a < b \<longleftrightarrow> timespec_cmp a b < 0"
    by (simp_all add: less_eq_timespec_ext_def less_timespec_ext_def)
qed

lemma timespec_linear: "(a :: timespec) \<le> b \<or> b \<le> a"
  using cmp_swap [of a b] by (auto simp: timespec_le)

lemma add_infinite:
  "tv_sec a < 0 \<or> tv_sec b < 0 \<Longrightarrow> timespec_add a b = TIMESPEC_INF_INIT"
  by (simp add: timespec_add_def)

section \<open>The earliest of several deadlines\<close>

text \<open>
  \<open>if (timespec_cmp(d, t) > 0) *d = *t\<close>, for a pointer \<open>d\<close> that may be null.
\<close>

definition earlier :: "timespec option \<Rightarrow> timespec \<Rightarrow> timespec option" where
  "earlier d t = (case d of None \<Rightarrow> None | Some d \<Rightarrow> if timespec_cmp d t > 0 then Some t else Some d)"

text \<open>What keeping the earlier of two deadlines relies on: a comparison that is a total preorder.\<close>

locale deadline_order =
  fixes cmp :: "'t \<Rightarrow> 't \<Rightarrow> int" and pick :: "'t option \<Rightarrow> 't \<Rightarrow> 't option"
  assumes cmp_same: "cmp a a = 0"
    and cmp_sym: "cmp b a = - cmp a b"
    and cmp_chain: "cmp a b \<le> 0 \<Longrightarrow> cmp b c \<le> 0 \<Longrightarrow> cmp a c \<le> 0"
    and pick_Some: "pick (Some d) t = Some (if cmp d t > 0 then t else d)"
    and pick_None: "pick None t = None"
begin

lemma fold_pick:
  "\<exists>e. fold (\<lambda>t d. pick d t) ts (Some d) = Some e \<and> cmp e d \<le> 0 \<and> (\<forall>t\<in>set ts. cmp e t \<le> 0) \<and>
     (e = d \<or> e \<in> set ts)"
proof (induction ts arbitrary: d)
  case Nil
  show ?case by (simp add: cmp_same)
next
  case (Cons t ts)
  let ?d = "if cmp d t > 0 then t else d"
  obtain e where e: "fold (\<lambda>t d. pick d t) ts (Some ?d) = Some e" "cmp e ?d \<le> 0"
      "\<forall>t\<in>set ts. cmp e t \<le> 0" "e = ?d \<or> e \<in> set ts"
    using Cons.IH [of ?d] by blast
  have "cmp ?d d \<le> 0 \<and> cmp ?d t \<le> 0" using cmp_sym [of d t] by (simp add: cmp_same)
  then have "cmp e d \<le> 0" "cmp e t \<le> 0" using cmp_chain e(2) by blast+
  then show ?case using e by (auto simp: pick_Some split: if_splits)
qed

lemma fold_pick_None: "fold (\<lambda>t d. pick d t) ts None = None"
  by (induction ts) (simp_all add: pick_None)

end

interpretation deadlines: deadline_order timespec_cmp earlier
proof unfold_locales
  show "timespec_cmp a a = 0" for a by (rule cmp_refl)
  show "timespec_cmp b a = - timespec_cmp a b" for a b by (rule cmp_swap)
  show "timespec_cmp a c \<le> 0" if "timespec_cmp a b \<le> 0" "timespec_cmp b c \<le> 0" for a b c
    using that by (rule cmp_trans)
qed (simp_all add: earlier_def)

section \<open>Clock arithmetic\<close>



end
