(* ===== verification/Crc32.thy ===== *)
theory Crc32
  imports Prelude
begin

text \<open>
  The table driven checksum of \<open>src/common/crc32.c\<close>, its equivalence with the bitwise
  feedback register that the table's comment describes (polynomial 0xedb88320, register
  shifted towards the right), and what the checksum detects. The register starts at zero and
  is not complemented at the end.
\<close>

definition g_crc32_table :: "u32 list" where
  "g_crc32_table =
    [0x00000000, 0x77073096, 0xee0e612c, 0x990951ba, 0x076dc419, 0x706af48f, 0xe963a535, 0x9e6495a3,
     0x0edb8832, 0x79dcb8a4, 0xe0d5e91e, 0x97d2d988, 0x09b64c2b, 0x7eb17cbd, 0xe7b82d07, 0x90bf1d91,
     0x1db71064, 0x6ab020f2, 0xf3b97148, 0x84be41de, 0x1adad47d, 0x6ddde4eb, 0xf4d4b551, 0x83d385c7,
     0x136c9856, 0x646ba8c0, 0xfd62f97a, 0x8a65c9ec, 0x14015c4f, 0x63066cd9, 0xfa0f3d63, 0x8d080df5,
     0x3b6e20c8, 0x4c69105e, 0xd56041e4, 0xa2677172, 0x3c03e4d1, 0x4b04d447, 0xd20d85fd, 0xa50ab56b,
     0x35b5a8fa, 0x42b2986c, 0xdbbbc9d6, 0xacbcf940, 0x32d86ce3, 0x45df5c75, 0xdcd60dcf, 0xabd13d59,
     0x26d930ac, 0x51de003a, 0xc8d75180, 0xbfd06116, 0x21b4f4b5, 0x56b3c423, 0xcfba9599, 0xb8bda50f,
     0x2802b89e, 0x5f058808, 0xc60cd9b2, 0xb10be924, 0x2f6f7c87, 0x58684c11, 0xc1611dab, 0xb6662d3d,
     0x76dc4190, 0x01db7106, 0x98d220bc, 0xefd5102a, 0x71b18589, 0x06b6b51f, 0x9fbfe4a5, 0xe8b8d433,
     0x7807c9a2, 0x0f00f934, 0x9609a88e, 0xe10e9818, 0x7f6a0dbb, 0x086d3d2d, 0x91646c97, 0xe6635c01,
     0x6b6b51f4, 0x1c6c6162, 0x856530d8, 0xf262004e, 0x6c0695ed, 0x1b01a57b, 0x8208f4c1, 0xf50fc457,
     0x65b0d9c6, 0x12b7e950, 0x8bbeb8ea, 0xfcb9887c, 0x62dd1ddf, 0x15da2d49, 0x8cd37cf3, 0xfbd44c65,
     0x4db26158, 0x3ab551ce, 0xa3bc0074, 0xd4bb30e2, 0x4adfa541, 0x3dd895d7, 0xa4d1c46d, 0xd3d6f4fb,
     0x4369e96a, 0x346ed9fc, 0xad678846, 0xda60b8d0, 0x44042d73, 0x33031de5, 0xaa0a4c5f, 0xdd0d7cc9,
     0x5005713c, 0x270241aa, 0xbe0b1010, 0xc90c2086, 0x5768b525, 0x206f85b3, 0xb966d409, 0xce61e49f,
     0x5edef90e, 0x29d9c998, 0xb0d09822, 0xc7d7a8b4, 0x59b33d17, 0x2eb40d81, 0xb7bd5c3b, 0xc0ba6cad,
     0xedb88320, 0x9abfb3b6, 0x03b6e20c, 0x74b1d29a, 0xead54739, 0x9dd277af, 0x04db2615, 0x73dc1683,
     0xe3630b12, 0x94643b84, 0x0d6d6a3e, 0x7a6a5aa8, 0xe40ecf0b, 0x9309ff9d, 0x0a00ae27, 0x7d079eb1,
     0xf00f9344, 0x8708a3d2, 0x1e01f268, 0x6906c2fe, 0xf762575d, 0x806567cb, 0x196c3671, 0x6e6b06e7,
     0xfed41b76, 0x89d32be0, 0x10da7a5a, 0x67dd4acc, 0xf9b9df6f, 0x8ebeeff9, 0x17b7be43, 0x60b08ed5,
     0xd6d6a3e8, 0xa1d1937e, 0x38d8c2c4, 0x4fdff252, 0xd1bb67f1, 0xa6bc5767, 0x3fb506dd, 0x48b2364b,
     0xd80d2bda, 0xaf0a1b4c, 0x36034af6, 0x41047a60, 0xdf60efc3, 0xa867df55, 0x316e8eef, 0x4669be79,
     0xcb61b38c, 0xbc66831a, 0x256fd2a0, 0x5268e236, 0xcc0c7795, 0xbb0b4703, 0x220216b9, 0x5505262f,
     0xc5ba3bbe, 0xb2bd0b28, 0x2bb45a92, 0x5cb36a04, 0xc2d7ffa7, 0xb5d0cf31, 0x2cd99e8b, 0x5bdeae1d,
     0x9b64c2b0, 0xec63f226, 0x756aa39c, 0x026d930a, 0x9c0906a9, 0xeb0e363f, 0x72076785, 0x05005713,
     0x95bf4a82, 0xe2b87a14, 0x7bb12bae, 0x0cb61b38, 0x92d28e9b, 0xe5d5be0d, 0x7cdcefb7, 0x0bdbdf21,
     0x86d3d2d4, 0xf1d4e242, 0x68ddb3f8, 0x1fda836e, 0x81be16cd, 0xf6b9265b, 0x6fb077e1, 0x18b74777,
     0x88085ae6, 0xff0f6a70, 0x66063bca, 0x11010b5c, 0x8f659eff, 0xf862ae69, 0x616bffd3, 0x166ccf45,
     0xa00ae278, 0xd70dd2ee, 0x4e048354, 0x3903b3c2, 0xa7672661, 0xd06016f7, 0x4969474d, 0x3e6e77db,
     0xaed16a4a, 0xd9d65adc, 0x40df0b66, 0x37d83bf0, 0xa9bcae53, 0xdebb9ec5, 0x47b2cf7f, 0x30b5ffe9,
     0xbdbdf21c, 0xcabac28a, 0x53b39330, 0x24b4a3a6, 0xbad03605, 0xcdd70693, 0x54de5729, 0x23d967bf,
     0xb3667a2e, 0xc4614ab8, 0x5d681b02, 0x2a6f2b94, 0xb40bbe37, 0xc30c8ea1, 0x5a05df1b, 0x2d02ef8d]"

definition crc32_step :: "u32 \<Rightarrow> u8 \<Rightarrow> u32" where
  "crc32_step checksum b =
     (g_crc32_table ! unat ((checksum AND 0xff) XOR ucast b)) XOR drop_bit 8 checksum"

fun crc32_loop :: "bytes \<Rightarrow> u32 \<Rightarrow> u32" where
  "crc32_loop [] checksum = checksum"
| "crc32_loop (b # src) checksum = crc32_loop src (crc32_step checksum b)"

definition crc32 :: "bytes \<Rightarrow> u32" where
  "crc32 src = crc32_loop src 0"

section \<open>The bitwise reference\<close>

definition crc_bit :: "u32 \<Rightarrow> u32" where
  "crc_bit c = (if bit c 0 then 0xedb88320 XOR drop_bit 1 c else drop_bit 1 c)"

definition crc_byte :: "u32 \<Rightarrow> u8 \<Rightarrow> u32" where
  "crc_byte c b = (crc_bit ^^ 8) (c XOR ucast b)"

definition crc32_reference :: "bytes \<Rightarrow> u32" where
  "crc32_reference src = foldl crc_byte 0 src"

lemma length_g_crc32_table [simp]: "length g_crc32_table = 256"
  by (simp add: g_crc32_table_def)

section \<open>The feedback register is linear and reversible\<close>

lemma crc_bit_xor: "crc_bit (a XOR b) = crc_bit a XOR crc_bit b"
  by (rule bit_word_eqI) (auto simp: crc_bit_def bit_xor_iff drop_bit_xor)

lemma crc_bit_0 [simp]: "crc_bit 0 = 0"
  by (simp add: crc_bit_def)

lemma crc_bit_eq_0: "crc_bit c = 0 \<Longrightarrow> c = 0"
proof -
  assume zero: "crc_bit c = 0"
  have "bit (crc_bit c) 31 = bit c 0"
    by (auto simp: crc_bit_def bit_xor_iff bit_drop_bit_eq dest: bit_imp_le_length)
  with zero have low: "\<not> bit c 0" by simp
  with zero have high: "drop_bit 1 c = 0" by (simp add: crc_bit_def)
  show "c = 0"
  proof (rule bit_word_eqI)
    fix n
    show "bit c n = bit (0::u32) n"
    proof (cases n)
      case 0
      then show ?thesis using low by simp
    next
      case (Suc m)
      have "bit (drop_bit 1 c) m = bit c (Suc m)" by (simp add: bit_drop_bit_eq)
      with high Suc show ?thesis by simp
    qed
  qed
qed

lemma xor_cancel_word: "a XOR b = 0 \<longleftrightarrow> a = (b :: 'a::len word)"
  by (auto simp: bit_eq_iff bit_xor_iff)

lemma crc_bit_inject: "crc_bit a = crc_bit b \<Longrightarrow> a = b"
  using crc_bit_eq_0 [of "a XOR b"] by (simp add: crc_bit_xor xor_cancel_word)

lemma crc_bits_xor: "(crc_bit ^^ n) (a XOR b) = (crc_bit ^^ n) a XOR (crc_bit ^^ n) b"
  by (induction n) (simp_all add: crc_bit_xor)

lemma crc_bits_inject: "(crc_bit ^^ n) a = (crc_bit ^^ n) b \<Longrightarrow> a = b"
  by (induction n) (auto dest: crc_bit_inject)

lemma crc_bits_high:
  "\<forall>k<n. \<not> bit c k \<Longrightarrow> (crc_bit ^^ n) c = drop_bit n c"
proof (induction n)
  case 0
  then show ?case by simp
next
  case (Suc n)
  then have "(crc_bit ^^ n) c = drop_bit n c" by simp
  moreover have "\<not> bit (drop_bit n c) 0"
    using Suc.prems by (simp add: bit_drop_bit_eq)
  ultimately have "crc_bit ((crc_bit ^^ n) c) = drop_bit 1 (drop_bit n c)"
    by (simp only: crc_bit_def if_False)
  then show ?case by (simp add: drop_bit_drop_bit)
qed

lemma crc_bits_0 [simp]: "(crc_bit ^^ n) 0 = 0"
  by (induction n) simp_all

section \<open>The table\<close>

fun evens :: "'a list \<Rightarrow> 'a list" where
  "evens (x # y # r) = x # evens r"
| "evens r = r"

fun odds :: "'a list \<Rightarrow> 'a list" where
  "odds (x # y # r) = y # odds r"
| "odds r = []"

lemma evens_nth: "2 * i + 1 < length xs \<Longrightarrow> evens xs ! i = xs ! (2 * i)"
proof (induction xs arbitrary: i rule: evens.induct)
  case (1 x y r)
  then show ?case by (cases i) auto
qed auto

lemma odds_nth: "2 * i + 1 < length xs \<Longrightarrow> odds xs ! i = xs ! (2 * i + 1)"
proof (induction xs arbitrary: i rule: odds.induct)
  case (1 x y r)
  then show ?case by (cases i) auto
qed auto

lemma length_evens [simp]: "length (evens xs) = (length xs + 1) div 2"
  by (induction xs rule: evens.induct) auto

lemma length_odds [simp]: "length (odds xs) = length xs div 2"
  by (induction xs rule: odds.induct) auto

lemma table_evens: "map crc_bit (evens g_crc32_table) = take 128 g_crc32_table"
  by (simp add: g_crc32_table_def crc_bit_def)

lemma table_odds: "odds g_crc32_table = map ((XOR) 0x77073096) (evens g_crc32_table)"
  by (simp add: g_crc32_table_def)

lemma table_0: "g_crc32_table ! 0 = 0"
  by (simp add: g_crc32_table_def)

lemma table_start: "g_crc32_table ! 0 = (crc_bit ^^ 8) (word_of_nat 0)"
proof -
  have "(word_of_nat 0 :: u32) = 0" by simp
  then show ?thesis by (metis table_0 crc_bits_0)
qed

lemma table_double:
  assumes "i < 128"
  shows "crc_bit (g_crc32_table ! (2 * i)) = g_crc32_table ! i"
    and "g_crc32_table ! (2 * i + 1) = 0x77073096 XOR g_crc32_table ! (2 * i)"
  using arg_cong [OF table_evens, of "\<lambda>xs. xs ! i"] arg_cong [OF table_odds, of "\<lambda>xs. xs ! i"] assms
  by (simp_all add: evens_nth odds_nth)

lemma crc_bits_8_one: "(crc_bit ^^ 8) 1 = 0x77073096"
  by (simp add: numeral_eq_Suc) (simp add: crc_bit_def)

lemma word_double_bits:
  assumes "i < 128"
  shows "crc_bit (word_of_nat (2 * i)) = word_of_nat i"
    and "word_of_nat (2 * i + 1) = (1 :: u32) XOR word_of_nat (2 * i)"
proof -
  have "unat (word_of_nat (2 * i) :: u32) = 2 * i" "unat (word_of_nat i :: u32) = i"
    using assms by (simp_all only: unat_of_nat) simp_all
  then have "drop_bit 1 (word_of_nat (2 * i) :: u32) = word_of_nat i"
    by (intro word_unat_eq_iff [THEN iffD2], simp only: unat_drop_bit_eq) (simp add: drop_bit_eq_div)
  then show "crc_bit (word_of_nat (2 * i)) = word_of_nat i"
    by (simp add: crc_bit_def bit_0)
  have "even (word_of_nat (2 * i) :: u32)" by simp
  then have "(1 :: u32) XOR word_of_nat (2 * i) = word_of_nat (2 * i) + 1"
    by (simp add: one_xor_eq)
  then show "word_of_nat (2 * i + 1) = (1 :: u32) XOR word_of_nat (2 * i)" by simp
qed

lemma table_correct: "i < 256 \<Longrightarrow> g_crc32_table ! i = (crc_bit ^^ 8) (word_of_nat i)"
proof (induction i rule: less_induct)
  case (less i)
  show ?case
  proof (cases "i = 0")
    case True
    show ?thesis unfolding True by (rule table_start)
  next
    case False
    define k where "k = i div 2"
    have k: "k < i" "k < 128" "k < 256" using False less.prems by (simp_all add: k_def)
    have "crc_bit (g_crc32_table ! (2 * k)) = (crc_bit ^^ 8) (crc_bit (word_of_nat (2 * k)))"
      using table_double(1) [OF k(2)] less.IH [OF k(1,3)] word_double_bits(1) [OF k(2)] by simp
    then have even: "g_crc32_table ! (2 * k) = (crc_bit ^^ 8) (word_of_nat (2 * k))"
      by (rule crc_bit_inject [OF trans]) (rule funpow_swap1 [symmetric])
    consider "i = 2 * k" | "i = 2 * k + 1" unfolding k_def by linarith
    then show ?thesis
    proof cases
      case 1
      with even show ?thesis by simp
    next
      case 2
      have "g_crc32_table ! i = (crc_bit ^^ 8) 1 XOR (crc_bit ^^ 8) (word_of_nat (2 * k))"
        using table_double(2) [OF k(2)] even by (simp only: 2 crc_bits_8_one)
      also have "\<dots> = (crc_bit ^^ 8) (word_of_nat (2 * k + 1))"
        by (simp only: word_double_bits(2) [OF k(2)] crc_bits_xor)
      finally show ?thesis by (simp only: 2)
    qed
  qed
qed


section \<open>The loop computes the bitwise register\<close>

lemma and_ff: "(c :: u32) AND 0xff = take_bit 8 c"
proof -
  have "(0xff :: u32) = mask 8" by (simp add: mask_eq_exp_minus_1)
  then show ?thesis by (simp only: take_bit_eq_mask)
qed

lemma crc32_index: "((c :: u32) AND 0xff) XOR ucast (b :: u8) = take_bit 8 (c XOR ucast b)"
  unfolding and_ff by (rule bit_word_eqI) (auto simp: bit_simps dest: bit_imp_le_length)

lemma take_bit_8_bound: "unat (take_bit 8 (x :: u32)) < 256"
  using take_bit_nat_less_exp [of 8 "unat x"] by (simp add: unsigned_take_bit_eq)

lemma split_byte: "(x :: u32) = take_bit 8 x XOR push_bit 8 (drop_bit 8 x)"
  by (rule bit_word_eqI, case_tac "n < 8") (simp_all add: bit_simps)

text \<open>The read of the table is always inside its 256 entries.\<close>

lemma crc32_index_bound: "unat (((c :: u32) AND 0xff) XOR ucast (b :: u8)) < length g_crc32_table"
  unfolding crc32_index length_g_crc32_table by (rule take_bit_8_bound)

lemma crc_bits_high_byte: "(crc_bit ^^ 8) (push_bit 8 (drop_bit 8 x)) = drop_bit 8 x"
proof -
  have "(crc_bit ^^ 8) (push_bit 8 (drop_bit 8 x)) = drop_bit 8 (push_bit 8 (drop_bit 8 x))"
    by (rule crc_bits_high) (simp add: bit_simps)
  also have "\<dots> = drop_bit 8 x"
    by (rule bit_word_eqI) (auto simp: bit_simps dest: bit_imp_le_length)
  finally show ?thesis .
qed

lemma crc32_step_byte: "crc32_step c b = crc_byte c b"
proof -
  let ?x = "c XOR ucast b :: u32"
  have "drop_bit 8 ?x = drop_bit 8 c"
    by (rule bit_word_eqI) (auto simp: bit_simps dest: bit_imp_le_length)
  then have high: "(crc_bit ^^ 8) (push_bit 8 (drop_bit 8 ?x)) = drop_bit 8 c"
    by (simp only: crc_bits_high_byte)
  have "unat (take_bit 8 ?x) < 256" by (rule take_bit_8_bound)
  then have "g_crc32_table ! unat (take_bit 8 ?x) = (crc_bit ^^ 8) (take_bit 8 ?x)"
    by (simp only: table_correct of_nat_unat ucast_id)
  then show ?thesis unfolding crc32_step_def crc32_index crc_byte_def
    by (subst (2) split_byte) (simp only: crc_bits_xor high)
qed

lemma crc32_loop_foldl: "crc32_loop src c = foldl crc_byte c src"
  by (induction src arbitrary: c) (simp_all add: crc32_step_byte)

lemma crc32_loop_append: "crc32_loop (xs @ ys) c = crc32_loop ys (crc32_loop xs c)"
  by (simp add: crc32_loop_foldl)

section \<open>Checksums of lists of hashes\<close>

text \<open>
  \<open>crc32((const uint8_t *)hashes, sizeof(uint32_t) * n)\<close> in \<open>src/uccn.c\<close> reads an array of
  \<open>uint32_t\<close> in memory order; this is the little endian layout.
\<close>

definition le_bytes :: "u32 \<Rightarrow> bytes" where
  "le_bytes h = [ucast h, ucast (drop_bit 8 h), ucast (drop_bit 16 h), ucast (drop_bit 24 h)]"

definition content_hash :: "u32 list \<Rightarrow> u32" where
  "content_hash hashes = crc32 (concat (map le_bytes hashes))"

definition hash_step :: "u32 \<Rightarrow> u32 \<Rightarrow> u32" where
  "hash_step c h = crc32_loop (le_bytes h) c"

lemma crc_bits_8_word:
  "(crc_bit ^^ 8) (c XOR h) = crc_byte c (ucast h) XOR drop_bit 8 h"
proof -
  have split: "c XOR h = (c XOR ucast (ucast h :: u8)) XOR push_bit 8 (drop_bit 8 h)"
    by (rule bit_word_eqI, case_tac "n < 8") (simp_all add: bit_simps)
  show ?thesis
    by (subst split) (simp only: crc_bits_xor [of 8 "c XOR _"] crc_byte_def crc_bits_high_byte)
qed

text \<open>One 32-bit value advances the register by 32 bits at once.\<close>

lemma hash_step_bits: "hash_step c h = (crc_bit ^^ 32) (c XOR h)"
proof -
  have drops: "drop_bit 8 (drop_bit 8 h) = drop_bit 16 h" "drop_bit 8 (drop_bit 16 h) = drop_bit 24 h"
      "drop_bit 8 (drop_bit 24 h) = 0"
    by (simp_all add: drop_bit_drop_bit)
  have iterate32: "crc_bit ^^ 32 = crc_bit ^^ 8 \<circ> crc_bit ^^ 8 \<circ> crc_bit ^^ 8 \<circ> crc_bit ^^ 8"
    by (simp flip: funpow_add)
  have "(crc_bit ^^ 32) (c XOR h) =
      (crc_bit ^^ 8) ((crc_bit ^^ 8) ((crc_bit ^^ 8) ((crc_bit ^^ 8) (c XOR h))))"
    using fun_cong [OF iterate32, of "c XOR h"] by (simp only: comp_apply)
  also have "\<dots> = hash_step c h"
    by (simp only: crc_bits_8_word drops xor.right_neutral)
      (simp add: hash_step_def le_bytes_def crc32_loop_foldl)
  finally show ?thesis ..
qed

lemma content_hash_foldl: "content_hash hashes = foldl hash_step 0 hashes"
proof -
  have "crc32_loop (concat (map le_bytes hashes)) c = foldl hash_step c hashes" for c
    by (induction hashes arbitrary: c) (simp_all add: crc32_loop_append hash_step_def)
  then show ?thesis by (simp add: content_hash_def crc32_def)
qed

section \<open>What a reversible register detects\<close>

locale checksum_register =
  fixes step :: "'s \<Rightarrow> 'i \<Rightarrow> 's"
  assumes step_state_inject: "step c x = step d x \<Longrightarrow> c = d"
    and step_input_inject: "step c x = step c y \<Longrightarrow> x = y"
begin

lemma run_inject: "foldl step c xs = foldl step d xs \<Longrightarrow> c = d"
  by (induction xs arbitrary: c d) (auto dest: step_state_inject)

lemma replacement_detected:
  "x \<noteq> y \<Longrightarrow> foldl step c (xs @ x # ys) \<noteq> foldl step c (xs @ y # ys)"
  by (auto dest!: run_inject step_input_inject)

end

lemma xor_inject_word:
  "a XOR c = b XOR c \<longleftrightarrow> a = b" "c XOR a = c XOR b \<longleftrightarrow> a = (b :: 'a::len word)"
  by (auto simp: bit_eq_iff bit_xor_iff)

lemma ucast_u8_inject: "(ucast (x :: u8) :: u32) = ucast y \<longleftrightarrow> x = y"
proof -
  have "(ucast (ucast z :: u32) :: u8) = z" for z :: u8
    by (rule bit_word_eqI) (simp add: bit_simps)
  then show ?thesis by metis
qed

interpretation crc_bytes: checksum_register crc_byte
  by unfold_locales
    (auto simp: crc_byte_def xor_inject_word ucast_u8_inject dest!: crc_bits_inject)

interpretation crc_hashes: checksum_register hash_step
  by unfold_locales (auto simp: hash_step_bits xor_inject_word dest!: crc_bits_inject)

section \<open>The checksum\<close>

lemma crc32_foldl: "crc32 src = foldl crc_byte 0 src"
  by (simp add: crc32_def crc32_loop_foldl)

text \<open>C27: The table-driven checksum is the bit-serial one over the reflected polynomial.\<close>

theorem crc32_is_reference: "crc32 src = crc32_reference src"
  by (simp add: crc32_foldl crc32_reference_def)

text \<open>
  C28: Replacing one byte of a path always changes its hash, and replacing one hash of a list of
  resources always changes the list's hash: such a change is never missed.
\<close>

theorem replacement_changes_checksum:
  "(crc32 (xs @ x # ys) = crc32 (xs @ y # ys) \<longleftrightarrow> x = y) \<and>
   (content_hash (gs @ g # hs) = content_hash (gs @ h # hs) \<longleftrightarrow> g = h)"
  using crc_bytes.replacement_detected [of x y 0 xs ys] crc_hashes.replacement_detected [of g h 0 gs hs]
  by (auto simp: crc32_foldl content_hash_foldl)

text \<open>
  The register starts at zero, so zeros in front of the data go unnoticed: the empty list of
  hashes and every list of zero hashes have the hash 0 of a peer that has announced nothing.
\<close>

theorem leading_zeros_unnoticed:
  "crc32 (replicate n 0 @ src) = crc32 src \<and> content_hash (replicate n 0) = 0"
proof -
  have "foldl crc_byte 0 (replicate n 0) = 0" by (induction n) (simp_all add: crc_byte_def)
  moreover have "foldl hash_step 0 (replicate n 0) = 0" by (induction n) (simp_all add: hash_step_bits)
  ultimately show ?thesis by (simp add: crc32_foldl content_hash_foldl)
qed

end
