(* ===== verification/Mpack_Writer.thy ===== *)
theory Mpack_Writer
  imports Prelude
begin

text \<open>
  The part of the vendored MessagePack library (\<open>vendor/mpack/mpack.c\<close>) that \<open>src/uccn.c\<close>
  writes packets with, in the configuration of the build: no debug mode, hence no tracking
  (so that \<open>mpack_finish_map\<close> and its kin do nothing), no compatibility mode, optimised for
  speed, and writers on a fixed buffer without a flush function.

  \<open>w_out\<close> is what lies between the buffer's start and \<open>current\<close>, \<open>w_size\<close> the distance from
  the start to \<open>end\<close>.
\<close>

datatype mpack_error = mpack_ok | mpack_error_io | mpack_error_invalid | mpack_error_unsupported
  | mpack_error_type | mpack_error_too_big | mpack_error_memory | mpack_error_bug
  | mpack_error_data | mpack_error_eof

record mpack_writer =
  w_out :: bytes
  w_size :: nat
  w_error :: mpack_error

definition mpack_writer_init :: "nat \<Rightarrow> mpack_writer" where
  "mpack_writer_init sz = \<lparr>w_out = [], w_size = sz, w_error = mpack_ok\<rparr>"

definition mpack_writer_buffer_used :: "mpack_writer \<Rightarrow> nat" where
  "mpack_writer_buffer_used w = length (w_out w)"

definition mpack_writer_buffer_left :: "mpack_writer \<Rightarrow> nat" where
  "mpack_writer_buffer_left w = w_size w - length (w_out w)"

definition mpack_writer_flag_error :: "mpack_error \<Rightarrow> mpack_writer \<Rightarrow> mpack_writer" where
  "mpack_writer_flag_error e w = (if w_error w = mpack_ok then w\<lparr>w_error := e\<rparr> else w)"

text \<open>Without a flush function the buffer cannot be extended: the answer is always false.\<close>

definition mpack_writer_ensure :: "mpack_writer \<Rightarrow> bool \<times> mpack_writer" where
  "mpack_writer_ensure w =
     (if w_error w \<noteq> mpack_ok then (False, w)
      else (False, mpack_writer_flag_error mpack_error_too_big w))"

definition mpack_write_native_straddle :: "mpack_writer \<Rightarrow> mpack_writer" where
  "mpack_write_native_straddle w =
     (if w_error w \<noteq> mpack_ok then w else mpack_writer_flag_error mpack_error_too_big w)"

definition put :: "bytes \<Rightarrow> mpack_writer \<Rightarrow> mpack_writer" where
  "put bs w = w\<lparr>w_out := w_out w @ bs\<rparr>"

definition mpack_write_native :: "bytes \<Rightarrow> mpack_writer \<Rightarrow> mpack_writer" where
  "mpack_write_native p w =
     (if mpack_writer_buffer_left w < length p then mpack_write_native_straddle w else put p w)"

definition mpack_writer_destroy :: "mpack_writer \<Rightarrow> mpack_error" where
  "mpack_writer_destroy w = w_error w"

text \<open>The macro \<open>MPACK_WRITE_ENCODED\<close>: an encoding is stored whole or not at all.\<close>

definition MPACK_WRITE_ENCODED :: "bytes \<Rightarrow> mpack_writer \<Rightarrow> mpack_writer" where
  "MPACK_WRITE_ENCODED bs w =
     (if mpack_writer_buffer_left w \<ge> length bs then put bs w
      else let (ok, w') = mpack_writer_ensure w in if ok then put bs w' else w')"

section \<open>Big endian stores and encodings\<close>

definition mpack_store_u16 :: "u16 \<Rightarrow> bytes" where
  "mpack_store_u16 v = [ucast (drop_bit 8 v AND 0xff), ucast (v AND 0xff)]"

definition mpack_store_u32 :: "u32 \<Rightarrow> bytes" where
  "mpack_store_u32 v = [ucast (drop_bit 24 v AND 0xff), ucast (drop_bit 16 v AND 0xff),
     ucast (drop_bit 8 v AND 0xff), ucast (v AND 0xff)]"

definition mpack_encode_fixuint :: "u8 \<Rightarrow> bytes" where
  "mpack_encode_fixuint v = [v]"

definition mpack_encode_u8 :: "u8 \<Rightarrow> bytes" where
  "mpack_encode_u8 v = [0xcc, v]"

definition mpack_encode_u16 :: "u16 \<Rightarrow> bytes" where
  "mpack_encode_u16 v = 0xcd # mpack_store_u16 v"

definition mpack_encode_u32 :: "u32 \<Rightarrow> bytes" where
  "mpack_encode_u32 v = 0xce # mpack_store_u32 v"

definition mpack_encode_fixarray :: "u8 \<Rightarrow> bytes" where
  "mpack_encode_fixarray count = [0x90 OR count]"

definition mpack_encode_array16 :: "u16 \<Rightarrow> bytes" where
  "mpack_encode_array16 count = 0xdc # mpack_store_u16 count"

definition mpack_encode_array32 :: "u32 \<Rightarrow> bytes" where
  "mpack_encode_array32 count = 0xdd # mpack_store_u32 count"

definition mpack_encode_fixmap :: "u8 \<Rightarrow> bytes" where
  "mpack_encode_fixmap count = [0x80 OR count]"

definition mpack_encode_map16 :: "u16 \<Rightarrow> bytes" where
  "mpack_encode_map16 count = 0xde # mpack_store_u16 count"

definition mpack_encode_map32 :: "u32 \<Rightarrow> bytes" where
  "mpack_encode_map32 count = 0xdf # mpack_store_u32 count"

definition mpack_encode_fixstr :: "u8 \<Rightarrow> bytes" where
  "mpack_encode_fixstr count = [0xa0 OR count]"

definition mpack_encode_str8 :: "u8 \<Rightarrow> bytes" where
  "mpack_encode_str8 count = [0xd9, count]"

definition mpack_encode_str16 :: "u16 \<Rightarrow> bytes" where
  "mpack_encode_str16 count = 0xda # mpack_store_u16 count"

definition mpack_encode_str32 :: "u32 \<Rightarrow> bytes" where
  "mpack_encode_str32 count = 0xdb # mpack_store_u32 count"

definition mpack_encode_bin8 :: "u8 \<Rightarrow> bytes" where
  "mpack_encode_bin8 count = [0xc4, count]"

definition mpack_encode_bin16 :: "u16 \<Rightarrow> bytes" where
  "mpack_encode_bin16 count = 0xc5 # mpack_store_u16 count"

definition mpack_encode_bin32 :: "u32 \<Rightarrow> bytes" where
  "mpack_encode_bin32 count = 0xc6 # mpack_store_u32 count"

section \<open>The write functions\<close>

definition mpack_write_byte_element :: "u8 \<Rightarrow> mpack_writer \<Rightarrow> mpack_writer" where
  "mpack_write_byte_element value w =
     (if mpack_writer_buffer_left w \<ge> 1 then put [value] w
      else let (ok, w') = mpack_writer_ensure w in if ok then put [value] w' else w')"

definition mpack_write_nil :: "mpack_writer \<Rightarrow> mpack_writer" where
  "mpack_write_nil w = mpack_write_byte_element 0xc0 w"

definition mpack_write_u8 :: "u8 \<Rightarrow> mpack_writer \<Rightarrow> mpack_writer" where
  "mpack_write_u8 value w =
     (if value \<le> 127 then MPACK_WRITE_ENCODED (mpack_encode_fixuint value) w
      else MPACK_WRITE_ENCODED (mpack_encode_u8 value) w)"

definition mpack_write_u32 :: "u32 \<Rightarrow> mpack_writer \<Rightarrow> mpack_writer" where
  "mpack_write_u32 value w =
     (if value \<le> 127 then MPACK_WRITE_ENCODED (mpack_encode_fixuint (ucast value)) w
      else if value \<le> 0xff then MPACK_WRITE_ENCODED (mpack_encode_u8 (ucast value)) w
      else if value \<le> 0xffff then MPACK_WRITE_ENCODED (mpack_encode_u16 (ucast value)) w
      else MPACK_WRITE_ENCODED (mpack_encode_u32 value) w)"

definition mpack_start_array :: "u32 \<Rightarrow> mpack_writer \<Rightarrow> mpack_writer" where
  "mpack_start_array count w =
     (if count \<le> 15 then MPACK_WRITE_ENCODED (mpack_encode_fixarray (ucast count)) w
      else if count \<le> 0xffff then MPACK_WRITE_ENCODED (mpack_encode_array16 (ucast count)) w
      else MPACK_WRITE_ENCODED (mpack_encode_array32 count) w)"

definition mpack_start_map :: "u32 \<Rightarrow> mpack_writer \<Rightarrow> mpack_writer" where
  "mpack_start_map count w =
     (if count \<le> 15 then MPACK_WRITE_ENCODED (mpack_encode_fixmap (ucast count)) w
      else if count \<le> 0xffff then MPACK_WRITE_ENCODED (mpack_encode_map16 (ucast count)) w
      else MPACK_WRITE_ENCODED (mpack_encode_map32 count) w)"

definition mpack_start_bin_notrack :: "u32 \<Rightarrow> mpack_writer \<Rightarrow> mpack_writer" where
  "mpack_start_bin_notrack count w =
     (if count \<le> 0xff then MPACK_WRITE_ENCODED (mpack_encode_bin8 (ucast count)) w
      else if count \<le> 0xffff then MPACK_WRITE_ENCODED (mpack_encode_bin16 (ucast count)) w
      else MPACK_WRITE_ENCODED (mpack_encode_bin32 count) w)"

text \<open>
  \<open>mpack_write_str(writer, data, count)\<close>, for a pointer to at least \<open>count\<close> bytes: \<open>data\<close> are
  the bytes and \<open>count\<close> the length argument, a \<open>uint32_t\<close>.
\<close>

definition mpack_write_str :: "bytes \<Rightarrow> u32 \<Rightarrow> mpack_writer \<Rightarrow> mpack_writer" where
  "mpack_write_str data count w =
     (let body = take (unat count) data in
      if count \<le> 31 then
        let sz = unat count + 1 in
        if mpack_writer_buffer_left w \<ge> sz
        then put (mpack_encode_fixstr (ucast count) @ body) w
        else let (ok, w') = mpack_writer_ensure w in
             if ok then put (mpack_encode_fixstr (ucast count) @ body) w' else w'
      else if count \<le> 0xff then
        if unat count + 2 \<le> mpack_writer_buffer_left w
        then put (mpack_encode_str8 (ucast count) @ body) w
        else mpack_write_native body (MPACK_WRITE_ENCODED (mpack_encode_str8 (ucast count)) w)
      else if count \<le> 0xffff then
        mpack_write_native body (MPACK_WRITE_ENCODED (mpack_encode_str16 (ucast count)) w)
      else
        mpack_write_native body (MPACK_WRITE_ENCODED (mpack_encode_str32 count) w))"

text \<open>The length argument of \<open>mpack_write_bin\<close> is converted from \<open>size_t\<close> to \<open>uint32_t\<close>.\<close>

definition mpack_write_bin :: "bytes \<Rightarrow> mpack_writer \<Rightarrow> mpack_writer" where
  "mpack_write_bin data w =
     (let count = word_of_nat (length data) :: u32 in
      mpack_write_native (take (unat count) data) (mpack_start_bin_notrack count w))"

definition mpack_write_cstr :: "bytes \<Rightarrow> mpack_writer \<Rightarrow> mpack_writer result" where
  "mpack_write_cstr buf w = rbind (c_string buf) (\<lambda>cstr.
     let w' = (if length cstr > 0xffffffff then mpack_writer_flag_error mpack_error_invalid w else w)
     in Inr (mpack_write_str cstr (word_of_nat (length cstr)) w'))"

section \<open>Writers as bounded sinks\<close>

text \<open>
  What a sequence of write calls leaves in the buffer, stated once for every kind of value: a
  write that fits appends the value's encoding, a write that does not fit flags
  \<open>mpack_error_too_big\<close>, and a flagged error never goes away.
\<close>

definition wf_writer :: "mpack_writer \<Rightarrow> bool" where
  "wf_writer w \<longleftrightarrow> length (w_out w) \<le> w_size w"

locale byte_sink =
  fixes emit :: "'i \<Rightarrow> mpack_writer \<Rightarrow> mpack_writer"
    and enc :: "'i \<Rightarrow> bytes"
  assumes emit_fits: "w_error w = mpack_ok \<Longrightarrow> length (w_out w) + length (enc x) \<le> w_size w \<Longrightarrow>
      emit x w = put (enc x) w"
    and emit_overflow: "wf_writer w \<Longrightarrow> w_error w = mpack_ok \<Longrightarrow>
      w_size w < length (w_out w) + length (enc x) \<Longrightarrow> w_error (emit x w) = mpack_error_too_big"
    and emit_sticky: "w_error w \<noteq> mpack_ok \<Longrightarrow> w_error (emit x w) = w_error w"
    and emit_size: "w_size (emit x w) = w_size w"
    and emit_wf: "wf_writer w \<Longrightarrow> wf_writer (emit x w)"
    and emit_extends: "take (length (w_out w)) (w_out (emit x w)) = w_out w"
begin

lemma fold_sticky: "w_error w \<noteq> mpack_ok \<Longrightarrow> w_error (fold emit xs w) = w_error w"
  by (induction xs arbitrary: w) (simp_all add: emit_sticky)

lemma fold_wf: "wf_writer w \<Longrightarrow> wf_writer (fold emit xs w)"
  by (induction xs arbitrary: w) (simp_all add: emit_wf)

lemma fold_size: "w_size (fold emit xs w) = w_size w"
  by (induction xs arbitrary: w) (simp_all add: emit_size)

lemma fold_extends: "take (length (w_out w)) (w_out (fold emit xs w)) = w_out w"
proof (induction xs arbitrary: w)
  case (Cons x xs)
  have "length (w_out w) \<le> length (w_out (emit x w))" using emit_extends [of w x] by (metis linear take_all)
  then have "take (length (w_out w)) (w_out (fold emit xs (emit x w))) =
      take (length (w_out w)) (take (length (w_out (emit x w))) (w_out (fold emit xs (emit x w))))"
    by (simp add: min_def)
  then show ?case using Cons.IH [of "emit x w"] by (simp add: emit_extends)
qed simp

lemma fold_fits:
  "w_error w = mpack_ok \<Longrightarrow> length (w_out w) + length (concat (map enc xs)) \<le> w_size w \<Longrightarrow>
   fold emit xs w = put (concat (map enc xs)) w"
proof (induction xs arbitrary: w)
  case Nil
  then show ?case by (simp add: put_def)
next
  case (Cons x xs)
  then have "emit x w = put (enc x) w" by (intro emit_fits) simp_all
  with Cons show ?case by (simp add: put_def)
qed

lemma fold_overflow:
  "wf_writer w \<Longrightarrow> w_error w = mpack_ok \<Longrightarrow>
   w_size w < length (w_out w) + length (concat (map enc xs)) \<Longrightarrow>
   w_error (fold emit xs w) = mpack_error_too_big"
proof (induction xs arbitrary: w)
  case Nil
  then show ?case by (simp add: wf_writer_def)
next
  case (Cons x xs)
  show ?case
  proof (cases "length (w_out w) + length (enc x) \<le> w_size w")
    case True
    then have step: "emit x w = put (enc x) w" using Cons.prems(2) by (intro emit_fits)
    have "w_error (fold emit xs (put (enc x) w)) = mpack_error_too_big"
      using Cons.prems True by (intro Cons.IH) (simp_all add: put_def wf_writer_def)
    then show ?thesis by (simp add: step)
  next
    case False
    then have "w_error (emit x w) = mpack_error_too_big"
      using Cons.prems by (intro emit_overflow) simp_all
    then show ?thesis by (simp add: fold_sticky)
  qed
qed

lemma fold_ok_iff:
  assumes "wf_writer w" and "w_error w = mpack_ok"
  shows "w_error (fold emit xs w) = mpack_ok \<longleftrightarrow>
    length (w_out w) + length (concat (map enc xs)) \<le> w_size w"
  using fold_fits [OF assms(2), of xs] fold_overflow [OF assms, of xs] assms(2)
  by (cases "length (w_out w) + length (concat (map enc xs)) \<le> w_size w") (simp_all add: put_def)

end

section \<open>The values uCCN writes\<close>

datatype item = Item_Nil | Item_U8 u8 | Item_U32 u32 | Item_Map u32 | Item_Array u32
  | Item_Str bytes | Item_Bin bytes

fun enc_item :: "item \<Rightarrow> bytes" where
  "enc_item Item_Nil = [0xc0]"
| "enc_item (Item_U8 v) = (if v \<le> 127 then mpack_encode_fixuint v else mpack_encode_u8 v)"
| "enc_item (Item_U32 v) =
     (if v \<le> 127 then mpack_encode_fixuint (ucast v)
      else if v \<le> 0xff then mpack_encode_u8 (ucast v)
      else if v \<le> 0xffff then mpack_encode_u16 (ucast v)
      else mpack_encode_u32 v)"
| "enc_item (Item_Map n) =
     (if n \<le> 15 then mpack_encode_fixmap (ucast n)
      else if n \<le> 0xffff then mpack_encode_map16 (ucast n) else mpack_encode_map32 n)"
| "enc_item (Item_Array n) =
     (if n \<le> 15 then mpack_encode_fixarray (ucast n)
      else if n \<le> 0xffff then mpack_encode_array16 (ucast n) else mpack_encode_array32 n)"
| "enc_item (Item_Str s) =
     (let n = word_of_nat (length s) :: u32 in
      (if n \<le> 31 then mpack_encode_fixstr (ucast n)
       else if n \<le> 0xff then mpack_encode_str8 (ucast n)
       else if n \<le> 0xffff then mpack_encode_str16 (ucast n)
       else mpack_encode_str32 n) @ take (unat n) s)"
| "enc_item (Item_Bin d) =
     (let n = word_of_nat (length d) :: u32 in
      (if n \<le> 0xff then mpack_encode_bin8 (ucast n)
       else if n \<le> 0xffff then mpack_encode_bin16 (ucast n)
       else mpack_encode_bin32 n) @ take (unat n) d)"

fun write_item :: "item \<Rightarrow> mpack_writer \<Rightarrow> mpack_writer" where
  "write_item Item_Nil w = mpack_write_nil w"
| "write_item (Item_U8 v) w = mpack_write_u8 v w"
| "write_item (Item_U32 v) w = mpack_write_u32 v w"
| "write_item (Item_Map n) w = mpack_start_map n w"
| "write_item (Item_Array n) w = mpack_start_array n w"
| "write_item (Item_Str s) w = mpack_write_str s (word_of_nat (length s)) w"
| "write_item (Item_Bin d) w = mpack_write_bin d w"

text \<open>The two primitives every write function is made of have the sink's laws.\<close>

lemmas writer_defs = put_def wf_writer_def mpack_writer_buffer_left_def mpack_writer_ensure_def
  mpack_writer_flag_error_def mpack_write_native_straddle_def

interpretation encoded: byte_sink MPACK_WRITE_ENCODED "\<lambda>bs. bs"
  by unfold_locales (auto simp: MPACK_WRITE_ENCODED_def writer_defs)

interpretation native: byte_sink mpack_write_native "\<lambda>bs. bs"
  by unfold_locales (auto simp: mpack_write_native_def writer_defs)

lemma write_byte_encoded: "mpack_write_byte_element v = MPACK_WRITE_ENCODED [v]"
  by (auto simp: fun_eq_iff mpack_write_byte_element_def MPACK_WRITE_ENCODED_def)

text \<open>
  Every write call stores an encoding and then, for long strings and for blobs, the raw bytes.
\<close>

definition write_chunks :: "bytes \<times> bytes \<Rightarrow> mpack_writer \<Rightarrow> mpack_writer" where
  "write_chunks c w = mpack_write_native (snd c) (MPACK_WRITE_ENCODED (fst c) w)"

interpretation chunks: byte_sink write_chunks "\<lambda>c. fst c @ snd c"
  by unfold_locales
    (auto simp: write_chunks_def MPACK_WRITE_ENCODED_def mpack_write_native_def writer_defs)

fun item_chunks :: "item \<Rightarrow> bytes \<times> bytes" where
  "item_chunks (Item_Str s) =
     (let n = word_of_nat (length s) :: u32; body = take (unat n) s in
      if n \<le> 31 then (mpack_encode_fixstr (ucast n) @ body, [])
      else (if n \<le> 0xff then mpack_encode_str8 (ucast n)
            else if n \<le> 0xffff then mpack_encode_str16 (ucast n)
            else mpack_encode_str32 n, body))"
| "item_chunks (Item_Bin d) =
     (let n = word_of_nat (length d) :: u32 in
      (if n \<le> 0xff then mpack_encode_bin8 (ucast n)
       else if n \<le> 0xffff then mpack_encode_bin16 (ucast n)
       else mpack_encode_bin32 n, take (unat n) d))"
| "item_chunks x = (enc_item x, [])"

lemma enc_item_chunks: "fst (item_chunks x) @ snd (item_chunks x) = enc_item x"
  by (cases x) (simp_all add: Let_def)

lemma native_Nil [simp]: "mpack_write_native [] w = w"
  by (simp add: mpack_write_native_def put_def)

lemma length_take_count: "length (take (unat (word_of_nat (length s) :: u32)) s) = unat (word_of_nat (length s) :: u32)"
  by (simp add: unat_of_nat)

lemma ensure_eq: "mpack_writer_ensure w = (False, mpack_writer_flag_error mpack_error_too_big w)"
  by (simp add: mpack_writer_ensure_def mpack_writer_flag_error_def)

lemma write_fixstr:
  assumes "length (take (unat n) data) = unat n" and "n \<le> 31"
  shows "mpack_write_str data n w = MPACK_WRITE_ENCODED (mpack_encode_fixstr (ucast n) @ take (unat n) data) w"
proof -
  have "length (mpack_encode_fixstr (ucast n) @ take (unat n) data) = unat n + 1"
    using assms(1) by (simp add: mpack_encode_fixstr_def)
  then show ?thesis using assms(2)
    by (simp add: mpack_write_str_def MPACK_WRITE_ENCODED_def ensure_eq Let_def)
qed

lemma write_str8:
  assumes "length (take (unat n) data) = unat n" and "\<not> n \<le> 31" and "n \<le> 0xff"
  shows "mpack_write_str data n w =
    mpack_write_native (take (unat n) data) (MPACK_WRITE_ENCODED (mpack_encode_str8 (ucast n)) w)"
proof -
  have "mpack_write_native (take (unat n) data) (MPACK_WRITE_ENCODED (mpack_encode_str8 (ucast n)) w) =
      put (mpack_encode_str8 (ucast n) @ take (unat n) data) w"
    if "unat n + 2 \<le> mpack_writer_buffer_left w"
    using that assms(1) by (simp add: mpack_encode_str8_def mpack_write_native_def
        MPACK_WRITE_ENCODED_def put_def mpack_writer_buffer_left_def)
  then show ?thesis using assms(2,3) by (simp add: mpack_write_str_def Let_def)
qed

lemma write_str_long:
  "\<not> n \<le> 31 \<Longrightarrow> \<not> n \<le> 0xff \<Longrightarrow> mpack_write_str data n w =
    mpack_write_native (take (unat n) data)
      (MPACK_WRITE_ENCODED (if n \<le> 0xffff then mpack_encode_str16 (ucast n) else mpack_encode_str32 n) w)"
  by (simp add: mpack_write_str_def Let_def)

lemma write_item_str: "write_item (Item_Str s) w = write_chunks (item_chunks (Item_Str s)) w"
proof -
  let ?n = "word_of_nat (length s) :: u32"
  note len = length_take_count [of s]
  consider "?n \<le> 31" | "\<not> ?n \<le> 31" "?n \<le> 0xff" | "\<not> ?n \<le> 31" "\<not> ?n \<le> 0xff" by blast
  then show ?thesis
  proof cases
    case 1
    then show ?thesis by (simp add: write_fixstr [OF len] write_chunks_def Let_def)
  next
    case 2
    then show ?thesis by (simp add: write_str8 [OF len] write_chunks_def Let_def)
  next
    case 3
    then show ?thesis by (simp add: write_str_long write_chunks_def Let_def)
  qed
qed

lemma write_item_chunks: "write_item x w = write_chunks (item_chunks x) w"
proof (cases x)
  case (Item_Str s)
  then show ?thesis by (simp only: write_item_str)
qed (simp_all add: write_chunks_def mpack_write_nil_def write_byte_encoded mpack_write_u8_def
    mpack_write_u32_def mpack_start_map_def mpack_start_array_def mpack_write_bin_def
    mpack_start_bin_notrack_def Let_def)

interpretation items: byte_sink write_item enc_item
  unfolding write_item_chunks enc_item_chunks [symmetric]
  by unfold_locales
    (simp_all add: write_item_chunks chunks.emit_fits chunks.emit_overflow chunks.emit_sticky
      chunks.emit_size chunks.emit_wf chunks.emit_extends)

text \<open>
  C29: Whatever is written to a fresh writer, it stays within its buffer; if all of it fits, the
  buffer holds the encodings in order, and otherwise \<open>mpack_error_too_big\<close> is flagged.
\<close>

theorem writes_stay_in_bounds:
  "let w = fold write_item xs (mpack_writer_init n); bs = concat (map enc_item xs) in
   length (w_out w) \<le> n \<and>
   (if length bs \<le> n then w_error w = mpack_ok \<and> w_out w = bs else w_error w = mpack_error_too_big)"
proof -
  let ?w = "mpack_writer_init n"
  have w: "wf_writer ?w" "w_error ?w = mpack_ok" "w_out ?w = []" "w_size ?w = n"
    by (simp_all add: mpack_writer_init_def wf_writer_def)
  have "length (w_out (fold write_item xs ?w)) \<le> n"
    using items.fold_wf [OF w(1), of xs] by (simp only: wf_writer_def items.fold_size w(4))
  moreover have "fold write_item xs ?w = put (concat (map enc_item xs)) ?w"
    if "length (concat (map enc_item xs)) \<le> n"
    using that w by (intro items.fold_fits) simp_all
  moreover have "w_error (fold write_item xs ?w) = mpack_error_too_big"
    if "\<not> length (concat (map enc_item xs)) \<le> n"
    using that w by (intro items.fold_overflow) simp_all
  ultimately show ?thesis using w(2,3) by (auto simp: Let_def put_def)
qed

end
