(* ===== verification/Mpack_Reader.thy ===== *)
theory Mpack_Reader
  imports Mpack_Writer
begin

text \<open>
  The part of the vendored MessagePack library that \<open>src/uccn.c\<close> parses packets with: readers
  on a buffer that holds the whole packet (no fill function), no tracking (so that
  \<open>mpack_done_map\<close> and its kin do nothing) and no extension types. \<open>r_data\<close> is what lies
  between \<open>data\<close> and \<open>end\<close>. Floating point tags keep their bits: no caller looks at them.
\<close>

record mpack_reader =
  r_data :: bytes
  r_error :: mpack_error

definition mpack_reader_init_data :: "bytes \<Rightarrow> mpack_reader" where
  "mpack_reader_init_data data = \<lparr>r_data = data, r_error = mpack_ok\<rparr>"

definition mpack_reader_flag_error :: "mpack_error \<Rightarrow> mpack_reader \<Rightarrow> mpack_reader" where
  "mpack_reader_flag_error e r =
     (if r_error r = mpack_ok then r\<lparr>r_data := [], r_error := e\<rparr> else r)"

definition mpack_reader_destroy :: "mpack_reader \<Rightarrow> mpack_error" where
  "mpack_reader_destroy r = r_error r"

text \<open>\<open>mpack_reader_ensure\<close>, with \<open>mpack_reader_ensure_straddle\<close> for a reader that cannot fill.\<close>

definition mpack_reader_ensure :: "nat \<Rightarrow> mpack_reader \<Rightarrow> bool \<times> mpack_reader" where
  "mpack_reader_ensure count r =
     (if count \<le> length (r_data r) then (True, r)
      else (False, mpack_reader_flag_error mpack_error_invalid r))"

section \<open>Big endian loads\<close>

definition mpack_load_u8 :: "bytes \<Rightarrow> u8" where
  "mpack_load_u8 p = p ! 0"

definition mpack_load_u16 :: "bytes \<Rightarrow> u16" where
  "mpack_load_u16 p = push_bit 8 (ucast (p ! 0)) OR ucast (p ! 1)"

definition mpack_load_u32 :: "bytes \<Rightarrow> u32" where
  "mpack_load_u32 p = ((push_bit 24 (ucast (p ! 0)) OR push_bit 16 (ucast (p ! 1))) OR
     push_bit 8 (ucast (p ! 2))) OR ucast (p ! 3)"

definition mpack_load_u64 :: "bytes \<Rightarrow> u64" where
  "mpack_load_u64 p = push_bit 56 (ucast (p ! 0)) OR push_bit 48 (ucast (p ! 1)) OR
     push_bit 40 (ucast (p ! 2)) OR push_bit 32 (ucast (p ! 3)) OR push_bit 24 (ucast (p ! 4)) OR
     push_bit 16 (ucast (p ! 5)) OR push_bit 8 (ucast (p ! 6)) OR ucast (p ! 7)"

section \<open>Tags\<close>

datatype mpack_tag = Tag_Nil | Tag_Bool bool | Tag_Int u64 | Tag_Uint u64 | Tag_Float u32
  | Tag_Double u64 | Tag_Str u32 | Tag_Bin u32 | Tag_Array u32 | Tag_Map u32

text \<open>A tag of \<open>count\<close> bytes whose payload follows the type byte.\<close>

definition tag_of :: "nat \<Rightarrow> (bytes \<Rightarrow> mpack_tag) \<Rightarrow> mpack_reader \<Rightarrow> nat \<times> mpack_tag \<times> mpack_reader" where
  "tag_of count mk r =
     (let (ok, r') = mpack_reader_ensure count r in
      if ok then (count, mk (drop 1 (r_data r')), r') else (0, Tag_Nil, r'))"

definition mpack_parse_tag :: "mpack_reader \<Rightarrow> nat \<times> mpack_tag \<times> mpack_reader" where
  "mpack_parse_tag r =
    (let (ok, r) = mpack_reader_ensure 1 r in
     if \<not> ok then (0, Tag_Nil, r)
     else
       let type = mpack_load_u8 (r_data r) in
       if type \<le> 0x7f then (1, Tag_Uint (ucast type), r)
       else if type \<ge> 0xe0 then (1, Tag_Int (scast type), r)
       else if type \<le> 0x8f then (1, Tag_Map (ucast (type AND NOT 0xf0)), r)
       else if type \<le> 0x9f then (1, Tag_Array (ucast (type AND NOT 0xf0)), r)
       else if type \<le> 0xbf then (1, Tag_Str (ucast (type AND NOT 0xe0)), r)
       else if type = 0xc0 then (1, Tag_Nil, r)
       else if type = 0xc2 \<or> type = 0xc3 then (1, Tag_Bool (bit type 0), r)
       else if type = 0xc4 then tag_of 2 (\<lambda>p. Tag_Bin (ucast (mpack_load_u8 p))) r
       else if type = 0xc5 then tag_of 3 (\<lambda>p. Tag_Bin (ucast (mpack_load_u16 p))) r
       else if type = 0xc6 then tag_of 5 (\<lambda>p. Tag_Bin (mpack_load_u32 p)) r
       else if type = 0xca then tag_of 5 (\<lambda>p. Tag_Float (mpack_load_u32 p)) r
       else if type = 0xcb then tag_of 9 (\<lambda>p. Tag_Double (mpack_load_u64 p)) r
       else if type = 0xcc then tag_of 2 (\<lambda>p. Tag_Uint (ucast (mpack_load_u8 p))) r
       else if type = 0xcd then tag_of 3 (\<lambda>p. Tag_Uint (ucast (mpack_load_u16 p))) r
       else if type = 0xce then tag_of 5 (\<lambda>p. Tag_Uint (ucast (mpack_load_u32 p))) r
       else if type = 0xcf then tag_of 9 (\<lambda>p. Tag_Uint (mpack_load_u64 p)) r
       else if type = 0xd0 then tag_of 2 (\<lambda>p. Tag_Int (scast (mpack_load_u8 p))) r
       else if type = 0xd1 then tag_of 3 (\<lambda>p. Tag_Int (scast (mpack_load_u16 p))) r
       else if type = 0xd2 then tag_of 5 (\<lambda>p. Tag_Int (scast (mpack_load_u32 p))) r
       else if type = 0xd3 then tag_of 9 (\<lambda>p. Tag_Int (mpack_load_u64 p)) r
       else if type = 0xd9 then tag_of 2 (\<lambda>p. Tag_Str (ucast (mpack_load_u8 p))) r
       else if type = 0xda then tag_of 3 (\<lambda>p. Tag_Str (ucast (mpack_load_u16 p))) r
       else if type = 0xdb then tag_of 5 (\<lambda>p. Tag_Str (mpack_load_u32 p)) r
       else if type = 0xdc then tag_of 3 (\<lambda>p. Tag_Array (ucast (mpack_load_u16 p))) r
       else if type = 0xdd then tag_of 5 (\<lambda>p. Tag_Array (mpack_load_u32 p)) r
       else if type = 0xde then tag_of 3 (\<lambda>p. Tag_Map (ucast (mpack_load_u16 p))) r
       else if type = 0xdf then tag_of 5 (\<lambda>p. Tag_Map (mpack_load_u32 p)) r
       else if type = 0xc1 then (0, Tag_Nil, mpack_reader_flag_error mpack_error_invalid r)
       else (0, Tag_Nil, mpack_reader_flag_error mpack_error_unsupported r))"

definition mpack_read_tag :: "mpack_reader \<Rightarrow> mpack_tag \<times> mpack_reader" where
  "mpack_read_tag r =
     (if r_error r \<noteq> mpack_ok then (Tag_Nil, r)
      else let (count, tag, r') = mpack_parse_tag r in
           if count = 0 then (Tag_Nil, r') else (tag, r'\<lparr>r_data := drop count (r_data r')\<rparr>))"

section \<open>The expect functions\<close>

definition mpack_expect_u8 :: "mpack_reader \<Rightarrow> u8 \<times> mpack_reader" where
  "mpack_expect_u8 r =
     (case mpack_read_tag r of
        (Tag_Uint u, r') \<Rightarrow> if u \<le> 0xff then (ucast u, r')
                            else (0, mpack_reader_flag_error mpack_error_type r')
      | (Tag_Int i, r') \<Rightarrow> if 0 \<le> sint i \<and> sint i \<le> 0xff then (ucast i, r')
                           else (0, mpack_reader_flag_error mpack_error_type r')
      | (_, r') \<Rightarrow> (0, mpack_reader_flag_error mpack_error_type r'))"

definition mpack_expect_u32 :: "mpack_reader \<Rightarrow> u32 \<times> mpack_reader" where
  "mpack_expect_u32 r =
     (case mpack_read_tag r of
        (Tag_Uint u, r') \<Rightarrow> if u \<le> 0xffffffff then (ucast u, r')
                            else (0, mpack_reader_flag_error mpack_error_type r')
      | (Tag_Int i, r') \<Rightarrow> if 0 \<le> sint i \<and> sint i \<le> 0xffffffff then (ucast i, r')
                           else (0, mpack_reader_flag_error mpack_error_type r')
      | (_, r') \<Rightarrow> (0, mpack_reader_flag_error mpack_error_type r'))"

definition mpack_expect_map_or_nil :: "mpack_reader \<Rightarrow> bool \<times> u32 \<times> mpack_reader" where
  "mpack_expect_map_or_nil r =
     (case mpack_read_tag r of
        (Tag_Nil, r') \<Rightarrow> (False, 0, r')
      | (Tag_Map n, r') \<Rightarrow> (True, n, r')
      | (_, r') \<Rightarrow> (False, 0, mpack_reader_flag_error mpack_error_type r'))"

definition mpack_expect_map_max_or_nil :: "u32 \<Rightarrow> mpack_reader \<Rightarrow> bool \<times> u32 \<times> mpack_reader" where
  "mpack_expect_map_max_or_nil max_count r =
     (let (has_map, count, r') = mpack_expect_map_or_nil r in
      if has_map \<and> count > max_count
      then (False, 0, mpack_reader_flag_error mpack_error_type r') else (has_map, count, r'))"

definition mpack_expect_array_or_nil :: "mpack_reader \<Rightarrow> bool \<times> u32 \<times> mpack_reader" where
  "mpack_expect_array_or_nil r =
     (case mpack_read_tag r of
        (Tag_Nil, r') \<Rightarrow> (False, 0, r')
      | (Tag_Array n, r') \<Rightarrow> (True, n, r')
      | (_, r') \<Rightarrow> (False, 0, mpack_reader_flag_error mpack_error_type r'))"

definition mpack_expect_array_max_or_nil :: "u32 \<Rightarrow> mpack_reader \<Rightarrow> bool \<times> u32 \<times> mpack_reader" where
  "mpack_expect_array_max_or_nil max_count r =
     (let (has_array, count, r') = mpack_expect_array_or_nil r in
      if has_array \<and> count > max_count
      then (False, 0, mpack_reader_flag_error mpack_error_type r') else (has_array, count, r'))"

definition mpack_expect_bin :: "mpack_reader \<Rightarrow> u32 \<times> mpack_reader" where
  "mpack_expect_bin r =
     (case mpack_read_tag r of
        (Tag_Bin n, r') \<Rightarrow> (n, r')
      | (_, r') \<Rightarrow> (0, mpack_reader_flag_error mpack_error_type r'))"

text \<open>\<open>mpack_expect_native_u8\<close>, \<open>_u16\<close> and \<open>_u32\<close>.\<close>

definition mpack_expect_native :: "nat \<Rightarrow> (bytes \<Rightarrow> u32) \<Rightarrow> mpack_reader \<Rightarrow> u32 \<times> mpack_reader" where
  "mpack_expect_native sz load r =
     (if r_error r \<noteq> mpack_ok then (0, r)
      else let (ok, r') = mpack_reader_ensure sz r in
           if ok then (load (r_data r'), r'\<lparr>r_data := drop sz (r_data r')\<rparr>) else (0, r'))"

definition mpack_expect_str :: "mpack_reader \<Rightarrow> u32 \<times> mpack_reader" where
  "mpack_expect_str r =
     (let (type, r) = mpack_expect_native 1 (\<lambda>p. ucast (mpack_load_u8 p)) r in
      if drop_bit 5 type = 5 then (type AND NOT 0xe0, r)
      else if type = 0xd9 then mpack_expect_native 1 (\<lambda>p. ucast (mpack_load_u8 p)) r
      else if type = 0xda then mpack_expect_native 2 (\<lambda>p. ucast (mpack_load_u16 p)) r
      else if type = 0xdb then mpack_expect_native 4 mpack_load_u32 r
      else (0, mpack_reader_flag_error mpack_error_type r))"

text \<open>
  \<open>mpack_read_cstr\<close> stores into a buffer of \<open>bufsize\<close> bytes, given and returned here as its
  contents. A read past the packet's end clears what was asked for.
\<close>

definition mpack_read_native :: "mpack_reader \<Rightarrow> bytes \<Rightarrow> nat \<Rightarrow> bytes \<times> mpack_reader" where
  "mpack_read_native r buf count =
     (if count > length (r_data r)
      then (replicate count 0 @ drop count buf,
            if r_error r \<noteq> mpack_ok then r else mpack_reader_flag_error mpack_error_invalid r)
      else (take count (r_data r) @ drop count buf, r\<lparr>r_data := drop count (r_data r)\<rparr>))"

definition mpack_read_cstr_unchecked :: "mpack_reader \<Rightarrow> bytes \<Rightarrow> nat \<Rightarrow> bytes \<times> mpack_reader" where
  "mpack_read_cstr_unchecked r buf count =
     (if r_error r \<noteq> mpack_ok then (buf[0 := 0], r)
      else if count > length buf - 1
      then (buf[0 := 0], mpack_reader_flag_error mpack_error_too_big r)
      else let (buf', r') = mpack_read_native r buf count in (buf'[count := 0], r'))"

definition mpack_read_cstr :: "mpack_reader \<Rightarrow> bytes \<Rightarrow> nat \<Rightarrow> bytes \<times> mpack_reader" where
  "mpack_read_cstr r buf count =
     (let (buf', r') = mpack_read_cstr_unchecked r buf count in
      if r_error r' = mpack_ok \<and> 0 \<in> set (take count buf')
      then (buf'[0 := 0], mpack_reader_flag_error mpack_error_type r') else (buf', r'))"

definition mpack_expect_cstr :: "mpack_reader \<Rightarrow> bytes \<Rightarrow> bytes \<times> mpack_reader" where
  "mpack_expect_cstr r buf =
     (let (len, r') = mpack_expect_str r in mpack_read_cstr r' buf (unat len))"

definition mpack_read_bytes_inplace :: "mpack_reader \<Rightarrow> nat \<Rightarrow> bytes option \<times> mpack_reader" where
  "mpack_read_bytes_inplace r count =
     (if r_error r \<noteq> mpack_ok then (None, r)
      else if length (r_data r) \<ge> count
      then (Some (take count (r_data r)), r\<lparr>r_data := drop count (r_data r)\<rparr>)
      else let (ok, r') = mpack_reader_ensure count r in
           if \<not> ok then (None, r')
           else (Some (take count (r_data r')), r'\<lparr>r_data := drop count (r_data r')\<rparr>))"

section \<open>Reading back what was written\<close>

lemma ff_u16: "(0xff :: u16) = mask 8" by (simp add: mask_eq_exp_minus_1)
lemma ff_u32: "(0xff :: u32) = mask 8" by (simp add: mask_eq_exp_minus_1)

lemma load_store_u16: "mpack_load_u16 (mpack_store_u16 v @ rest) = v"
  unfolding mpack_load_u16_def mpack_store_u16_def ff_u16
  by (rule bit_word_eqI, case_tac "n < 8") (auto simp: bit_simps)

lemma load_store_u32: "mpack_load_u32 (mpack_store_u32 v @ rest) = v"
  unfolding mpack_load_u32_def mpack_store_u32_def ff_u32
  by (rule bit_word_eqI, case_tac "n < 8"; case_tac "n < 16"; case_tac "n < 24") (auto simp: bit_simps)

lemma unat_byte: "unat (ucast (x :: u8) :: u64) = unat x" "unat (ucast (x :: u8) :: u32) = unat x"
  using unsigned_less [of x, where ?'a = nat]
  by (simp_all add: unsigned_ucast_eq take_bit_nat_eq_self_iff)

lemma unat_half: "unat (ucast (x :: u16) :: u64) = unat x" "unat (ucast (x :: u16) :: u32) = unat x"
  using unsigned_less [of x, where ?'a = nat]
  by (simp_all add: unsigned_ucast_eq take_bit_nat_eq_self_iff)

lemma unat_word32: "unat (ucast (x :: u32) :: u64) = unat x"
  using unsigned_less [of x, where ?'a = nat]
  by (simp_all add: unsigned_ucast_eq take_bit_nat_eq_self_iff)

lemma narrow_u8: "v \<le> 0xff \<Longrightarrow> unat (ucast (v :: u32) :: u8) = unat v"
  by (simp add: unsigned_ucast_eq take_bit_nat_eq_self_iff word_le_nat_alt)
lemma narrow_u16: "v \<le> 0xffff \<Longrightarrow> unat (ucast (v :: u32) :: u16) = unat v"
  by (simp add: unsigned_ucast_eq take_bit_nat_eq_self_iff word_le_nat_alt)

definition reading :: "bytes \<Rightarrow> mpack_reader" where
  "reading bs = \<lparr>r_data = bs, r_error = mpack_ok\<rparr>"

lemmas reader_defs = reading_def mpack_read_tag_def mpack_parse_tag_def mpack_reader_ensure_def
  mpack_load_u8_def tag_of_def

lemma small15: "(n :: u32) \<le> 15 \<Longrightarrow> n \<in> {0,1,2,3,4,5,6,7,8,9,10,11,12,13,14,15}"
proof -
  assume "n \<le> 15"
  then have "n \<in> set (map word_of_nat [0..<16])"
    by (auto simp: word_le_nat_alt intro!: image_eqI [of _ _ "unat n"])
  then show ?thesis by (simp add: upt_conv_Cons)
qed

lemma read_tag_fixuint: "v \<le> 127 \<Longrightarrow>
  mpack_read_tag (reading (mpack_encode_fixuint v @ rest)) = (Tag_Uint (ucast v), reading rest)"
  by (simp add: reader_defs mpack_encode_fixuint_def)

lemma read_tag_u8:
  "mpack_read_tag (reading (mpack_encode_u8 v @ rest)) = (Tag_Uint (ucast v), reading rest)"
  by (simp add: reader_defs mpack_encode_u8_def)

lemma length_store [simp]: "length (mpack_store_u16 h) = 2" "length (mpack_store_u32 v) = 4"
  by (simp_all add: mpack_store_u16_def mpack_store_u32_def)

lemma read_tag_u16:
  "mpack_read_tag (reading (mpack_encode_u16 v @ rest)) = (Tag_Uint (ucast v), reading rest)"
  by (simp add: reader_defs mpack_encode_u16_def load_store_u16)

lemma read_tag_u32:
  "mpack_read_tag (reading (mpack_encode_u32 v @ rest)) = (Tag_Uint (ucast v), reading rest)"
  by (simp add: reader_defs mpack_encode_u32_def load_store_u32)

lemma read_tag_nil: "mpack_read_tag (reading (enc_item Item_Nil @ rest)) = (Tag_Nil, reading rest)"
  by (simp add: reader_defs)

lemma read_tag_fixmap: "n \<le> 15 \<Longrightarrow>
  mpack_read_tag (reading (mpack_encode_fixmap (ucast n) @ rest)) = (Tag_Map n, reading rest)"
  by (drule small15) (auto simp: reader_defs mpack_encode_fixmap_def)

lemma read_tag_fixarray: "n \<le> 15 \<Longrightarrow>
  mpack_read_tag (reading (mpack_encode_fixarray (ucast n) @ rest)) = (Tag_Array n, reading rest)"
  by (drule small15) (auto simp: reader_defs mpack_encode_fixarray_def)

lemma widen_narrow:
  "v \<le> 0xff \<Longrightarrow> ucast (ucast (v :: u32) :: u8) = v"
  "v \<le> 0xffff \<Longrightarrow> ucast (ucast (v :: u32) :: u16) = v"
  by (simp_all add: word_unat_eq_iff unat_byte unat_half narrow_u8 narrow_u16)

lemma read_tag_map: "mpack_read_tag (reading (enc_item (Item_Map n) @ rest)) = (Tag_Map n, reading rest)"
  by (simp add: read_tag_fixmap)
    (simp add: reader_defs mpack_encode_map16_def mpack_encode_map32_def load_store_u16 load_store_u32
      widen_narrow)

lemma read_tag_array:
  "mpack_read_tag (reading (enc_item (Item_Array n) @ rest)) = (Tag_Array n, reading rest)"
  by (simp add: read_tag_fixarray)
    (simp add: reader_defs mpack_encode_array16_def mpack_encode_array32_def load_store_u16
      load_store_u32 widen_narrow)

lemma unat_length_u32: "length s < 2 ^ 32 \<Longrightarrow> unat (word_of_nat (length s) :: u32) = length s"
  by (simp add: unat_of_nat)

lemma read_tag_bin:
  "length d < 2 ^ 32 \<Longrightarrow> mpack_read_tag (reading (enc_item (Item_Bin d) @ rest)) =
     (Tag_Bin (word_of_nat (length d)), reading (d @ rest))"
  by (simp add: Let_def unat_length_u32)
    (simp add: reader_defs mpack_encode_bin8_def mpack_encode_bin16_def mpack_encode_bin32_def
      load_store_u16 load_store_u32 widen_narrow)

lemma expect_u8_roundtrip:
  "mpack_expect_u8 (reading (enc_item (Item_U8 v) @ rest)) = (v, reading rest)"
proof -
  have "(ucast v :: u64) \<le> 0xff"
    using unsigned_less [of v, where ?'a = nat] by (simp add: word_le_nat_alt unat_byte)
  moreover have "(ucast (ucast v :: u64) :: u8) = v"
    by (rule bit_word_eqI) (simp add: bit_simps)
  ultimately show ?thesis
    by (simp add: mpack_expect_u8_def read_tag_fixuint read_tag_u8)
qed

lemma expect_u32_tag:
  "mpack_read_tag r = (Tag_Uint u, r') \<Longrightarrow> unat u = unat v \<Longrightarrow> mpack_expect_u32 r = (v, r')"
proof -
  assume tag: "mpack_read_tag r = (Tag_Uint u, r')" and u: "unat u = unat v"
  have lt: "unat v < 2 ^ 32" using unsigned_less [of v, where ?'a = nat] by simp
  then have "u \<le> 0xffffffff" using u by (simp add: word_le_nat_alt)
  moreover have "ucast u = v"
    using u lt by (simp add: word_unat_eq_iff unsigned_ucast_eq take_bit_nat_eq_self_iff)
  ultimately show "mpack_expect_u32 r = (v, r')" by (simp add: mpack_expect_u32_def tag)
qed

lemma expect_u32_roundtrip:
  "mpack_expect_u32 (reading (enc_item (Item_U32 v) @ rest)) = (v, reading rest)"
proof -
  consider "v \<le> 127" | "\<not> v \<le> 127" "v \<le> 0xff" | "\<not> v \<le> 127" "\<not> v \<le> 0xff" "v \<le> 0xffff"
    | "\<not> v \<le> 127" "\<not> v \<le> 0xff" "\<not> v \<le> 0xffff" by blast
  then show ?thesis
  proof cases
    case 1
    then have "v \<le> 0xff" by (rule order_trans) simp
    with 1 have "unat (ucast v :: u8) = unat v" "(ucast v :: u8) \<le> 127"
      by (simp_all add: narrow_u8 word_le_nat_alt)
    with 1 show ?thesis
      by (simp add: expect_u32_tag [OF read_tag_fixuint] unat_byte)
  next
    case 2
    then show ?thesis by (simp add: expect_u32_tag [OF read_tag_u8] unat_byte narrow_u8)
  next
    case 3
    then show ?thesis by (simp add: expect_u32_tag [OF read_tag_u16] unat_half narrow_u16)
  next
    case 4
    then show ?thesis by (simp add: expect_u32_tag [OF read_tag_u32] unat_word32)
  qed
qed

lemma expect_map_roundtrip:
  "mpack_expect_map_or_nil (reading (enc_item (Item_Map n) @ rest)) = (True, n, reading rest)"
  by (simp only: mpack_expect_map_or_nil_def read_tag_map) simp

lemma expect_array_roundtrip:
  "mpack_expect_array_or_nil (reading (enc_item (Item_Array n) @ rest)) = (True, n, reading rest)"
  by (simp only: mpack_expect_array_or_nil_def read_tag_array) simp

lemma expect_bin_roundtrip:
  "length d < 2 ^ 32 \<Longrightarrow> mpack_expect_bin (reading (enc_item (Item_Bin d) @ rest)) =
     (word_of_nat (length d), reading (d @ rest))"
  by (simp only: mpack_expect_bin_def read_tag_bin) simp

lemma small31: "(n :: u32) \<le> 31 \<Longrightarrow> n \<in> {0,1,2,3,4,5,6,7,8,9,10,11,12,13,14,15,
  16,17,18,19,20,21,22,23,24,25,26,27,28,29,30,31}"
proof -
  assume "n \<le> 31"
  then have "n \<in> set (map word_of_nat [0..<32])"
    by (auto simp: word_le_nat_alt intro!: image_eqI [of _ _ "unat n"])
  then show ?thesis by (simp add: upt_conv_Cons)
qed

lemma native_type_byte:
  "mpack_expect_native 1 (\<lambda>p. ucast (mpack_load_u8 p)) (reading (b # bs)) = (ucast b, reading bs)"
  by (simp add: mpack_expect_native_def reader_defs)

lemma native_u8:
  "mpack_expect_native (Suc 0) (\<lambda>p. ucast (mpack_load_u8 p)) (reading (b # bs)) = (ucast b, reading bs)"
  using native_type_byte by simp

lemma native_u16:
  "mpack_expect_native 2 (\<lambda>p. ucast (mpack_load_u16 p)) (reading (mpack_store_u16 v @ bs)) =
   (ucast v, reading bs)"
  by (simp add: mpack_expect_native_def reader_defs load_store_u16)

lemma native_u32:
  "mpack_expect_native 4 mpack_load_u32 (reading (mpack_store_u32 v @ bs)) = (v, reading bs)"
  by (simp add: mpack_expect_native_def reader_defs load_store_u32)

lemma expect_str_fix:
  "n \<le> 31 \<Longrightarrow> mpack_expect_str (reading (mpack_encode_fixstr (ucast n) @ bs)) = (n, reading bs)"
  by (drule small31)
    (auto simp: mpack_expect_str_def mpack_encode_fixstr_def native_u8)

lemma expect_str_roundtrip:
  assumes "length s < 2 ^ 32"
  shows "mpack_expect_str (reading (enc_item (Item_Str s) @ rest)) =
    (word_of_nat (length s), reading (s @ rest))"
proof -
  let ?n = "word_of_nat (length s) :: u32"
  have all: "take (unat ?n) s = s" using assms by (simp add: unat_length_u32)
  consider "?n \<le> 31" | "\<not> ?n \<le> 31" "?n \<le> 0xff" | "\<not> ?n \<le> 31" "\<not> ?n \<le> 0xff" "?n \<le> 0xffff"
    | "\<not> ?n \<le> 31" "\<not> ?n \<le> 0xff" "\<not> ?n \<le> 0xffff" by blast
  then show ?thesis
  proof cases
    case 1
    then show ?thesis by (simp add: Let_def all expect_str_fix)
  qed (simp_all add: Let_def all mpack_expect_str_def mpack_encode_str8_def mpack_encode_str16_def
      mpack_encode_str32_def native_u8 native_u16 native_u32 widen_narrow)
qed

lemma expect_cstr_roundtrip:
  assumes "length s < length buf" and "length buf < 2 ^ 32" and "0 \<notin> set s"
  shows "mpack_expect_cstr (reading (enc_item (Item_Str s) @ rest)) buf =
    (s @ 0 # drop (Suc (length s)) buf, reading rest)"
proof -
  have "drop (length s) buf = buf ! length s # drop (Suc (length s)) buf"
    using assms(1) by (simp add: Cons_nth_drop_Suc)
  moreover have "\<not> length buf - 1 < length s" using assms(1) by linarith
  ultimately show ?thesis
    using assms expect_str_roundtrip [of s rest]
    by (simp add: mpack_expect_cstr_def mpack_read_cstr_def mpack_read_cstr_unchecked_def
        mpack_read_native_def unat_length_u32 reading_def Let_def del: enc_item.simps)
qed

section \<open>Readers after an error\<close>

text \<open>A flagged error stays, and every later call answers nil, zero or false.\<close>

lemma reader_failed:
  assumes "r_error r \<noteq> mpack_ok"
  shows "mpack_expect_u8 r = (0, r)" "mpack_expect_u32 r = (0, r)"
    "mpack_expect_map_or_nil r = (False, 0, r)" "mpack_expect_array_or_nil r = (False, 0, r)"
    "mpack_expect_bin r = (0, r)" "mpack_read_bytes_inplace r n = (None, r)"
    "mpack_expect_map_max_or_nil m r = (False, 0, r)"
    "mpack_expect_array_max_or_nil m r = (False, 0, r)"
  using assms
  by (simp_all add: mpack_expect_u8_def mpack_expect_u32_def mpack_expect_map_or_nil_def
      mpack_expect_array_or_nil_def mpack_expect_bin_def mpack_read_bytes_inplace_def
      mpack_expect_map_max_or_nil_def mpack_expect_array_max_or_nil_def
      mpack_read_tag_def mpack_reader_flag_error_def)

lemma length_mpack_expect_cstr:
  "mpack_expect_cstr r buf = (buf', r') \<Longrightarrow> length buf' = length buf"
  by (auto simp: mpack_expect_cstr_def mpack_read_cstr_def mpack_read_cstr_unchecked_def
      mpack_read_native_def Let_def split: prod.splits if_splits)

text \<open>Whatever the input is, the string that was read is terminated.\<close>

lemma expect_cstr_terminated:
  assumes "mpack_expect_cstr r buf = (buf', r')" and "buf \<noteq> []"
  shows "0 \<in> set buf'"
proof -
  have zero: "0 \<in> set (xs[i := 0])" if "i < length xs" for xs :: bytes and i
    using that by (rule set_update_memI)
  have fits: "n < length buf" if "\<not> length buf - Suc 0 < n" for n
    using that assms(2) by (cases buf) auto
  have raw: "length b = length buf \<and> 0 \<in> set b" if "mpack_read_cstr_unchecked s buf n = (b, s')" for s n b s'
    using that assms(2)
    by (auto simp: mpack_read_cstr_unchecked_def mpack_read_native_def Let_def dest: fits split: if_splits intro!: zero)
  show ?thesis
    using assms by (auto simp: mpack_expect_cstr_def mpack_read_cstr_def Let_def split: prod.splits if_splits
        dest!: raw intro!: zero)
qed

section \<open>Round trips\<close>

text \<open>
  C30: Every kind of value the middleware sends is read back by the function that expects it, which
  leaves the reader at the next value.
\<close>

theorem values_roundtrip:
  assumes "length bs < 2 ^ 32" and "length cs < length buf" and "length buf < 2 ^ 32" and "0 \<notin> set cs"
  shows "mpack_expect_u8 (reading (enc_item (Item_U8 v) @ rest)) = (v, reading rest) \<and>
    mpack_expect_u32 (reading (enc_item (Item_U32 w) @ rest)) = (w, reading rest) \<and>
    mpack_expect_map_or_nil (reading (enc_item (Item_Map n) @ rest)) = (True, n, reading rest) \<and>
    mpack_expect_array_or_nil (reading (enc_item (Item_Array n) @ rest)) = (True, n, reading rest) \<and>
    mpack_expect_bin (reading (enc_item (Item_Bin bs) @ rest)) = (word_of_nat (length bs), reading (bs @ rest)) \<and>
    mpack_expect_cstr (reading (enc_item (Item_Str cs) @ rest)) buf =
      (cs @ 0 # drop (Suc (length cs)) buf, reading rest)"
  using expect_u8_roundtrip expect_u32_roundtrip expect_map_roundtrip expect_array_roundtrip
    expect_bin_roundtrip [OF assms(1)] expect_cstr_roundtrip [OF assms(2-4)] by blast

theorem values_roundtrip_witness:
  "mpack_expect_bin (reading (enc_item (Item_Bin [7]) @ [8])) = (1, reading [7, 8]) \<and>
   mpack_expect_cstr (reading (enc_item (Item_Str [65]) @ [8])) [1, 2, 3] = ([65, 0, 3], reading [8])"
  using values_roundtrip [of "[7]" "[65]" "[1, 2, 3]" 0 "[8]" 0 0] by simp

text \<open>
  An error sticks to a reader: every later call leaves the reader as it is and answers zero,
  no container or no bytes.
\<close>

theorem reader_error_sticks:
  assumes "r_error r \<noteq> mpack_ok"
  shows "mpack_expect_u8 r = (0, r) \<and> mpack_expect_u32 r = (0, r) \<and>
    mpack_expect_map_max_or_nil m r = (False, 0, r) \<and> mpack_expect_array_max_or_nil m r = (False, 0, r) \<and>
    mpack_expect_bin r = (0, r) \<and> mpack_read_bytes_inplace r n = (None, r)"
  using reader_failed [OF assms] by simp

theorem reader_error_sticks_witness:
  "mpack_expect_u32 \<lparr>r_data = [1], r_error = mpack_error_type\<rparr> = (0, \<lparr>r_data = [1], r_error = mpack_error_type\<rparr>)"
  using reader_error_sticks [of "\<lparr>r_data = [1], r_error = mpack_error_type\<rparr>" 0 0] by simp

end
