(* ===== verification/Eventfd.thy ===== *)
theory Eventfd
  imports Prelude
begin

text \<open>
  The stop event of a node, \<open>src/utilities/eventfd.c\<close>: a pipe whose write end does not block. What
  the pipe holds is the number of bytes in it; a read of the empty pipe waits for ever, as the model
  has no other thread that would write to it.
\<close>

section \<open>The operations\<close>

record eventfd_s =
  fd_read :: int
  fd_write :: int

record pipe_s =
  pipe_pending :: nat
  pipe_capacity :: nat

definition O_NONBLOCK :: int where "O_NONBLOCK = 2048"

text \<open>
  \<open>pipe\<close> answers its return value and the two descriptors, \<open>fcntl(fd, F_GETFL)\<close> the flags of the
  write end, \<open>fcntl(fd, F_SETFL, flags)\<close> its return value.
\<close>

definition eventfd_init ::
    "int \<times> int \<times> int \<Rightarrow> (int \<Rightarrow> int) \<Rightarrow> (int \<Rightarrow> int \<Rightarrow> int) \<Rightarrow> eventfd_s \<Rightarrow> int \<times> eventfd_s" where
  "eventfd_init pipe_answer getfl setfl ev =
     (let (ret, r, w) = pipe_answer in
      if ret < 0 then (ret, ev)
      else
        let ev = \<lparr>fd_read = r, fd_write = w\<rparr>;
            ret = getfl (fd_write ev)
        in if ret < 0 then (ret, ev) else (setfl (fd_write ev) (ret OR O_NONBLOCK), ev))"

definition eventfd_set :: "pipe_s \<Rightarrow> int \<times> pipe_s" where
  "eventfd_set p = (if pipe_pending p < pipe_capacity p then (1, p\<lparr>pipe_pending := pipe_pending p + 1\<rparr>) else (-1, p))"

definition eventfd_fileno :: "eventfd_s \<Rightarrow> int" where
  "eventfd_fileno ev = fd_read ev"

definition eventfd_clear :: "pipe_s \<Rightarrow> (int \<times> pipe_s) result" where
  "eventfd_clear p = (if pipe_pending p > 0 then Inr (1, p\<lparr>pipe_pending := pipe_pending p - 1\<rparr>) else Inl Deadlock)"

definition eventfd_fini :: "(int \<Rightarrow> int) \<Rightarrow> eventfd_s \<Rightarrow> int" where
  "eventfd_fini close ev = close (fd_read ev) OR close (fd_write ev)"

text \<open>Readiness of the read end, as \<open>select\<close> sees it.\<close>

definition readable :: "pipe_s \<Rightarrow> bool" where
  "readable p \<longleftrightarrow> pipe_pending p > 0"

section \<open>Setting and clearing\<close>

text \<open>
  Setting an event and clearing it again is the identity on an event whose pipe has room; setting
  one whose pipe is full fails and leaves it set. An event that has been set is readable either way.
\<close>

theorem eventfd_roundtrip:
  assumes "0 < pipe_capacity p" and "pipe_pending p \<le> pipe_capacity p"
  shows "case eventfd_set p of (ret, p') \<Rightarrow> readable p' \<and>
    (if pipe_pending p < pipe_capacity p then ret = 1 \<and> eventfd_clear p' = Inr (1, p)
     else ret = -1 \<and> p' = p)"
  using assms by (auto simp: eventfd_set_def eventfd_clear_def readable_def)

theorem eventfd_roundtrip_witness:
  "case eventfd_set \<lparr>pipe_pending = 0, pipe_capacity = 65536\<rparr> of (ret, p') \<Rightarrow> readable p' \<and>
    (if (0 :: nat) < 65536
     then ret = 1 \<and> eventfd_clear p' = Inr (1, \<lparr>pipe_pending = 0, pipe_capacity = 65536\<rparr>)
     else ret = -1 \<and> p' = \<lparr>pipe_pending = 0, pipe_capacity = 65536\<rparr>)"
  using eventfd_roundtrip [of "\<lparr>pipe_pending = 0, pipe_capacity = 65536\<rparr>"] by simp

text \<open>A close fails as a whole when one of the two fails.\<close>

lemma or_minus_one [simp]: "(- 1 :: int) OR n = - 1" "n OR (- 1 :: int) = - 1"
  by simp_all

lemma eventfd_fini_ok: "close (fd_read ev) = 0 \<Longrightarrow> close (fd_write ev) = 0 \<Longrightarrow> eventfd_fini close ev = 0"
  by (simp add: eventfd_fini_def)

end
