(* ===== verification/Node_State.thy ===== *)
theory Node_State
  imports Timespec Crc32 Mpack_Reader Eventfd
begin

text \<open>
  The data of \<open>include/uccn/uccn.h\<close> and \<open>include/uccn/common/buffer.h\<close>, the configuration of
  \<open>include/uccn/config.h\<close> at its defaults, and the node's environment.

  Arrays keep their full length and a separate count, as in the C structs: slots past the count
  hold stale values. A pointer to a peer is its index in the node's array of peers, \<open>None\<close> for a
  null pointer; a pointer to a resource, to a tracking callback or to its argument is a number.
  Addresses and ports are kept in host order. The system calls are functions of the number of
  the call, so that a run may meet any sequence of answers; what the node sends and hands to its
  callbacks is recorded in a trace.
\<close>

section \<open>Configuration\<close>

definition CONFIG_UCCN_PORT :: u16 where "CONFIG_UCCN_PORT = 15243"
definition CONFIG_UCCN_MAX_NODE_NAME_SIZE :: nat where "CONFIG_UCCN_MAX_NODE_NAME_SIZE = 64"
definition CONFIG_UCCN_MAX_RESOURCE_PATH_SIZE :: nat where "CONFIG_UCCN_MAX_RESOURCE_PATH_SIZE = 64"
definition CONFIG_UCCN_MAX_NUM_PEERS :: nat where "CONFIG_UCCN_MAX_NUM_PEERS = 5"
definition CONFIG_UCCN_MAX_NUM_RESOURCES :: nat where "CONFIG_UCCN_MAX_NUM_RESOURCES = 10"
definition CONFIG_UCCN_MAX_NUM_TRACKERS :: nat where
  "CONFIG_UCCN_MAX_NUM_TRACKERS = CONFIG_UCCN_MAX_NUM_RESOURCES"
definition CONFIG_UCCN_MAX_NUM_PROVIDERS :: nat where
  "CONFIG_UCCN_MAX_NUM_PROVIDERS = CONFIG_UCCN_MAX_NUM_RESOURCES"
definition CONFIG_UCCN_MAX_CONTENT_SIZE :: nat where "CONFIG_UCCN_MAX_CONTENT_SIZE = 256"
definition CONFIG_UCCN_INCOMING_BUFFER_SIZE :: nat where "CONFIG_UCCN_INCOMING_BUFFER_SIZE = 512"
definition CONFIG_UCCN_OUTGOING_BUFFER_SIZE :: nat where "CONFIG_UCCN_OUTGOING_BUFFER_SIZE = 512"

lemmas size_defs [config_simps] =
  CONFIG_UCCN_MAX_NODE_NAME_SIZE_def CONFIG_UCCN_MAX_RESOURCE_PATH_SIZE_def
  CONFIG_UCCN_MAX_NUM_PEERS_def CONFIG_UCCN_MAX_NUM_RESOURCES_def
  CONFIG_UCCN_MAX_NUM_TRACKERS_def CONFIG_UCCN_MAX_NUM_PROVIDERS_def
  CONFIG_UCCN_MAX_CONTENT_SIZE_def CONFIG_UCCN_INCOMING_BUFFER_SIZE_def
  CONFIG_UCCN_OUTGOING_BUFFER_SIZE_def

definition UCCN_NODE_NAME :: u8 where "UCCN_NODE_NAME = 0x8C"
definition UCCN_PROVIDED_ARRAY :: u8 where "UCCN_PROVIDED_ARRAY = 0x4D"
definition UCCN_TRACKED_ARRAY :: u8 where "UCCN_TRACKED_ARRAY = 0xD4"
definition UCCN_MAX_NUM_LINK_DATA :: u32 where "UCCN_MAX_NUM_LINK_DATA = 3"
definition UCCN_LINK_GROUP :: u8 where "UCCN_LINK_GROUP = 0x5A"
definition UCCN_CONTENT_GROUP :: u8 where "UCCN_CONTENT_GROUP = 0xA5"
definition UCCN_MAX_NUM_GROUPS :: u32 where "UCCN_MAX_NUM_GROUPS = 2"

lemmas code_defs [config_simps] =
  UCCN_NODE_NAME_def UCCN_PROVIDED_ARRAY_def UCCN_TRACKED_ARRAY_def UCCN_MAX_NUM_LINK_DATA_def
  UCCN_LINK_GROUP_def UCCN_CONTENT_GROUP_def UCCN_MAX_NUM_GROUPS_def

section \<open>Structures\<close>

text \<open>\<open>struct buffer_head_s\<close>: its \<open>size\<close> is the length of the storage.\<close>

record buffer =
  b_data :: bytes
  b_length :: nat

definition b_size :: "buffer \<Rightarrow> nat" where
  "b_size b = length (b_data b)"

definition b_contents :: "buffer \<Rightarrow> bytes" where
  "b_contents b = take (b_length b) (b_data b)"

definition stack_buffer_init :: "bytes \<Rightarrow> buffer" where
  "stack_buffer_init storage = \<lparr>b_data = storage, b_length = 0\<rparr>"

text \<open>
  The storage of a buffer after a writer on it: the writer's bytes over the old ones. The users
  of \<open>mpack_writer_t\<close> set the length from \<open>mpack_writer_buffer_used\<close>.
\<close>

definition b_written :: "mpack_writer \<Rightarrow> buffer \<Rightarrow> buffer" where
  "b_written w b = \<lparr>b_data = w_out w @ drop (length (w_out w)) (b_data b),
     b_length = mpack_writer_buffer_used w\<rparr>"

record sockaddr_in =
  sin_addr :: u32
  sin_port :: u16

text \<open>The storage alone, while the length is still that of the packet before.\<close>

definition b_store :: "mpack_writer \<Rightarrow> buffer \<Rightarrow> buffer" where
  "b_store w b = b\<lparr>b_data := w_out w @ drop (length (w_out w)) (b_data b)\<rparr>"

definition same_sockaddr_in :: "sockaddr_in \<Rightarrow> sockaddr_in \<Rightarrow> bool" where
  "same_sockaddr_in a b \<longleftrightarrow> sin_addr a = sin_addr b \<and> sin_port a = sin_port b"

text \<open>
  The printable location of an address: \<open>inet_ntop(AF_INET, ...)\<close> followed by
  \<open>snprintf(..., ":%d", port)\<close> into a field of \<open>INET_ADDRSTRLEN + 7\<close> characters.
\<close>

fun decimal :: "nat \<Rightarrow> bytes" where
  "decimal n = (if n < 10 then [48 + word_of_nat n]
     else decimal (n div 10) @ [48 + word_of_nat (n mod 10)])"

declare decimal.simps [simp del]

definition inet_ntop :: "u32 \<Rightarrow> bytes" where
  "inet_ntop a = decimal (unat a div 2 ^ 24) @ [46] @ decimal (unat a div 2 ^ 16 mod 256) @ [46] @
     decimal (unat a div 2 ^ 8 mod 256) @ [46] @ decimal (unat a mod 256)"

definition LOCATION_SIZE :: nat where "LOCATION_SIZE = 16 + 7"

definition format_location :: "u32 \<Rightarrow> u16 \<Rightarrow> bytes" where
  "format_location a port = take (LOCATION_SIZE - 1) (inet_ntop a @ [58] @ decimal (unat port))"

record peer =
  p_address :: sockaddr_in
  p_location :: bytes
  p_name :: bytes
  alive :: bool
  next_remote_deadline :: timespec
  next_local_deadline :: timespec
  provided_content_hash :: u32
  tracked_content_hash :: u32
  num_links :: u64

record endpoint =
  ep_resource :: nat
  ep_peers :: "nat option list"
  ep_num_peers :: nat

record tracker = endpoint +
  tr_track :: nat
  tr_arg :: nat

type_synonym provider = endpoint

record node =
  socket :: int
  address :: sockaddr_in
  broadcast_socket :: int
  broadcast_address :: sockaddr_in
  node_location :: bytes
  node_name :: bytes
  incoming_buffer :: buffer
  outgoing_buffer :: buffer
  content_buffer :: buffer
  peers :: "peer list"
  num_peers :: nat
  trackers :: "tracker list"
  num_trackers :: nat
  providers :: "provider list"
  num_providers :: nat
  mutex_locked :: bool
  stop_event :: eventfd_s

section \<open>Resources\<close>

text \<open>
  A resource's \<open>pack\<close> receives the content and the buffer that \<open>*blob\<close> points to and answers
  its return value, that buffer afterwards, and what \<open>*blob\<close> points to afterwards. Its \<open>unpack\<close>
  receives the blob and \<open>*content\<close> and answers its return value and \<open>*content\<close> afterwards.
  \<open>None\<close> is a null pointer. The functions receive the resource they belong to as a further
  argument in the code; here they are already applied to it. The type \<open>'c\<close> stands for what a
  \<open>void *\<close> content points to.
\<close>

type_synonym 'c pack_fn =
  "'c option \<Rightarrow> buffer option \<Rightarrow> (int \<times> buffer option \<times> buffer option) result"
type_synonym 'c unpack_fn = "buffer \<Rightarrow> 'c option \<Rightarrow> (int \<times> 'c option) result"

record 'c resource =
  res_path :: bytes
  res_hash :: u32
  res_unpack :: "'c unpack_fn"
  res_pack :: "'c pack_fn"

section \<open>The node in its environment\<close>

datatype 'c event =
    Sent int sockaddr_in bytes
  | Tracked nat nat nat "'c option"
  | Closed int

datatype received = Recv_Error int | Recv sockaddr_in bytes

text \<open>
  What a call of \<open>pselect\<close> answers: an error, which may be \<open>EINTR\<close>, or which of the two sockets are
  readable; before it, some stop events may have come from signal handlers or other threads.
\<close>

datatype selected = Select_Error nat bool | Selected nat bool bool

record 'c sys = node +
  resources :: "nat \<Rightarrow> 'c resource"
  clock_gettime :: "nat \<Rightarrow> int \<times> timespec"
  clock_calls :: nat
  sendto :: "nat \<Rightarrow> nat \<Rightarrow> int"
  sendto_calls :: nat
  recvfrom :: "nat \<Rightarrow> int \<Rightarrow> received"
  recvfrom_calls :: nat
  stop_pipe :: pipe_s
  pselect :: "nat \<Rightarrow> timespec \<Rightarrow> selected"
  pselect_calls :: nat
  trace :: "'c event list"

text \<open>\<open>clock_gettime(CLOCK_MONOTONIC, &t)\<close>: the return value and the time.\<close>

definition sys_clock :: "'c sys \<Rightarrow> int \<times> timespec \<times> 'c sys" where
  "sys_clock s = (let (ret, t) = clock_gettime s (clock_calls s) in
     (ret, t, s\<lparr>clock_calls := clock_calls s + 1\<rparr>))"

text \<open>
  \<open>sendto(fd, data, length, 0, addr, ...)\<close>: the number of bytes sent, or a negative value, in
  which case nothing has been sent.
\<close>

definition sys_sendto :: "int \<Rightarrow> sockaddr_in \<Rightarrow> bytes \<Rightarrow> 'c sys \<Rightarrow> int \<times> 'c sys" where
  "sys_sendto fd addr packet s =
     (let nbytes = sendto s (sendto_calls s) (length packet);
          s' = s\<lparr>sendto_calls := sendto_calls s + 1\<rparr>
      in (nbytes, if nbytes < 0 then s' else s'\<lparr>trace := trace s @ [Sent fd addr packet]\<rparr>))"

text \<open>
  \<open>recvfrom(fd, data, size, MSG_DONTWAIT, &addr, &addr_size)\<close> on the node's incoming buffer: a
  datagram that is longer than the buffer is cut off.
\<close>

definition sys_recvfrom :: "int \<Rightarrow> 'c sys \<Rightarrow> received \<times> 'c sys" where
  "sys_recvfrom fd s =
     (let s' = s\<lparr>recvfrom_calls := recvfrom_calls s + 1\<rparr> in
      case recvfrom s (recvfrom_calls s) fd of
        Recv_Error e \<Rightarrow> (Recv_Error e, s')
      | Recv addr d \<Rightarrow>
          let old = b_data (incoming_buffer s); d' = take (length old) d in
          (Recv addr d',
           s'\<lparr>incoming_buffer := (incoming_buffer s)\<lparr>b_data := d' @ drop (length d') old\<rparr>\<rparr>))"

text \<open>
  \<open>pthread_mutex_lock\<close> and \<open>pthread_mutex_unlock\<close> of a valid default mutex by the only thread of
  the model: locking a held mutex never returns.
\<close>

definition mutex_lock :: "'c sys \<Rightarrow> 'c sys result" where
  "mutex_lock s = (if mutex_locked s then Inl Deadlock else Inr (s\<lparr>mutex_locked := True\<rparr>))"

definition mutex_unlock :: "'c sys \<Rightarrow> 'c sys" where
  "mutex_unlock s = s\<lparr>mutex_locked := False\<rparr>"

definition resource_of :: "'c sys \<Rightarrow> 'e endpoint_scheme \<Rightarrow> 'c resource" where
  "resource_of s ep = resources s (ep_resource ep)"

end
