(* ===== verification/Links.thy ===== *)
theory Links
  imports Node_State
begin

text \<open>
  The links between a content endpoint and its peers (\<open>uccn_link\<close>, \<open>uccn_unlink\<close>,
  \<open>uccn_unlink_dead_peers\<close> of \<open>src/uccn.c\<close>), first as the array operations of the code, then as
  operations on the list of linked peers that the array represents.
\<close>

section \<open>The operations\<close>

definition find_peer :: "'e endpoint_scheme \<Rightarrow> nat \<Rightarrow> bool result" where
  "find_peer ep peer = for_loop
     (\<lambda>i found. rbind (arr_get (ep_peers ep) i) (\<lambda>q.
        Inr (if q = Some peer then Break True else Continue found)))
     0 (ep_num_peers ep) False"

definition uccn_link ::
    "'e endpoint_scheme \<Rightarrow> nat \<Rightarrow> peer list \<Rightarrow> (int \<times> 'e endpoint_scheme \<times> peer list) result" where
  "uccn_link ep peer ps =
     (if ep_num_peers ep \<ge> CONFIG_UCCN_MAX_NUM_PEERS then Inr (-1, ep, ps)
      else rbind (find_peer ep peer) (\<lambda>found.
        if found then Inr (0, ep, ps)
        else
          rbind (arr_set (ep_peers ep) (ep_num_peers ep) (Some peer)) (\<lambda>slots.
          rbind (arr_get ps peer) (\<lambda>p.
          rbind (arr_set ps peer (p\<lparr>num_links := num_links p + 1\<rparr>)) (\<lambda>ps'.
          Inr (1, ep\<lparr>ep_peers := slots, ep_num_peers := ep_num_peers ep + 1\<rparr>, ps'))))))"

definition unlink_body :: "nat \<Rightarrow> nat \<Rightarrow> int \<times> 'e endpoint_scheme \<times> peer list \<Rightarrow>
    (int \<times> 'e endpoint_scheme \<times> peer list) ctl result" where
  "unlink_body peer i = (\<lambda>(ret, ep, ps).
     rbind (arr_get (ep_peers ep) i) (\<lambda>q.
     if q = Some peer then
       rbind (shift_down i (ep_num_peers ep) (ep_peers ep)) (\<lambda>slots.
       rbind (arr_get ps peer) (\<lambda>p.
       rbind (arr_set ps peer (p\<lparr>num_links := num_links p - 1\<rparr>)) (\<lambda>ps'.
       Inr (Break (1, ep\<lparr>ep_peers := slots, ep_num_peers := ep_num_peers ep - 1\<rparr>, ps')))))
     else Inr (Continue (ret, ep, ps))))"

definition uccn_unlink ::
    "'e endpoint_scheme \<Rightarrow> nat \<Rightarrow> peer list \<Rightarrow> (int \<times> 'e endpoint_scheme \<times> peer list) result" where
  "uccn_unlink ep peer ps = for_loop (unlink_body peer) 0 (ep_num_peers ep) (0, ep, ps)"

text \<open>
  The loop of \<open>uccn_unlink_dead_peers\<close> takes its index back after a removal
  (\<open>--endpoint->num_peers, --i\<close> and then \<open>++i\<close>), so a removal keeps the index.
\<close>

function unlink_dead_from ::
    "nat \<Rightarrow> 'e endpoint_scheme \<Rightarrow> peer list \<Rightarrow> 'e endpoint_scheme result" where
  "unlink_dead_from i ep ps =
     (if i < ep_num_peers ep then
        rbind (arr_get (ep_peers ep) i) (\<lambda>q.
        case q of
          None \<Rightarrow> Inl Null_Deref
        | Some k \<Rightarrow>
            rbind (arr_get ps k) (\<lambda>p.
            if \<not> alive p then
              rbind (shift_down i (ep_num_peers ep) (ep_peers ep)) (\<lambda>slots.
              unlink_dead_from i (ep\<lparr>ep_peers := slots, ep_num_peers := ep_num_peers ep - 1\<rparr>) ps)
            else unlink_dead_from (i + 1) ep ps))
      else Inr ep)"
  by pat_completeness auto
termination
  by (relation "measure (\<lambda>(i, ep, ps). ep_num_peers ep - i)") auto

declare unlink_dead_from.simps [simp del]

definition uccn_unlink_dead_peers :: "'e endpoint_scheme \<Rightarrow> peer list \<Rightarrow> 'e endpoint_scheme result" where
  "uccn_unlink_dead_peers ep ps = unlink_dead_from 0 ep ps"

section \<open>The list an endpoint represents\<close>

definition linked :: "'e endpoint_scheme \<Rightarrow> nat option list" where
  "linked ep = take (ep_num_peers ep) (ep_peers ep)"

definition wf_endpoint :: "'e endpoint_scheme \<Rightarrow> bool" where
  "wf_endpoint ep \<longleftrightarrow>
     length (ep_peers ep) = CONFIG_UCCN_MAX_NUM_PEERS \<and>
     ep_num_peers ep \<le> CONFIG_UCCN_MAX_NUM_PEERS \<and>
     distinct (linked ep) \<and> (\<forall>q \<in> set (linked ep). \<exists>k < CONFIG_UCCN_MAX_NUM_PEERS. q = Some k)"

definition wf_peers :: "peer list \<Rightarrow> bool" where
  "wf_peers ps \<longleftrightarrow> length ps = CONFIG_UCCN_MAX_NUM_PEERS"

lemma length_linked [simp]:
  "wf_endpoint ep \<Longrightarrow> length (linked ep) = ep_num_peers ep"
  by (simp add: wf_endpoint_def linked_def)

lemma linked_nth: "i < ep_num_peers ep \<Longrightarrow> linked ep ! i = ep_peers ep ! i"
  by (simp add: linked_def)

lemma find_loop:
  "i \<le> n \<Longrightarrow> n \<le> length a \<Longrightarrow>
   for_loop (\<lambda>i found. rbind (arr_get a i) (\<lambda>q. Inr (if q = x then Break True else Continue found)))
     i n False = Inr (x \<in> set (drop i (take n a)))"
proof (induction "n - i" arbitrary: i)
  case 0
  then show ?case by simp
next
  case (Suc k)
  then have "i < n" by simp
  then have "drop i (take n a) = a ! i # drop (Suc i) (take n a)"
    using Suc.prems by (simp add: Cons_nth_drop_Suc [symmetric])
  with \<open>i < n\<close> show ?case
    using Suc.hyps(1) [of "Suc i"] Suc.hyps(2) Suc.prems by (auto simp: for_loop_step)
qed

lemma find_peer_linked:
  "wf_endpoint ep \<Longrightarrow> find_peer ep peer = Inr (Some peer \<in> set (linked ep))"
  using find_loop [of 0 "ep_num_peers ep" "ep_peers ep" "Some peer"]
  by (simp add: find_peer_def wf_endpoint_def linked_def)

text \<open>What linking does, on every branch.\<close>

lemma uccn_link_full:
  "ep_num_peers ep \<ge> CONFIG_UCCN_MAX_NUM_PEERS \<Longrightarrow> uccn_link ep peer ps = Inr (-1, ep, ps)"
  by (simp add: uccn_link_def)

lemma uccn_link_known:
  "wf_endpoint ep \<Longrightarrow> ep_num_peers ep < CONFIG_UCCN_MAX_NUM_PEERS \<Longrightarrow> Some peer \<in> set (linked ep) \<Longrightarrow>
   uccn_link ep peer ps = Inr (0, ep, ps)"
  by (simp add: uccn_link_def find_peer_linked)

definition bump_links :: "u64 \<Rightarrow> nat \<Rightarrow> peer list \<Rightarrow> peer list" where
  "bump_links d k ps = ps[k := (ps ! k)\<lparr>num_links := num_links (ps ! k) + d\<rparr>]"

lemma wf_bump_links [simp]: "wf_peers (bump_links d k ps) = wf_peers ps"
  by (simp add: wf_peers_def bump_links_def)

definition link_slot :: "nat \<Rightarrow> 'e endpoint_scheme \<Rightarrow> 'e endpoint_scheme" where
  "link_slot peer ep = ep\<lparr>ep_peers := (ep_peers ep)[ep_num_peers ep := Some peer],
     ep_num_peers := ep_num_peers ep + 1\<rparr>"

lemma uccn_link_new:
  "wf_endpoint ep \<Longrightarrow> wf_peers ps \<Longrightarrow> ep_num_peers ep < CONFIG_UCCN_MAX_NUM_PEERS \<Longrightarrow>
   peer < CONFIG_UCCN_MAX_NUM_PEERS \<Longrightarrow> Some peer \<notin> set (linked ep) \<Longrightarrow>
   uccn_link ep peer ps = Inr (1, link_slot peer ep, bump_links 1 peer ps)"
  by (simp add: uccn_link_def find_peer_linked link_slot_def bump_links_def)
    (simp add: wf_endpoint_def wf_peers_def)

lemma linked_link_slot:
  "wf_endpoint ep \<Longrightarrow> ep_num_peers ep < CONFIG_UCCN_MAX_NUM_PEERS \<Longrightarrow>
   linked (link_slot peer ep) = linked ep @ [Some peer]"
  by (simp add: linked_def link_slot_def wf_endpoint_def take_Suc_conv_app_nth)

lemma wf_link_slot:
  "wf_endpoint ep \<Longrightarrow> ep_num_peers ep < CONFIG_UCCN_MAX_NUM_PEERS \<Longrightarrow>
   peer < CONFIG_UCCN_MAX_NUM_PEERS \<Longrightarrow> Some peer \<notin> set (linked ep) \<Longrightarrow> wf_endpoint (link_slot peer ep)"
  using linked_link_slot [of ep peer]
  by (auto simp: wf_endpoint_def link_slot_def)

text \<open>What unlinking does.\<close>

definition unlink_slot :: "nat \<Rightarrow> 'e endpoint_scheme \<Rightarrow> 'e endpoint_scheme" where
  "unlink_slot i ep = ep\<lparr>ep_peers := shifted i (ep_num_peers ep) (ep_peers ep),
     ep_num_peers := ep_num_peers ep - 1\<rparr>"

lemma linked_unlink_slot:
  "wf_endpoint ep \<Longrightarrow> i < ep_num_peers ep \<Longrightarrow>
   linked (unlink_slot i ep) = take i (linked ep) @ drop (Suc i) (linked ep)"
  using take_shifted [of i "ep_num_peers ep" "ep_peers ep"]
  by (simp add: linked_def unlink_slot_def wf_endpoint_def min_absorb1)

lemma remove1_first:
  "i < length xs \<Longrightarrow> x \<notin> set (take i xs) \<Longrightarrow> xs ! i = x \<Longrightarrow>
   remove1 x xs = take i xs @ drop (Suc i) xs"
proof -
  assume "i < length xs" and not_before: "x \<notin> set (take i xs)" and "xs ! i = x"
  then have "xs = take i xs @ x # drop (Suc i) xs" using id_take_nth_drop [of i xs] by simp
  then show ?thesis using not_before by (metis remove1.simps(2) remove1_append)
qed

lemma wf_endpoint_sub:
  assumes "wf_endpoint ep" and "length (ep_peers ep') = length (ep_peers ep)"
    and "ep_num_peers ep' \<le> ep_num_peers ep"
    and "distinct (linked ep')" and "set (linked ep') \<subseteq> set (linked ep)"
  shows "wf_endpoint ep'"
  using assms by (auto simp: wf_endpoint_def)

lemma wf_unlink_slot:
  assumes "wf_endpoint ep" and "i < ep_num_peers ep"
  shows "wf_endpoint (unlink_slot i ep)"
proof (rule wf_endpoint_sub [OF assms(1)])
  have "linked ep = take i (linked ep) @ linked ep ! i # drop (Suc i) (linked ep)"
    using assms by (intro id_take_nth_drop) simp
  moreover have "distinct (linked ep)" using assms(1) by (simp add: wf_endpoint_def)
  ultimately have "distinct (take i (linked ep) @ linked ep ! i # drop (Suc i) (linked ep))" by simp
  then show "distinct (linked (unlink_slot i ep))"
    by (simp add: linked_unlink_slot [OF assms])
  show "set (linked (unlink_slot i ep)) \<subseteq> set (linked ep)"
    using set_take_subset [of i "linked ep"] set_drop_subset [of "Suc i" "linked ep"]
    by (auto simp: linked_unlink_slot [OF assms])
qed (use assms in \<open>simp_all add: unlink_slot_def wf_endpoint_def\<close>)

lemma unlink_loop:
  assumes "wf_endpoint ep" and "wf_peers ps" and "peer < CONFIG_UCCN_MAX_NUM_PEERS"
  shows "j \<le> ep_num_peers ep \<Longrightarrow> Some peer \<notin> set (take j (linked ep)) \<Longrightarrow>
    (Some peer \<notin> set (linked ep) \<and>
      for_loop (unlink_body peer) j (ep_num_peers ep) (0, ep, ps) = Inr (0, ep, ps)) \<or>
    (\<exists>i < ep_num_peers ep. Some peer \<notin> set (take i (linked ep)) \<and> linked ep ! i = Some peer \<and>
      for_loop (unlink_body peer) j (ep_num_peers ep) (0, ep, ps) =
        Inr (1, unlink_slot i ep, bump_links (- 1) peer ps))"
proof (induction "ep_num_peers ep - j" arbitrary: j)
  case 0
  then show ?case using assms(1) by auto
next
  case (Suc k)
  then have j: "j < ep_num_peers ep" by simp
  have bounds: "j < length (ep_peers ep)" "ep_num_peers ep \<le> length (ep_peers ep)" "peer < length ps"
    using assms j by (simp_all add: wf_endpoint_def wf_peers_def)
  show ?case
  proof (cases "linked ep ! j = Some peer")
    case True
    then have "unlink_body peer j (0, ep, ps) = Inr (Break (1, unlink_slot j ep, bump_links (- 1) peer ps))"
      using bounds j by (simp add: unlink_body_def shift_down_ok unlink_slot_def bump_links_def linked_nth)
    then show ?thesis using True j Suc.prems(2) by (auto simp: for_loop_step)
  next
    case False
    then have "unlink_body peer j (0, ep, ps) = Inr (Continue (0, ep, ps))"
      using bounds j by (simp add: unlink_body_def linked_nth)
    moreover have "Some peer \<notin> set (take (Suc j) (linked ep))"
      using False j Suc.prems(2) assms(1) by (simp add: take_Suc_conv_app_nth)
    ultimately show ?thesis
      using Suc.hyps(1) [of "Suc j"] Suc.hyps(2) j by (simp add: for_loop_step)
  qed
qed

lemma uccn_unlink_unknown:
  "wf_endpoint ep \<Longrightarrow> wf_peers ps \<Longrightarrow> peer < CONFIG_UCCN_MAX_NUM_PEERS \<Longrightarrow>
   Some peer \<notin> set (linked ep) \<Longrightarrow> uccn_unlink ep peer ps = Inr (0, ep, ps)"
  using unlink_loop [of ep ps peer 0]
  by (auto simp: uccn_unlink_def) (metis length_linked nth_mem)

text \<open>The slot that unlinking removes is the first that holds the peer.\<close>

definition unlink_first :: "nat \<Rightarrow> 'e endpoint_scheme \<Rightarrow> 'e endpoint_scheme" where
  "unlink_first peer ep = unlink_slot (length (takeWhile (\<lambda>q. q \<noteq> Some peer) (linked ep))) ep"

lemma first_index:
  "i < length xs \<Longrightarrow> x \<notin> set (take i xs) \<Longrightarrow> xs ! i = x \<Longrightarrow> length (takeWhile (\<lambda>q. q \<noteq> x) xs) = i"
proof -
  assume "i < length xs" and not_before: "x \<notin> set (take i xs)" and "xs ! i = x"
  then have "xs = take i xs @ x # drop (Suc i) xs" using id_take_nth_drop [of i xs] by simp
  then have "takeWhile (\<lambda>q. q \<noteq> x) xs = take i xs"
    using not_before by (metis (mono_tags, lifting) takeWhile.simps(2) takeWhile_append2 append_Nil2)
  then show ?thesis using \<open>i < length xs\<close> by simp
qed

lemma uccn_unlink_known:
  assumes "wf_endpoint ep" and "wf_peers ps" and "peer < CONFIG_UCCN_MAX_NUM_PEERS"
    and "Some peer \<in> set (linked ep)"
  shows "uccn_unlink ep peer ps = Inr (1, unlink_first peer ep, bump_links (- 1) peer ps)"
    and "wf_endpoint (unlink_first peer ep)"
    and "linked (unlink_first peer ep) = remove1 (Some peer) (linked ep)"
proof -
  obtain i where i: "i < ep_num_peers ep" "Some peer \<notin> set (take i (linked ep))"
      "linked ep ! i = Some peer"
      "uccn_unlink ep peer ps = Inr (1, unlink_slot i ep, bump_links (- 1) peer ps)"
    using unlink_loop [OF assms(1-3), of 0] assms(4) by (auto simp: uccn_unlink_def)
  then have first: "unlink_first peer ep = unlink_slot i ep"
    using assms(1) by (simp add: unlink_first_def first_index)
  show "uccn_unlink ep peer ps = Inr (1, unlink_first peer ep, bump_links (- 1) peer ps)"
    using i(4) by (simp add: first)
  show "wf_endpoint (unlink_first peer ep)"
    unfolding first by (rule wf_unlink_slot [OF assms(1) i(1)])
  show "linked (unlink_first peer ep) = remove1 (Some peer) (linked ep)"
    unfolding first using i assms(1) by (simp add: linked_unlink_slot remove1_first)
qed

text \<open>What dropping the dead peers does.\<close>

definition alive_in :: "peer list \<Rightarrow> nat option \<Rightarrow> bool" where
  "alive_in ps q = (case q of None \<Rightarrow> False | Some k \<Rightarrow> alive (ps ! k))"

lemma unlink_dead_from_ok:
  assumes "wf_endpoint ep" and "wf_peers ps" and "i \<le> ep_num_peers ep"
  shows "\<exists>a m. unlink_dead_from i ep ps = Inr (ep\<lparr>ep_peers := a, ep_num_peers := m\<rparr>) \<and>
    wf_endpoint (ep\<lparr>ep_peers := a, ep_num_peers := m\<rparr>) \<and>
    linked (ep\<lparr>ep_peers := a, ep_num_peers := m\<rparr>) =
      take i (linked ep) @ filter (alive_in ps) (drop i (linked ep))"
  using assms
proof (induction i ep ps rule: unlink_dead_from.induct)
  case (1 i ep ps)
  show ?case
  proof (cases "i < ep_num_peers ep")
    case False
    then have "unlink_dead_from i ep ps = Inr (ep\<lparr>ep_peers := ep_peers ep, ep_num_peers := ep_num_peers ep\<rparr>)"
      by (simp add: unlink_dead_from.simps [of i ep ps])
    moreover have "linked ep = take i (linked ep) @ filter (alive_in ps) (drop i (linked ep))"
      using False "1.prems" by simp
    ultimately show ?thesis using "1.prems"(1)
      by (intro exI [of _ "ep_peers ep"] exI [of _ "ep_num_peers ep"]) simp
  next
    case True
    then have "linked ep ! i \<in> set (linked ep)" using "1.prems"(1) by simp
    then obtain k where k: "linked ep ! i = Some k" "k < CONFIG_UCCN_MAX_NUM_PEERS"
      using "1.prems"(1) unfolding wf_endpoint_def by blast
    have get: "arr_get (ep_peers ep) i = Inr (Some k)" "arr_get ps k = Inr (ps ! k)"
      using True k "1.prems" by (simp_all add: linked_nth wf_endpoint_def wf_peers_def)
    have split: "drop i (linked ep) = Some k # drop (Suc i) (linked ep)"
      using True k "1.prems"(1) by (simp add: Cons_nth_drop_Suc [symmetric])
    show ?thesis
    proof (cases "alive (ps ! k)")
      case alive: True
      have "unlink_dead_from i ep ps = unlink_dead_from (i + 1) ep ps"
        using True get alive by (simp add: unlink_dead_from.simps [of i ep ps])
      moreover have "take i (linked ep) @ filter (alive_in ps) (drop i (linked ep)) =
          take (i + 1) (linked ep) @ filter (alive_in ps) (drop (i + 1) (linked ep))"
        using True k alive split "1.prems"(1) by (simp add: alive_in_def take_Suc_conv_app_nth)
      ultimately show ?thesis
        using "1.IH"(2) [OF True get(1) refl get(2)] alive True "1.prems" by simp
    next
      case dead: False
      let ?ep = "unlink_slot i ep"
      have shift: "shift_down i (ep_num_peers ep) (ep_peers ep) =
          Inr (shifted i (ep_num_peers ep) (ep_peers ep))"
        using True "1.prems"(1) by (intro shift_down_ok) (simp_all add: wf_endpoint_def)
      have step: "unlink_dead_from i ep ps = unlink_dead_from i ?ep ps"
        using True get dead shift by (simp add: unlink_dead_from.simps [of i ep ps] unlink_slot_def)
      have upd: "?ep\<lparr>ep_peers := a, ep_num_peers := m\<rparr> = ep\<lparr>ep_peers := a, ep_num_peers := m\<rparr>" for a m
        by (simp add: unlink_slot_def)
      have "\<exists>a m. unlink_dead_from i ?ep ps = Inr (?ep\<lparr>ep_peers := a, ep_num_peers := m\<rparr>) \<and>
          wf_endpoint (?ep\<lparr>ep_peers := a, ep_num_peers := m\<rparr>) \<and>
          linked (?ep\<lparr>ep_peers := a, ep_num_peers := m\<rparr>) =
            take i (linked ?ep) @ filter (alive_in ps) (drop i (linked ?ep))"
        using "1.IH"(1) [OF True get(1) refl get(2)] dead shift wf_unlink_slot [OF "1.prems"(1) True]
          "1.prems"(2) True
        by (simp add: unlink_slot_def)
      moreover have "take i (linked ?ep) = take i (linked ep)"
          "drop i (linked ?ep) = drop (Suc i) (linked ep)"
        using True "1.prems"(1) by (simp_all add: linked_unlink_slot)
      moreover have "\<not> alive_in ps (Some k)" using dead by (simp add: alive_in_def)
      ultimately show ?thesis unfolding upd by (simp add: step split)
    qed
  qed
qed

lemma uccn_unlink_dead_peers_ok:
  assumes "wf_endpoint ep" and "wf_peers ps"
  shows "\<exists>a m. uccn_unlink_dead_peers ep ps = Inr (ep\<lparr>ep_peers := a, ep_num_peers := m\<rparr>) \<and>
    wf_endpoint (ep\<lparr>ep_peers := a, ep_num_peers := m\<rparr>) \<and>
    linked (ep\<lparr>ep_peers := a, ep_num_peers := m\<rparr>) = filter (alive_in ps) (linked ep)"
  using unlink_dead_from_ok [OF assms, of 0] by (simp add: uccn_unlink_dead_peers_def)

section \<open>Linking as operations on lists\<close>

text \<open>
  Linking a peer to an endpoint with room appends it to the endpoint's list unless it is there,
  and counts a new link in the peer's books; a full endpoint refuses every peer, also its own.
\<close>

theorem uccn_link_refines:
  assumes "wf_endpoint ep" and "wf_peers ps" and "peer < CONFIG_UCCN_MAX_NUM_PEERS"
  shows "wpf {} (uccn_link ep peer ps) (\<lambda>(ret, ep', ps'). wf_endpoint ep' \<and>
    (if ep_num_peers ep = CONFIG_UCCN_MAX_NUM_PEERS then ret = -1 \<and> linked ep' = linked ep \<and> ps' = ps
     else if Some peer \<in> set (linked ep) then ret = 0 \<and> linked ep' = linked ep \<and> ps' = ps
     else ret = 1 \<and> linked ep' = linked ep @ [Some peer] \<and> ps' = bump_links 1 peer ps))"
proof -
  have "ep_num_peers ep \<le> CONFIG_UCCN_MAX_NUM_PEERS" using assms(1) by (simp add: wf_endpoint_def)
  then consider "ep_num_peers ep = CONFIG_UCCN_MAX_NUM_PEERS"
    | "ep_num_peers ep < CONFIG_UCCN_MAX_NUM_PEERS" "Some peer \<in> set (linked ep)"
    | "ep_num_peers ep < CONFIG_UCCN_MAX_NUM_PEERS" "Some peer \<notin> set (linked ep)"
    using le_neq_implies_less by blast
  then show ?thesis
    by cases (use assms in \<open>simp_all add: uccn_link_full uccn_link_known uccn_link_new linked_link_slot wf_link_slot\<close>)
qed

text \<open>
  Unlinking removes the peer from the endpoint's list, keeps the order of the others, and takes
  the link back in the peer's books; it answers 0 when there was none.
\<close>

lemma uccn_unlink_refines:
  assumes "wf_endpoint ep" and "wf_peers ps" and "peer < CONFIG_UCCN_MAX_NUM_PEERS"
  shows "wpf {} (uccn_unlink ep peer ps) (\<lambda>(ret, ep', ps'). wf_endpoint ep' \<and>
    linked ep' = remove1 (Some peer) (linked ep) \<and>
    (if Some peer \<in> set (linked ep) then ret = 1 \<and> ps' = bump_links (- 1) peer ps else ret = 0 \<and> ps' = ps))"
  using assms uccn_unlink_known [OF assms] uccn_unlink_unknown [OF assms]
  by (cases "Some peer \<in> set (linked ep)") (simp_all add: remove1_idem)

end
