(* ===== verification/Node_Links.thy ===== *)
theory Node_Links
  imports Links
begin

text \<open>
  Linking and unlinking a peer over all trackers or all providers of a node
  (\<open>uccn_link_trackers\<close>, \<open>uccn_link_providers\<close>, \<open>uccn_unlink_trackers\<close>,
  \<open>uccn_unlink_providers\<close> of \<open>src/uccn.c\<close>). The two pairs of functions have the same body over
  a different array; the bodies are \<open>link_endpoints\<close> and \<open>unlink_endpoints\<close>.
\<close>

section \<open>The operations\<close>

definition link_endpoints_body ::
    "('e endpoint_scheme \<Rightarrow> bool) \<Rightarrow> nat \<Rightarrow> nat \<Rightarrow> int \<times> 'e endpoint_scheme list \<times> peer list \<Rightarrow>
     (int \<times> 'e endpoint_scheme list \<times> peer list) ctl result" where
  "link_endpoints_body same_hash peer i = (\<lambda>(num, eps, ps).
     rbind (arr_get eps i) (\<lambda>ep.
     if same_hash ep then
       rbind (uccn_link ep peer ps) (\<lambda>(ret, ep', ps').
       if ret < 0 then Inr (Break (ret, eps[i := ep'], ps'))
       else Inr (Continue (num + ret, eps[i := ep'], ps')))
     else Inr (Continue (num, eps, ps))))"

definition link_endpoints ::
    "('e endpoint_scheme \<Rightarrow> bool) \<Rightarrow> nat \<Rightarrow> nat \<Rightarrow> 'e endpoint_scheme list \<Rightarrow> peer list \<Rightarrow>
     (int \<times> 'e endpoint_scheme list \<times> peer list) result" where
  "link_endpoints same_hash peer n eps ps =
     for_loop (link_endpoints_body same_hash peer) 0 n (0, eps, ps)"

definition unlink_endpoints_body ::
    "nat \<Rightarrow> nat \<Rightarrow> int \<times> 'e endpoint_scheme list \<times> peer list \<Rightarrow>
     (int \<times> 'e endpoint_scheme list \<times> peer list) ctl result" where
  "unlink_endpoints_body peer i = (\<lambda>(num, eps, ps).
     rbind (arr_get eps i) (\<lambda>ep.
     rbind (uccn_unlink ep peer ps) (\<lambda>(ret, ep', ps').
     Inr (Continue (num + ret, eps[i := ep'], ps')))))"

definition unlink_endpoints ::
    "nat \<Rightarrow> nat \<Rightarrow> 'e endpoint_scheme list \<Rightarrow> peer list \<Rightarrow>
     (int \<times> 'e endpoint_scheme list \<times> peer list) result" where
  "unlink_endpoints peer n eps ps = for_loop (unlink_endpoints_body peer) 0 n (0, eps, ps)"

definition uccn_link_trackers :: "nat \<Rightarrow> u32 \<Rightarrow> 'c sys \<Rightarrow> (int \<times> 'c sys) result" where
  "uccn_link_trackers peer hash s =
     rbind (link_endpoints (\<lambda>ep. res_hash (resource_of s ep) = hash) peer
              (num_trackers s) (trackers s) (peers s))
       (\<lambda>(ret, eps, ps). Inr (ret, s\<lparr>trackers := eps, peers := ps\<rparr>))"

definition uccn_link_providers :: "nat \<Rightarrow> u32 \<Rightarrow> 'c sys \<Rightarrow> (int \<times> 'c sys) result" where
  "uccn_link_providers peer hash s =
     rbind (link_endpoints (\<lambda>ep. res_hash (resource_of s ep) = hash) peer
              (num_providers s) (providers s) (peers s))
       (\<lambda>(ret, eps, ps). Inr (ret, s\<lparr>providers := eps, peers := ps\<rparr>))"

definition uccn_unlink_providers :: "nat \<Rightarrow> 'c sys \<Rightarrow> (int \<times> 'c sys) result" where
  "uccn_unlink_providers peer s =
     rbind (unlink_endpoints peer (num_providers s) (providers s) (peers s))
       (\<lambda>(ret, eps, ps). Inr (ret, s\<lparr>providers := eps, peers := ps\<rparr>))"

definition uccn_unlink_trackers :: "nat \<Rightarrow> 'c sys \<Rightarrow> (int \<times> 'c sys) result" where
  "uccn_unlink_trackers peer s =
     rbind (unlink_endpoints peer (num_trackers s) (trackers s) (peers s))
       (\<lambda>(ret, eps, ps). Inr (ret, s\<lparr>trackers := eps, peers := ps\<rparr>))"

section \<open>Arrays of endpoints\<close>

definition wf_endpoints :: "nat \<Rightarrow> 'e endpoint_scheme list \<Rightarrow> bool" where
  "wf_endpoints n eps \<longleftrightarrow> n \<le> length eps \<and> (\<forall>i<n. wf_endpoint (eps ! i)) \<and>
     (\<forall>i<length eps. length (ep_peers (eps ! i)) = CONFIG_UCCN_MAX_NUM_PEERS)"

lemma bump_bump [simp]:
  "bump_links a k (bump_links b k ps) = bump_links (a + b) k ps"
  by (cases "k < length ps") (simp_all add: bump_links_def algebra_simps list_update_beyond)

lemma bump_Suc: "bump_links (- 1 - x) k ps = bump_links (- x - 1) k ps"
  by (simp add: minus_diff_commute)

lemma bump_0 [simp]: "bump_links 0 k ps = ps"
  by (simp add: bump_links_def)

definition needs_link :: "('e endpoint_scheme \<Rightarrow> bool) \<Rightarrow> nat \<Rightarrow> 'e endpoint_scheme \<Rightarrow> bool" where
  "needs_link same_hash peer ep \<longleftrightarrow> same_hash ep \<and> Some peer \<notin> set (linked ep)"

definition is_full :: "'e endpoint_scheme \<Rightarrow> bool" where
  "is_full ep \<longleftrightarrow> ep_num_peers ep \<ge> CONFIG_UCCN_MAX_NUM_PEERS"

text \<open>The first \<open>j\<close> endpoints after linking, and the links this made.\<close>

definition link_first :: "('e endpoint_scheme \<Rightarrow> bool) \<Rightarrow> nat \<Rightarrow> nat \<Rightarrow> 'e endpoint_scheme list \<Rightarrow>
    'e endpoint_scheme list" where
  "link_first m peer j eps =
     map (\<lambda>ep. if needs_link m peer ep then link_slot peer ep else ep) (take j eps) @ drop j eps"

definition new_links :: "('e endpoint_scheme \<Rightarrow> bool) \<Rightarrow> nat \<Rightarrow> 'e endpoint_scheme list \<Rightarrow> nat" where
  "new_links m peer eps = length (filter (needs_link m peer) eps)"

lemma length_link_first [simp]: "length (link_first m peer j eps) = length eps"
  by (simp add: link_first_def)

lemma link_first_nth:
  "i < length eps \<Longrightarrow> link_first m peer j eps ! i =
   (if i < j \<and> needs_link m peer (eps ! i) then link_slot peer (eps ! i) else eps ! i)"
  by (simp add: link_first_def nth_append min_def)

lemma link_first_Suc:
  "j < length eps \<Longrightarrow> link_first m peer (Suc j) eps =
   (link_first m peer j eps)[j := (if needs_link m peer (eps ! j) then link_slot peer (eps ! j) else eps ! j)]"
  by (rule nth_equalityI) (auto simp: link_first_nth nth_list_update less_Suc_eq)

lemma link_endpoints_loop:
  assumes "wf_endpoints n eps" and "wf_peers ps" and "peer < CONFIG_UCCN_MAX_NUM_PEERS"
  shows "\<exists>r. link_endpoints m peer n eps ps = Inr r \<and>
    (r = (int (new_links m peer (take n eps)), link_first m peer n eps,
          bump_links (word_of_nat (new_links m peer (take n eps))) peer ps) \<and>
       (\<forall>i<n. m (eps ! i) \<longrightarrow> \<not> is_full (eps ! i)) \<or>
     (\<exists>j<n. m (eps ! j) \<and> is_full (eps ! j) \<and> (\<forall>i<j. m (eps ! i) \<longrightarrow> \<not> is_full (eps ! i)) \<and>
       r = (- 1, link_first m peer j eps,
            bump_links (word_of_nat (new_links m peer (take j eps))) peer ps)))"
proof -
  let ?st = "\<lambda>j. (int (new_links m peer (take j eps)), link_first m peer j eps,
      bump_links (word_of_nat (new_links m peer (take j eps))) peer ps)"
  let ?P = "\<lambda>j r. r = ?st j \<and> (\<forall>i<j. m (eps ! i) \<longrightarrow> \<not> is_full (eps ! i))"
  let ?Q = "\<lambda>r. \<exists>j<n. m (eps ! j) \<and> is_full (eps ! j) \<and> (\<forall>i<j. m (eps ! i) \<longrightarrow> \<not> is_full (eps ! i)) \<and>
      r = (- 1, link_first m peer j eps, bump_links (word_of_nat (new_links m peer (take j eps))) peer ps)"
  have "\<exists>r. for_loop (link_endpoints_body m peer) 0 n (0, eps, ps) = Inr r \<and> (?P n r \<or> ?Q r)"
  proof (rule for_loop_rule)
    show "?P 0 (0, eps, ps)" by (simp add: new_links_def link_first_def)
  next
    fix j r assume j: "j < n" and P: "?P j r"
    have ep: "j < length eps" "wf_endpoint (eps ! j)" using assms(1) j by (simp_all add: wf_endpoints_def)
    have get: "arr_get (link_first m peer j eps) j = Inr (eps ! j)"
      using ep by (simp add: link_first_nth)
    have keep: "(link_first m peer j eps)[j := eps ! j] = link_first m peer j eps"
      using ep by (metis link_first_nth list_update_id less_irrefl)
    have wf: "wf_peers (bump_links d peer ps)" for d using assms(2) by simp
    show "(\<exists>t'. link_endpoints_body m peer j r = Inr (Continue t') \<and> ?P (Suc j) t') \<or>
        (\<exists>t'. link_endpoints_body m peer j r = Inr (Break t') \<and> ?Q t')"
    proof (cases "m (eps ! j)")
      case False
      then show ?thesis using P ep get
        by (auto simp: link_endpoints_body_def link_first_Suc needs_link_def keep new_links_def
            take_Suc_conv_app_nth less_Suc_eq)
    next
      case same: True
      show ?thesis
      proof (cases "is_full (eps ! j)")
        case True
        then have "uccn_link (eps ! j) peer ps' = Inr (-1, eps ! j, ps')" for ps'
          by (simp add: is_full_def uccn_link_full)
        then have "link_endpoints_body m peer j r = Inr (Break (- 1, link_first m peer j eps,
            bump_links (word_of_nat (new_links m peer (take j eps))) peer ps))"
          using P get same by (simp add: link_endpoints_body_def keep)
        then show ?thesis using P j same True by blast
      next
        case False
        then have room: "ep_num_peers (eps ! j) < CONFIG_UCCN_MAX_NUM_PEERS" by (simp add: is_full_def)
        show ?thesis
        proof (cases "Some peer \<in> set (linked (eps ! j))")
          case True
          then show ?thesis using P ep get same False uccn_link_known [OF ep(2) room True]
            by (auto simp: link_endpoints_body_def link_first_Suc needs_link_def keep new_links_def
                take_Suc_conv_app_nth less_Suc_eq)
        next
          case new: False
          then show ?thesis
            using P ep get same False uccn_link_new [OF ep(2) wf room assms(3) new]
            by (auto simp: link_endpoints_body_def link_first_Suc needs_link_def new_links_def
                take_Suc_conv_app_nth less_Suc_eq algebra_simps)
        qed
      qed
    qed
  qed simp
  then show ?thesis by (auto simp: link_endpoints_def)
qed

text \<open>Unlinking a peer from every endpoint never stops early.\<close>

definition has_link :: "nat \<Rightarrow> 'e endpoint_scheme \<Rightarrow> bool" where
  "has_link peer ep \<longleftrightarrow> Some peer \<in> set (linked ep)"

definition unlink_all :: "nat \<Rightarrow> nat \<Rightarrow> 'e endpoint_scheme list \<Rightarrow> 'e endpoint_scheme list" where
  "unlink_all peer j eps =
     map (\<lambda>ep. if has_link peer ep then unlink_first peer ep else ep) (take j eps) @ drop j eps"

definition count_links :: "nat \<Rightarrow> 'e endpoint_scheme list \<Rightarrow> nat" where
  "count_links peer eps = length (filter (has_link peer) eps)"

lemma length_unlink_all [simp]: "length (unlink_all peer j eps) = length eps"
  by (simp add: unlink_all_def)

lemma unlink_all_nth:
  "i < length eps \<Longrightarrow> unlink_all peer j eps ! i =
   (if i < j \<and> has_link peer (eps ! i) then unlink_first peer (eps ! i) else eps ! i)"
  by (simp add: unlink_all_def nth_append min_def)

lemma unlink_all_Suc:
  "j < length eps \<Longrightarrow> unlink_all peer (Suc j) eps =
   (unlink_all peer j eps)[j := (if has_link peer (eps ! j) then unlink_first peer (eps ! j) else eps ! j)]"
  by (rule nth_equalityI) (auto simp: unlink_all_nth nth_list_update less_Suc_eq)

lemma unlink_endpoints_ok:
  assumes "wf_endpoints n eps" and "wf_peers ps" and "peer < CONFIG_UCCN_MAX_NUM_PEERS"
  shows "unlink_endpoints peer n eps ps =
    Inr (int (count_links peer (take n eps)), unlink_all peer n eps,
         bump_links (- word_of_nat (count_links peer (take n eps))) peer ps)"
proof -
  let ?P = "\<lambda>j r. r = (int (count_links peer (take j eps)), unlink_all peer j eps,
      bump_links (- word_of_nat (count_links peer (take j eps))) peer ps)"
  have "\<exists>r. for_loop (unlink_endpoints_body peer) 0 n (0, eps, ps) = Inr r \<and> (?P n r \<or> False)"
  proof (rule for_loop_rule)
    show "?P 0 (0, eps, ps)" by (simp add: count_links_def unlink_all_def)
  next
    fix j r assume j: "j < n" and P: "?P j r"
    have ep: "j < length eps" "wf_endpoint (eps ! j)" using assms(1) j by (simp_all add: wf_endpoints_def)
    have get: "arr_get (unlink_all peer j eps) j = Inr (eps ! j)"
      using ep by (simp add: unlink_all_nth)
    have keep: "(unlink_all peer j eps)[j := eps ! j] = unlink_all peer j eps"
      using ep by (metis unlink_all_nth list_update_id less_irrefl)
    have wf: "wf_peers (bump_links d peer ps)" for d using assms(2) by simp
    show "(\<exists>t'. unlink_endpoints_body peer j r = Inr (Continue t') \<and> ?P (Suc j) t') \<or>
        (\<exists>t'. unlink_endpoints_body peer j r = Inr (Break t') \<and> False)"
    proof (cases "has_link peer (eps ! j)")
      case True
      then show ?thesis using P ep get uccn_unlink_known(1) [OF ep(2) wf assms(3)]
        by (auto simp: unlink_endpoints_body_def unlink_all_Suc has_link_def count_links_def
            take_Suc_conv_app_nth bump_Suc)
    next
      case False
      then show ?thesis using P ep get uccn_unlink_unknown [OF ep(2) wf assms(3)]
        by (auto simp: unlink_endpoints_body_def unlink_all_Suc has_link_def count_links_def
            take_Suc_conv_app_nth keep)
    qed
  qed simp
  then show ?thesis by (auto simp: unlink_endpoints_def)
qed

section \<open>Well-formedness is kept\<close>

lemma wf_endpoints_changed:
  assumes "wf_endpoints n eps" and "length eps' = length eps"
    and "\<And>i. i < length eps \<Longrightarrow> eps' ! i = eps ! i \<or> i < n \<and> wf_endpoint (eps' ! i)"
  shows "wf_endpoints n eps'"
proof -
  have "wf_endpoint (eps' ! i)" if "i < n" for i
    using that assms(1) assms(3) [of i] by (auto simp: wf_endpoints_def)
  moreover have "length (ep_peers (eps' ! i)) = CONFIG_UCCN_MAX_NUM_PEERS" if "i < length eps" for i
    using assms(1) assms(3) [OF that] that by (auto simp: wf_endpoints_def wf_endpoint_def)
  ultimately show ?thesis using assms(1,2) by (simp add: wf_endpoints_def)
qed

lemma wf_endpoints_set:
  assumes "wf_endpoints n eps" and "i < n" and "wf_endpoint ep"
  shows "wf_endpoints n (eps[i := ep])"
proof (rule wf_endpoints_changed [OF assms(1)])
  have i: "i < length eps" using assms(1,2) by (simp add: wf_endpoints_def)
  show "eps[i := ep] ! j = eps ! j \<or> j < n \<and> wf_endpoint (eps[i := ep] ! j)" for j
    using assms(2,3) i by (cases "j = i") simp_all
qed simp

lemma wf_link_first:
  assumes "wf_endpoints n eps" and "peer < CONFIG_UCCN_MAX_NUM_PEERS" and "j \<le> n"
    and "\<forall>i<j. m (eps ! i) \<longrightarrow> \<not> is_full (eps ! i)"
  shows "wf_endpoints n (link_first m peer j eps)"
proof (rule wf_endpoints_changed [OF assms(1) length_link_first])
  fix i assume i: "i < length eps"
  show "link_first m peer j eps ! i = eps ! i \<or> i < n \<and> wf_endpoint (link_first m peer j eps ! i)"
    using assms i
    by (auto simp: wf_endpoints_def link_first_nth needs_link_def is_full_def intro!: wf_link_slot)
qed

lemma wf_unlink_all:
  assumes "wf_endpoints n eps" and "peer < CONFIG_UCCN_MAX_NUM_PEERS"
  shows "wf_endpoints n (unlink_all peer n eps)"
proof (rule wf_endpoints_changed [OF assms(1) length_unlink_all])
  fix i assume i: "i < length eps"
  show "unlink_all peer n eps ! i = eps ! i \<or> i < n \<and> wf_endpoint (unlink_all peer n eps ! i)"
    using assms i uccn_unlink_known(2) [of "eps ! i" "replicate CONFIG_UCCN_MAX_NUM_PEERS undefined" peer]
    by (auto simp: wf_endpoints_def unlink_all_nth has_link_def wf_peers_def)
qed

section \<open>Links that are made and removed\<close>

lemma has_link_link_slot:
  "wf_endpoint ep \<Longrightarrow> \<not> is_full ep \<Longrightarrow> has_link k (link_slot peer ep) \<longleftrightarrow> k = peer \<or> has_link k ep"
  by (auto simp: has_link_def is_full_def linked_link_slot)

lemma linked_unlink_first:
  "wf_endpoint ep \<Longrightarrow> peer < CONFIG_UCCN_MAX_NUM_PEERS \<Longrightarrow> has_link peer ep \<Longrightarrow>
   linked (unlink_first peer ep) = remove1 (Some peer) (linked ep)"
  using uccn_unlink_known(3) [of ep "replicate CONFIG_UCCN_MAX_NUM_PEERS undefined" peer]
  by (simp add: has_link_def wf_peers_def)

lemma has_link_unlink_first:
  assumes "wf_endpoint ep" and "peer < CONFIG_UCCN_MAX_NUM_PEERS" and "has_link peer ep"
  shows "has_link k (unlink_first peer ep) \<longleftrightarrow> k \<noteq> peer \<and> has_link k ep"
proof -
  have "distinct (linked ep)" using assms(1) by (simp add: wf_endpoint_def)
  then show ?thesis using linked_unlink_first [OF assms] by (auto simp: has_link_def)
qed

lemma has_link_link_first:
  assumes "wf_endpoints n eps" and "i < n" and "m (eps ! i) \<longrightarrow> \<not> is_full (eps ! i)"
  shows "has_link k (link_first m peer n eps ! i) \<longleftrightarrow> k = peer \<and> m (eps ! i) \<or> has_link k (eps ! i)"
  using assms has_link_link_slot [of "eps ! i" k peer]
  by (auto simp: wf_endpoints_def link_first_nth needs_link_def has_link_def)

lemma has_link_unlink_all:
  assumes "wf_endpoints n eps" and "peer < CONFIG_UCCN_MAX_NUM_PEERS" and "i < n"
  shows "has_link k (unlink_all peer n eps ! i) \<longleftrightarrow> k \<noteq> peer \<and> has_link k (eps ! i)"
  using assms has_link_unlink_first [of "eps ! i" peer k]
  by (auto simp: wf_endpoints_def unlink_all_nth)

end
