(* ===== verification/Node_Inv.thy ===== *)
theory Node_Inv
  imports Node_Links
begin

text \<open>
  The invariant of a node's memory, the accounting of links, and what linking and unlinking a
  peer over all trackers or providers does to them.
\<close>

section \<open>Well-formed nodes\<close>

definition wf_buffer :: "nat \<Rightarrow> buffer \<Rightarrow> bool" where
  "wf_buffer sz b \<longleftrightarrow> length (b_data b) = sz \<and> b_length b \<le> sz"

definition wf_names :: "peer list \<Rightarrow> bool" where
  "wf_names ps \<longleftrightarrow> (\<forall>p \<in> set ps. length (p_name p) = CONFIG_UCCN_MAX_NODE_NAME_SIZE)"

definition wf_node :: "'c sys \<Rightarrow> bool" where
  "wf_node s \<longleftrightarrow>
     wf_buffer CONFIG_UCCN_INCOMING_BUFFER_SIZE (incoming_buffer s) \<and>
     wf_buffer CONFIG_UCCN_OUTGOING_BUFFER_SIZE (outgoing_buffer s) \<and>
     length (node_name s) = CONFIG_UCCN_MAX_NODE_NAME_SIZE \<and> 0 \<in> set (node_name s) \<and>
     wf_peers (peers s) \<and> wf_names (peers s) \<and> num_peers s \<le> CONFIG_UCCN_MAX_NUM_PEERS \<and>
     length (trackers s) = CONFIG_UCCN_MAX_NUM_TRACKERS \<and> wf_endpoints (num_trackers s) (trackers s) \<and>
     length (providers s) = CONFIG_UCCN_MAX_NUM_PROVIDERS \<and> wf_endpoints (num_providers s) (providers s)"

lemma wf_nodeD:
  assumes "wf_node s"
  shows "wf_peers (peers s)" "wf_names (peers s)" "num_peers s \<le> CONFIG_UCCN_MAX_NUM_PEERS"
    "wf_endpoints (num_trackers s) (trackers s)" "wf_endpoints (num_providers s) (providers s)"
    "length (trackers s) = CONFIG_UCCN_MAX_NUM_TRACKERS"
    "length (providers s) = CONFIG_UCCN_MAX_NUM_PROVIDERS"
    "length (node_name s) = CONFIG_UCCN_MAX_NODE_NAME_SIZE" "0 \<in> set (node_name s)"
    "wf_buffer CONFIG_UCCN_INCOMING_BUFFER_SIZE (incoming_buffer s)"
    "wf_buffer CONFIG_UCCN_OUTGOING_BUFFER_SIZE (outgoing_buffer s)"
  using assms by (simp_all add: wf_node_def)

lemma wf_node_counts:
  "wf_node s \<Longrightarrow> num_trackers s \<le> CONFIG_UCCN_MAX_NUM_TRACKERS"
  "wf_node s \<Longrightarrow> num_providers s \<le> CONFIG_UCCN_MAX_NUM_PROVIDERS"
  by (auto simp: wf_node_def wf_endpoints_def)

lemma wf_names_update:
  "wf_names ps \<Longrightarrow> length (p_name p) = CONFIG_UCCN_MAX_NODE_NAME_SIZE \<Longrightarrow> wf_names (ps[k := p])"
  using set_update_subset_insert [of ps k p] by (auto simp: wf_names_def)

lemma wf_names_nth: "wf_names ps \<Longrightarrow> k < length ps \<Longrightarrow> length (p_name (ps ! k)) = CONFIG_UCCN_MAX_NODE_NAME_SIZE"
  by (simp add: wf_names_def)

lemma wf_names_bump: "wf_names ps \<Longrightarrow> wf_names (bump_links d k ps)"
  by (cases "k < length ps") (simp_all add: bump_links_def wf_names_update wf_names_nth list_update_beyond)

section \<open>The accounting of links\<close>

text \<open>
  \<open>num_links\<close> of a registered peer is the number of endpoints that hold a pointer to it, and no
  endpoint holds a pointer to a slot that no peer is registered in.
\<close>

definition links_of :: "nat \<Rightarrow> 'c sys \<Rightarrow> nat" where
  "links_of k s = count_links k (take (num_trackers s) (trackers s)) +
     count_links k (take (num_providers s) (providers s))"

definition accounted :: "'c sys \<Rightarrow> bool" where
  "accounted s \<longleftrightarrow> (\<forall>k < num_peers s. num_links (peers s ! k) = word_of_nat (links_of k s)) \<and>
     (\<forall>k \<ge> num_peers s. links_of k s = 0)"

lemma count_links_le: "count_links k xs \<le> length xs"
  by (simp add: count_links_def)

lemma links_of_bound:
  assumes "wf_node s"
  shows "links_of k s \<le> 20"
  using wf_node_counts [OF assms] count_links_le [of k "take (num_trackers s) (trackers s)"]
    count_links_le [of k "take (num_providers s) (providers s)"]
  by (simp add: links_of_def config_simps)

lemma accounted_unat:
  assumes "wf_node s" and "accounted s" and "k < num_peers s"
  shows "unat (num_links (peers s ! k)) = links_of k s"
  using assms links_of_bound [OF assms(1), of k] by (simp add: accounted_def unat_of_nat)

lemma num_links_bump:
  "k < length ps \<Longrightarrow> num_links (bump_links d peer ps ! k) = num_links (ps ! k) + (if k = peer then d else 0)"
  by (auto simp: bump_links_def nth_list_update)

lemma filter_more:
  "\<forall>x \<in> set xs. P (f x) = (P x \<or> Q x) \<and> \<not> (P x \<and> Q x) \<Longrightarrow>
   length (filter P (map f xs)) = length (filter P xs) + length (filter Q xs)"
  by (induction xs) auto

lemma count_links_link_first:
  assumes "wf_endpoints n eps" and "j \<le> n" and "\<forall>i<j. m (eps ! i) \<longrightarrow> \<not> is_full (eps ! i)"
  shows "count_links k (take n (link_first m peer j eps)) =
    count_links k (take n eps) + (if k = peer then new_links m peer (take j eps) else 0)"
proof -
  let ?f = "\<lambda>ep. if needs_link m peer ep then link_slot peer ep else ep"
  let ?Q = "\<lambda>ep. k = peer \<and> needs_link m peer ep"
  have len: "j \<le> length eps" "n \<le> length eps" using assms(1,2) by (simp_all add: wf_endpoints_def)
  have split: "take n eps = take j eps @ take (n - j) (drop j eps)"
    using assms(2) by (metis append_take_drop_id le_add_diff_inverse take_add)
  have "take n (link_first m peer j eps) = map ?f (take j eps) @ take (n - j) (drop j eps)"
    using assms(2) len by (simp add: link_first_def)
  moreover have "length (filter (has_link k) (map ?f (take j eps))) =
      length (filter (has_link k) (take j eps)) + length (filter ?Q (take j eps))"
  proof (rule filter_more, rule ballI)
    fix ep assume "ep \<in> set (take j eps)"
    then obtain i where i: "i < j" "ep = eps ! i" using len by (auto simp: in_set_conv_nth)
    then have "wf_endpoint ep" "m ep \<longrightarrow> \<not> is_full ep" using assms by (auto simp: wf_endpoints_def)
    then show "has_link k (?f ep) = (has_link k ep \<or> ?Q ep) \<and> \<not> (has_link k ep \<and> ?Q ep)"
      using has_link_link_slot [of ep k peer] by (auto simp: needs_link_def has_link_def)
  qed
  moreover have "length (filter ?Q (take j eps)) = (if k = peer then new_links m peer (take j eps) else 0)"
    by (simp add: new_links_def)
  ultimately show ?thesis by (simp add: count_links_def split)
qed

lemma count_links_unlink_all:
  assumes "wf_endpoints n eps" and "peer < CONFIG_UCCN_MAX_NUM_PEERS"
  shows "count_links k (take n (unlink_all peer n eps)) = (if k = peer then 0 else count_links k (take n eps))"
proof -
  let ?f = "\<lambda>ep. if has_link peer ep then unlink_first peer ep else ep"
  have same: "has_link k (?f ep) \<longleftrightarrow> k \<noteq> peer \<and> has_link k ep" if "ep \<in> set (take n eps)" for ep
  proof -
    obtain i where "i < n" "ep = eps ! i" using \<open>ep \<in> set (take n eps)\<close> by (auto simp: in_set_conv_nth)
    then have "wf_endpoint ep" using assms(1) by (simp add: wf_endpoints_def)
    then show ?thesis using has_link_unlink_first [OF _ assms(2)] by auto
  qed
  have "filter (has_link k) (map ?f xs) = map ?f (filter (\<lambda>ep. k \<noteq> peer \<and> has_link k ep) xs)"
    if "set xs \<subseteq> set (take n eps)" for xs
    using that by (induction xs) (auto simp: same)
  then have "length (filter (has_link k) (map ?f (take n eps))) =
      length (filter (\<lambda>ep. k \<noteq> peer \<and> has_link k ep) (take n eps))" by simp
  then show ?thesis using assms(1)
    by (simp add: count_links_def unlink_all_def wf_endpoints_def)
qed

section \<open>What linking leaves alone\<close>

text \<open>
  Linking changes who is linked and the peers' books; it moves no endpoint, registers nothing,
  and keeps the peers' addresses.
\<close>

definition same_endpoints :: "'e endpoint_scheme list \<Rightarrow> 'e endpoint_scheme list \<Rightarrow> bool" where
  "same_endpoints eps eps' \<longleftrightarrow> map ep_resource eps' = map ep_resource eps \<and>
     map endpoint.more eps' = map endpoint.more eps"

definition links_only :: "'c sys \<Rightarrow> 'c sys \<Rightarrow> bool" where
  "links_only s s' \<longleftrightarrow>
     s' = s\<lparr>trackers := trackers s', providers := providers s', peers := peers s'\<rparr> \<and>
     same_endpoints (trackers s) (trackers s') \<and> same_endpoints (providers s) (providers s') \<and>
     map p_address (peers s') = map p_address (peers s)"

lemma same_endpoints_refl [simp]: "same_endpoints eps eps"
  by (simp add: same_endpoints_def)

lemma links_only_refl [simp]: "links_only s s"
  by (simp add: links_only_def)

lemma links_only_trans:
  assumes "links_only s s'" and "links_only s' s''"
  shows "links_only s s''"
proof -
  note a = assms(1) [unfolded links_only_def] and b = assms(2) [unfolded links_only_def]
  have "s'' = (s\<lparr>trackers := trackers s', providers := providers s', peers := peers s'\<rparr>)
      \<lparr>trackers := trackers s'', providers := providers s'', peers := peers s''\<rparr>"
    using conjunct1 [OF a] conjunct1 [OF b] by simp
  then have "s'' = s\<lparr>trackers := trackers s'', providers := providers s'', peers := peers s''\<rparr>" by simp
  then show ?thesis unfolding links_only_def same_endpoints_def
    using conjunct2 [OF a] conjunct2 [OF b] by (simp add: same_endpoints_def)
qed

lemma links_only_fields:
  assumes "links_only s s'"
  shows "num_peers s' = num_peers s" "num_trackers s' = num_trackers s" "num_providers s' = num_providers s"
    "resources s' = resources s" "mutex_locked s' = mutex_locked s" "trace s' = trace s"
    "node_name s' = node_name s" "outgoing_buffer s' = outgoing_buffer s"
    "incoming_buffer s' = incoming_buffer s" "socket s' = socket s"
    "length (trackers s') = length (trackers s)" "length (providers s') = length (providers s)"
    "length (peers s') = length (peers s)"
proof -
  obtain ts prs ps where "s' = s\<lparr>trackers := ts, providers := prs, peers := ps\<rparr>"
    using assms unfolding links_only_def by blast
  then show "num_peers s' = num_peers s" "num_trackers s' = num_trackers s" "num_providers s' = num_providers s"
    "resources s' = resources s" "mutex_locked s' = mutex_locked s" "trace s' = trace s"
    "node_name s' = node_name s" "outgoing_buffer s' = outgoing_buffer s"
    "incoming_buffer s' = incoming_buffer s" "socket s' = socket s"
    by simp_all
  show "length (trackers s') = length (trackers s)" "length (providers s') = length (providers s)"
    "length (peers s') = length (peers s)"
    using assms by (auto simp: links_only_def same_endpoints_def dest: map_eq_imp_length_eq)
qed

lemma same_link_first [simp]: "same_endpoints eps (link_first m peer j eps)"
  by (auto simp: same_endpoints_def link_first_nth link_slot_def intro!: nth_equalityI)

lemma same_unlink_all [simp]: "same_endpoints eps (unlink_all peer j eps)"
  by (auto simp: same_endpoints_def unlink_all_nth unlink_first_def unlink_slot_def intro!: nth_equalityI)

lemma addresses_bump [simp]: "map p_address (bump_links d k ps) = map p_address ps"
  by (cases "k < length ps")
    (auto simp: bump_links_def list_update_beyond nth_list_update intro!: nth_equalityI)

lemma links_only_endpoints:
  "links_only s t \<Longrightarrow> same_endpoints (trackers s) (trackers t) \<and> same_endpoints (providers s) (providers t)"
  by (simp add: links_only_def)

lemma links_only_store:
  "same_endpoints (trackers s) e \<Longrightarrow> map p_address ps = map p_address (peers s) \<Longrightarrow>
   links_only s (s\<lparr>trackers := e, peers := ps\<rparr>)"
  "same_endpoints (providers s) e' \<Longrightarrow> map p_address ps = map p_address (peers s) \<Longrightarrow>
   links_only s (s\<lparr>providers := e', peers := ps\<rparr>)"
  by (simp_all add: links_only_def)

lemma same_endpoints_nth:
  "same_endpoints eps eps' \<Longrightarrow> i < length eps \<Longrightarrow>
   ep_resource (eps' ! i) = ep_resource (eps ! i) \<and> endpoint.more (eps' ! i) = endpoint.more (eps ! i)"
  unfolding same_endpoints_def by (metis length_map nth_map)

section \<open>Linking and unlinking over a node\<close>

definition has_hash :: "'c sys \<Rightarrow> u32 \<Rightarrow> 'e endpoint_scheme \<Rightarrow> bool" where
  "has_hash s hash ep \<longleftrightarrow> res_hash (resource_of s ep) = hash"

text \<open>
  The two arrays of endpoints of a node have one contract: an array that linking and unlinking
  run over and store back, next to the links of the other array.
\<close>

locale endpoint_array =
  fixes num :: "'c sys \<Rightarrow> nat"
    and eps :: "'c sys \<Rightarrow> 'e endpoint_scheme list"
    and store :: "'e endpoint_scheme list \<Rightarrow> peer list \<Rightarrow> 'c sys \<Rightarrow> 'c sys"
    and link :: "nat \<Rightarrow> u32 \<Rightarrow> 'c sys \<Rightarrow> (int \<times> 'c sys) result"
    and unlink :: "nat \<Rightarrow> 'c sys \<Rightarrow> (int \<times> 'c sys) result"
    and other_links :: "nat \<Rightarrow> 'c sys \<Rightarrow> nat"
  assumes link_runs: "link peer hash s =
      rbind (link_endpoints (has_hash s hash) peer (num s) (eps s) (peers s))
        (\<lambda>(ret, e, ps). Inr (ret, store e ps s))"
    and unlink_runs: "unlink peer s =
      rbind (unlink_endpoints peer (num s) (eps s) (peers s)) (\<lambda>(ret, e, ps). Inr (ret, store e ps s))"
    and wf_eps: "wf_node s \<Longrightarrow> wf_endpoints (num s) (eps s)"
    and wf_store: "wf_node s \<Longrightarrow> wf_peers ps \<Longrightarrow> wf_names ps \<Longrightarrow> length e = length (eps s) \<Longrightarrow>
      wf_endpoints (num s) e \<Longrightarrow> wf_node (store e ps s)"
    and eps_store: "eps (store e ps s) = e"
    and num_store: "num (store e ps s) = num s"
    and peers_store: "peers (store e ps s) = ps"
    and num_peers_store: "num_peers (store e ps s) = num_peers s"
    and store_links_only: "same_endpoints (eps s) e \<Longrightarrow> map p_address ps = map p_address (peers s) \<Longrightarrow>
      links_only s (store e ps s)"
    and eps_links_only: "links_only s t \<Longrightarrow> same_endpoints (eps s) (eps t) \<and> num t = num s"
    and eps_peers: "eps (s\<lparr>peers := ps\<rparr>) = eps s"
    and links_split: "links_of k s = count_links k (take (num s) (eps s)) + other_links k s"
    and other_store: "other_links k (store e ps s) = other_links k s"
begin

lemma link_ok:
  assumes "wf_node s" and "peer < CONFIG_UCCN_MAX_NUM_PEERS"
  shows "\<exists>ret j. link peer hash s = Inr (ret,
      store (link_first (has_hash s hash) peer j (eps s))
        (bump_links (word_of_nat (new_links (has_hash s hash) peer (take j (eps s)))) peer (peers s)) s) \<and>
    j \<le> num s \<and> (\<forall>i<j. has_hash s hash (eps s ! i) \<longrightarrow> \<not> is_full (eps s ! i)) \<and>
    (ret = int (new_links (has_hash s hash) peer (take j (eps s))) \<and> j = num s \<or>
     ret = - 1 \<and> j < num s \<and> has_hash s hash (eps s ! j) \<and> is_full (eps s ! j))"
  using link_endpoints_loop [OF wf_eps [OF assms(1)] wf_nodeD(1) [OF assms(1)] assms(2), of "has_hash s hash"]
  unfolding link_runs by (elim exE disjE conjE) fastforce+

lemma unlink_ok:
  assumes "wf_node s" and "peer < CONFIG_UCCN_MAX_NUM_PEERS"
  defines "n \<equiv> count_links peer (take (num s) (eps s))"
  shows "unlink peer s = Inr (int n,
    store (unlink_all peer (num s) (eps s)) (bump_links (- word_of_nat n) peer (peers s)) s)"
  using unlink_endpoints_ok [OF wf_eps [OF assms(1)] wf_nodeD(1) [OF assms(1)] assms(2)]
  by (simp add: unlink_runs n_def)

lemma wf_linked:
  assumes "wf_node s" and "peer < CONFIG_UCCN_MAX_NUM_PEERS" and "j \<le> num s"
    and "\<forall>i<j. m (eps s ! i) \<longrightarrow> \<not> is_full (eps s ! i)"
  shows "wf_node (store (link_first m peer j (eps s)) (bump_links d peer (peers s)) s)"
  using assms wf_nodeD(1,2) [OF assms(1)] wf_eps [OF assms(1)]
  by (intro wf_store) (simp_all add: wf_link_first wf_names_bump)

lemma accounted_linked:
  assumes "wf_node s" and "accounted s" and "peer < num_peers s" and "j \<le> num s"
    and "\<forall>i<j. m (eps s ! i) \<longrightarrow> \<not> is_full (eps s ! i)"
  shows "accounted (store (link_first m peer j (eps s))
    (bump_links (word_of_nat (new_links m peer (take j (eps s)))) peer (peers s)) s)"
  using assms wf_nodeD(1,3) [OF assms(1)]
  by (simp add: accounted_def links_split peers_store num_peers_store eps_store num_store other_store
      num_links_bump count_links_link_first [OF wf_eps] wf_peers_def)

text \<open>Whatever linking answers, memory and accounts are in order.\<close>

lemma link_keeps:
  assumes "wf_node s" and "peer < CONFIG_UCCN_MAX_NUM_PEERS"
  shows "wpf {} (link peer hash s) (\<lambda>(ret, s'). wf_node s' \<and> links_only s s' \<and>
    (accounted s \<and> peer < num_peers s \<longrightarrow> accounted s'))"
  using link_ok [OF assms, of hash] wf_linked [OF assms] accounted_linked [OF assms(1), of peer]
  by (auto simp: wpf_total store_links_only)

lemma unlink_keeps:
  assumes "wf_node s" and "peer < CONFIG_UCCN_MAX_NUM_PEERS"
  shows "wpf {} (unlink peer s) (\<lambda>(ret, s'). wf_node s' \<and> links_only s s' \<and>
    (accounted s \<and> peer < num_peers s \<longrightarrow> accounted s'))"
proof -
  let ?n = "count_links peer (take (num s) (eps s))"
  let ?s = "store (unlink_all peer (num s) (eps s)) (bump_links (- word_of_nat ?n) peer (peers s)) s"
  have "wf_node ?s"
    using assms wf_nodeD(1,2) [OF assms(1)] wf_eps [OF assms(1)]
    by (intro wf_store) (simp_all add: wf_unlink_all wf_names_bump)
  moreover have "accounted ?s" if "accounted s" and "peer < num_peers s"
    using that assms wf_nodeD(1,3) [OF assms(1)]
    by (simp add: accounted_def links_split peers_store num_peers_store eps_store num_store other_store
        num_links_bump
        count_links_unlink_all [OF wf_eps] wf_peers_def)
  ultimately show ?thesis by (simp add: unlink_ok [OF assms] store_links_only)
qed

text \<open>Exactly the endpoints of the hash gain the peer; after unlinking none holds it.\<close>

lemma link_result:
  assumes "wf_node s" and "peer < CONFIG_UCCN_MAX_NUM_PEERS" and "link peer hash s = Inr (ret, s')" and "ret \<ge> 0"
    and "i < num s"
  shows "has_link k (eps s' ! i) \<longleftrightarrow> has_link k (eps s ! i) \<or> k = peer \<and> has_hash s hash (eps s ! i)"
  using link_ok [OF assms(1,2), of hash] assms(3-5) has_link_link_first [OF wf_eps [OF assms(1)], of i]
  by (auto simp: eps_store)

lemma unlink_result:
  assumes "wf_node s" and "peer < CONFIG_UCCN_MAX_NUM_PEERS" and "unlink peer s = Inr (ret, s')"
    and "i < num s"
  shows "has_link k (eps s' ! i) \<longleftrightarrow> k \<noteq> peer \<and> has_link k (eps s ! i)"
  using unlink_ok [OF assms(1,2)] assms(3,4) has_link_unlink_all [OF wf_eps [OF assms(1)] assms(2)]
  by (auto simp: eps_store)

end

interpretation tracker_array: endpoint_array num_trackers trackers
  "\<lambda>e ps s. s\<lparr>trackers := e, peers := ps\<rparr>" uccn_link_trackers uccn_unlink_trackers
  "\<lambda>k s. count_links k (take (num_providers s) (providers s))"
  by unfold_locales
    (simp_all add: links_only_endpoints links_only_fields links_only_store uccn_link_trackers_def uccn_unlink_trackers_def has_hash_def [abs_def] wf_node_def links_of_def)

interpretation provider_array: endpoint_array num_providers providers
  "\<lambda>e ps s. s\<lparr>providers := e, peers := ps\<rparr>" uccn_link_providers uccn_unlink_providers
  "\<lambda>k s. count_links k (take (num_trackers s) (trackers s))"
  by unfold_locales
    (simp_all add: links_only_endpoints links_only_fields links_only_store uccn_link_providers_def uccn_unlink_providers_def has_hash_def [abs_def] wf_node_def links_of_def)

section \<open>The books of a node\<close>

text \<open>
  C16: Linking and unlinking over all trackers or providers keeps the node's memory in order and
  every peer's number of links equal to the number of endpoints that hold it, on every branch.
\<close>

theorem linking_keeps_accounts:
  assumes "wf_node s" and "accounted s" and "peer < num_peers s"
  shows "wpf {} (uccn_link_trackers peer hash s) (\<lambda>(ret, s'). wf_node s' \<and> accounted s') \<and>
    wpf {} (uccn_link_providers peer hash s) (\<lambda>(ret, s'). wf_node s' \<and> accounted s') \<and>
    wpf {} (uccn_unlink_trackers peer s) (\<lambda>(ret, s'). wf_node s' \<and> accounted s') \<and>
    wpf {} (uccn_unlink_providers peer s) (\<lambda>(ret, s'). wf_node s' \<and> accounted s')"
proof -
  have peer: "peer < CONFIG_UCCN_MAX_NUM_PEERS" using assms wf_nodeD(3) [OF assms(1)] by simp
  show ?thesis
    using tracker_array.link_keeps [OF assms(1) peer, of hash] provider_array.link_keeps [OF assms(1) peer, of hash]
      tracker_array.unlink_keeps [OF assms(1) peer] provider_array.unlink_keeps [OF assms(1) peer] assms(2,3)
    by (auto elim!: wpf_conseq)
qed

text \<open>
  C17: When linking answers without an error, exactly the endpoints of the hash have gained the peer;
  after unlinking none holds it, and all other links are as before.
\<close>

theorem linking_is_exact:
  assumes "wf_node s" and "peer < CONFIG_UCCN_MAX_NUM_PEERS" and "i < num_trackers s"
  shows "wpf {} (uccn_link_trackers peer hash s) (\<lambda>(ret, s'). ret \<ge> 0 \<longrightarrow>
      (has_link k (trackers s' ! i) \<longleftrightarrow> has_link k (trackers s ! i) \<or> k = peer \<and> has_hash s hash (trackers s ! i))) \<and>
    wpf {} (uccn_unlink_trackers peer s) (\<lambda>(ret, s').
      has_link k (trackers s' ! i) \<longleftrightarrow> k \<noteq> peer \<and> has_link k (trackers s ! i))"
  using tracker_array.link_keeps [OF assms(1,2), of hash] tracker_array.unlink_keeps [OF assms(1,2)]
    tracker_array.link_result [OF assms(1,2) _ _ assms(3), of hash _ _ k]
    tracker_array.unlink_result [OF assms(1,2) _ assms(3), of _ _ k]
  by (auto simp: wpf_total)

end
