(* ===== verification/Resources.thy ===== *)
theory Resources
  imports Node_Inv
begin

text \<open>
  Resources and records of \<open>src/uccn.c\<close>: \<open>content_passthrough\<close>, \<open>uccn_resource_init\<close>,
  \<open>generic_record_pack\<close>, \<open>generic_record_unpack\<close> and \<open>uccn_record_init\<close>. What a \<open>void *\<close> content
  is when the code casts it to a buffer, and a buffer when it is handed out as content, are the
  parameters \<open>as_buffer\<close> and \<open>of_buffer\<close>. A path is given by its characters before the
  terminating zero.
\<close>

section \<open>The operations\<close>

definition content_passthrough :: "buffer option \<Rightarrow> (int \<times> buffer option) result" where
  "content_passthrough input =
     (case input of None \<Rightarrow> Inl Assert_Failed | Some b \<Rightarrow> Inr (int (b_length b), Some b))"

definition passthrough_pack :: "('c \<Rightarrow> buffer) \<Rightarrow> 'c pack_fn" where
  "passthrough_pack as_buffer content blob =
     rbind (content_passthrough (map_option as_buffer content)) (\<lambda>(ret, out). Inr (ret, blob, out))"

definition passthrough_unpack :: "(buffer \<Rightarrow> 'c) \<Rightarrow> 'c unpack_fn" where
  "passthrough_unpack of_buffer blob content =
     rbind (content_passthrough (Some blob)) (\<lambda>(ret, out). Inr (ret, map_option of_buffer out))"

definition uccn_resource_init ::
    "('c \<Rightarrow> buffer) \<Rightarrow> (buffer \<Rightarrow> 'c) \<Rightarrow> bytes \<Rightarrow> 'c resource" where
  "uccn_resource_init as_buffer of_buffer path =
     \<lparr>res_path = c_strncpy CONFIG_UCCN_MAX_RESOURCE_PATH_SIZE path,
      res_hash = crc32 path,
      res_unpack = passthrough_unpack of_buffer,
      res_pack = passthrough_pack as_buffer\<rparr>"

text \<open>
  \<open>struct uccn_record_typesupport_s\<close>: pointers to functions, any of which may be null. An
  allocation may answer a null pointer.
\<close>

record 'c typesupport =
  ts_allocate :: "(unit \<Rightarrow> 'c option) option"
  ts_serialize :: "('c \<Rightarrow> buffer \<Rightarrow> (int \<times> buffer) result) option"
  ts_deserialize :: "(buffer \<Rightarrow> 'c \<Rightarrow> int \<times> 'c) option"

definition call :: "'f option \<Rightarrow> 'f result" where
  "call f = (case f of None \<Rightarrow> Inl Null_Deref | Some g \<Rightarrow> Inr g)"

lemma call_Some [simp]: "call (Some g) = Inr g"
  by (simp add: call_def)

definition generic_record_pack :: "'c typesupport \<Rightarrow> 'c pack_fn" where
  "generic_record_pack ts content blob =
     (case content of None \<Rightarrow> Inl Assert_Failed
      | Some c \<Rightarrow>
          (case blob of None \<Rightarrow> Inr (-1, None, None)
           | Some b \<Rightarrow> rbind (call (ts_serialize ts)) (\<lambda>serialize.
               rbind (serialize c b) (\<lambda>(ret, b'). Inr (ret, Some b', Some b')))))"

definition generic_record_unpack :: "'c typesupport \<Rightarrow> 'c unpack_fn" where
  "generic_record_unpack ts blob content =
     rbind (case content of
              None \<Rightarrow> rbind (call (ts_allocate ts)) (\<lambda>allocate. Inr (allocate ()))
            | Some c \<Rightarrow> Inr (Some c)) (\<lambda>content.
     case content of None \<Rightarrow> Inr (-1, None)
     | Some c \<Rightarrow> rbind (call (ts_deserialize ts)) (\<lambda>deserialize.
         let (ret, c') = deserialize blob c in Inr (ret, Some c')))"

definition uccn_record_init ::
    "('c \<Rightarrow> buffer) \<Rightarrow> (buffer \<Rightarrow> 'c) \<Rightarrow> bytes \<Rightarrow> 'c typesupport option \<Rightarrow> 'c resource result" where
  "uccn_record_init as_buffer of_buffer path ts =
     (case ts of None \<Rightarrow> Inl Assert_Failed
      | Some ts \<Rightarrow>
          rbind (c_assert (ts_serialize ts \<noteq> None)) (\<lambda>_.
          rbind (c_assert (ts_deserialize ts \<noteq> None)) (\<lambda>_.
          Inr ((uccn_resource_init as_buffer of_buffer path)
            \<lparr>res_pack := generic_record_pack ts, res_unpack := generic_record_unpack ts\<rparr>))))"

section \<open>The record of the examples\<close>

text \<open>
  \<open>examples/simple_data.c\<close>, the repository's own support for a record type. Allocation answers
  a static buffer, whose contents at the time of the call are the parameter \<open>buffer\<close>.
\<close>

record examples_simple_data =
  number :: u32
  data :: bytes

definition simple_data_allocate :: "examples_simple_data \<Rightarrow> unit \<Rightarrow> examples_simple_data option" where
  "simple_data_allocate buffer u = Some buffer"

definition simple_data_serialize :: "examples_simple_data \<Rightarrow> buffer \<Rightarrow> (int \<times> buffer) result" where
  "simple_data_serialize content blob =
     (let w = mpack_write_u32 (number content) (mpack_writer_init (b_size blob)) in
      rbind (mpack_write_cstr (data content) w) (\<lambda>w.
      let blob' = b_written w blob in
      if mpack_writer_destroy w \<noteq> mpack_ok then Inr (-1, blob')
      else Inr (int (b_length blob'), blob')))"

definition simple_data_deserialize ::
    "buffer \<Rightarrow> examples_simple_data \<Rightarrow> int \<times> examples_simple_data" where
  "simple_data_deserialize blob content =
     (let r = mpack_reader_init_data (b_contents blob);
          (number', r) = mpack_expect_u32 r;
          (data', r) = mpack_expect_cstr r (data content);
          content' = \<lparr>number = number', data = data'\<rparr>
      in if mpack_reader_destroy r \<noteq> mpack_ok then (-1, content')
         else (int (b_length blob), content'))"

definition g_simple_data_typesupport ::
    "examples_simple_data \<Rightarrow> examples_simple_data typesupport" where
  "g_simple_data_typesupport buffer =
     \<lparr>ts_allocate = Some (simple_data_allocate buffer),
      ts_serialize = Some simple_data_serialize,
      ts_deserialize = Some simple_data_deserialize\<rparr>"

section \<open>Resources that carry content\<close>

text \<open>
  What the middleware relies on: packing answers a blob, and unpacking the blob's bytes, wherever
  they have been moved to, gives the content back. \<open>carries c bs\<close> says that the bytes \<open>bs\<close> stand
  for the content \<open>c\<close>, \<open>room\<close> is the size of the buffers to pack into.
\<close>

definition raw_buffer :: "bytes \<Rightarrow> buffer" where
  "raw_buffer bs = \<lparr>b_data = bs, b_length = length bs\<rparr>"

lemma b_contents_raw [simp]: "b_contents (raw_buffer bs) = bs"
  by (simp add: b_contents_def raw_buffer_def)

locale resource_codec =
  fixes pack :: "'c pack_fn" and unpack :: "'c unpack_fn"
    and valid :: "'c \<Rightarrow> bool" and carries :: "'c \<Rightarrow> bytes \<Rightarrow> bool" and room :: nat
  assumes pack_carries: "valid c \<Longrightarrow> b_size b = room \<Longrightarrow>
      pack (Some c) (Some b) = Inr (ret, b', Some blob) \<Longrightarrow> 0 \<le> c_int ret \<Longrightarrow>
      b_length blob \<le> b_size blob \<and> carries c (b_contents blob)"
    and unpack_carries: "carries c bs \<Longrightarrow>
      \<exists>ret c'. unpack (raw_buffer bs) None = Inr (ret, Some c') \<and> 0 \<le> c_int ret \<and> carries c' bs"
begin

lemma pack_unpack:
  assumes "valid c" and "b_size b = room"
    and "pack (Some c) (Some b) = Inr (ret, b', Some blob)" and "0 \<le> c_int ret"
  shows "\<exists>ret' c'. unpack (raw_buffer (b_contents blob)) None = Inr (ret', Some c') \<and>
    0 \<le> c_int ret' \<and> carries c' (b_contents blob) \<and> carries c (b_contents blob)"
  using pack_carries [OF assms] unpack_carries by blast

end

text \<open>A raw resource carries the bytes of a buffer.\<close>

definition carries_raw :: "buffer \<Rightarrow> bytes \<Rightarrow> bool" where
  "carries_raw c bs \<longleftrightarrow> b_contents c = bs \<and> length bs < 2 ^ 31"

definition valid_raw :: "buffer \<Rightarrow> bool" where
  "valid_raw c \<longleftrightarrow> b_length c \<le> b_size c \<and> b_length c < 2 ^ 31"

interpretation raw_codec: resource_codec
  "res_pack (uccn_resource_init (\<lambda>b. b) (\<lambda>b. b) path)" "res_unpack (uccn_resource_init (\<lambda>b. b) (\<lambda>b. b) path)"
  valid_raw carries_raw room for path room
proof unfold_locales
  fix c b ret b' blob
  assume "valid_raw c" and "res_pack (uccn_resource_init (\<lambda>b. b) (\<lambda>b. b) path) (Some c) (Some b) = Inr (ret, b', Some blob)"
  then show "b_length blob \<le> b_size blob \<and> carries_raw c (b_contents blob)"
    by (auto simp: uccn_resource_init_def passthrough_pack_def content_passthrough_def valid_raw_def
        carries_raw_def b_contents_def)
next
  fix c bs assume "carries_raw c bs"
  then have "length bs < 2 ^ 31" by (simp add: carries_raw_def)
  then show "\<exists>ret c'. res_unpack (uccn_resource_init (\<lambda>b. b) (\<lambda>b. b) path) (raw_buffer bs) None = Inr (ret, Some c') \<and>
      0 \<le> c_int ret \<and> carries_raw c' bs"
    by (simp add: uccn_resource_init_def passthrough_unpack_def content_passthrough_def carries_raw_def
        raw_buffer_def b_contents_def)
qed

text \<open>The record of the examples carries its number and its string.\<close>

definition carries_simple :: "examples_simple_data \<Rightarrow> bytes \<Rightarrow> bool" where
  "carries_simple c bs \<longleftrightarrow> length (data c) = 64 \<and>
     (\<exists>cs. c_string (data c) = Inr cs \<and> bs = enc_item (Item_U32 (number c)) @ enc_item (Item_Str cs))"

definition valid_simple :: "examples_simple_data \<Rightarrow> bool" where
  "valid_simple c \<longleftrightarrow> length (data c) = 64"

lemma c_string_eq_Inr:
  "c_string buf = Inr cs \<Longrightarrow> length cs < length buf \<and> 0 \<notin> set cs"
proof -
  assume "c_string buf = Inr cs"
  then have zero: "0 \<in> set buf" and cs: "cs = takeWhile (\<lambda>c. c \<noteq> 0) buf"
    by (auto simp: c_string_def split: if_splits)
  obtain us vs where "buf = us @ 0 # vs" "0 \<notin> set us" using split_list_first [OF zero] by blast
  then have "length cs < length buf" unfolding cs by (simp add: takeWhile_nonzero)
  moreover have "0 \<notin> set cs" unfolding cs by (auto dest: set_takeWhileD)
  ultimately show ?thesis by simp
qed

lemma c_string_terminated: "0 \<notin> set s \<Longrightarrow> c_string (s @ 0 # rest) = Inr s"
  by (simp add: c_string_def takeWhile_nonzero)

lemma write_cstr_item:
  assumes "c_string buf = Inr cs" and "length buf < 2 ^ 32"
  shows "mpack_write_cstr buf w = Inr (write_item (Item_Str cs) w)"
  using assms c_string_eq_Inr [OF assms(1)] by (simp add: mpack_write_cstr_def)

lemma writer_init_wf [simp]: "wf_writer (mpack_writer_init n)" "w_error (mpack_writer_init n) = mpack_ok"
  "w_out (mpack_writer_init n) = []" "w_size (mpack_writer_init n) = n"
  by (simp_all add: wf_writer_def mpack_writer_init_def)

text \<open>What a run of write calls from a fresh writer leaves in a buffer.\<close>

lemma b_contents_written:
  assumes "w_error (fold write_item xs (mpack_writer_init n)) = mpack_ok"
  shows "b_contents (b_written (fold write_item xs (mpack_writer_init n)) b) = concat (map enc_item xs)"
    and "length (concat (map enc_item xs)) \<le> n"
proof -
  show len: "length (concat (map enc_item xs)) \<le> n"
    using assms items.fold_ok_iff [of "mpack_writer_init n" xs] by simp
  have "fold write_item xs (mpack_writer_init n) = put (concat (map enc_item xs)) (mpack_writer_init n)"
    using len by (intro items.fold_fits) simp_all
  then show "b_contents (b_written (fold write_item xs (mpack_writer_init n)) b) = concat (map enc_item xs)"
    by (simp add: b_contents_def b_written_def put_def mpack_writer_buffer_used_def)
qed

lemma written_wf: "wf_writer (fold write_item xs (mpack_writer_init n))"
  by (rule items.fold_wf) simp

lemma written_size: "w_size (fold write_item xs (mpack_writer_init n)) = n"
  by (simp only: items.fold_size writer_init_wf)

lemma b_written_length: "wf_writer w \<Longrightarrow> w_size w = b_size b \<Longrightarrow>
  b_length (b_written w b) \<le> b_size (b_written w b) \<and> b_size (b_written w b) = b_size b"
  by (simp add: b_written_def b_size_def mpack_writer_buffer_used_def wf_writer_def)

lemma simple_serialize:
  assumes "length (data c) = 64" and "c_string (data c) = Inr cs"
  shows "simple_data_serialize c b =
    (let w = fold write_item [Item_U32 (number c), Item_Str cs] (mpack_writer_init (b_size b)) in
     Inr (if w_error w \<noteq> mpack_ok then -1 else int (b_length (b_written w b)), b_written w b))"
  using assms by (simp add: simple_data_serialize_def write_cstr_item mpack_writer_destroy_def Let_def)

lemma simple_deserialize:
  assumes "carries_simple c bs" and "length (data c0) = 64"
  shows "\<exists>d. simple_data_deserialize (raw_buffer bs) c0 = (int (length bs), \<lparr>number = number c, data = d\<rparr>) \<and>
    length d = 64 \<and> c_string d = c_string (data c)"
proof -
  obtain cs where cs: "c_string (data c) = Inr cs" "length (data c) = 64"
    and bs: "bs = enc_item (Item_U32 (number c)) @ enc_item (Item_Str cs)"
    using assms(1) by (auto simp: carries_simple_def)
  have len: "length cs < length (data c0)" and zero: "0 \<notin> set cs"
    using c_string_eq_Inr [OF cs(1)] cs(2) assms(2) by simp_all
  let ?d = "cs @ 0 # drop (Suc (length cs)) (data c0)"
  have "mpack_expect_cstr (reading (enc_item (Item_Str cs))) (data c0) = (?d, reading [])"
    using expect_cstr_roundtrip [OF len _ zero, of "[]"] assms(2) by simp
  moreover have "mpack_expect_u32 (mpack_reader_init_data bs) =
      (number c, reading (enc_item (Item_Str cs)))"
    using expect_u32_roundtrip [of "number c" "enc_item (Item_Str cs)"]
    by (simp add: bs mpack_reader_init_data_def reading_def)
  ultimately have "simple_data_deserialize (raw_buffer bs) c0 =
      (int (length bs), \<lparr>number = number c, data = ?d\<rparr>)"
    by (simp add: simple_data_deserialize_def Let_def mpack_reader_destroy_def)
      (simp add: reading_def raw_buffer_def)
  moreover have "length ?d = 64" using len assms(2) by simp
  moreover have "c_string ?d = c_string (data c)" using zero cs by (simp add: c_string_terminated)
  ultimately show ?thesis by blast
qed

lemma c_int_length: "c_int (int n) = int n \<or> n \<ge> 2 ^ 31"
  by (cases "n < 2 ^ 31") auto

interpretation simple_codec: resource_codec
  "generic_record_pack (g_simple_data_typesupport \<lparr>number = num0, data = replicate 64 ch0\<rparr>)"
  "generic_record_unpack (g_simple_data_typesupport \<lparr>number = num0, data = replicate 64 ch0\<rparr>)"
  valid_simple carries_simple CONFIG_UCCN_MAX_CONTENT_SIZE for num0 ch0
proof unfold_locales
  fix c b ret b' blob
  let ?ts = "g_simple_data_typesupport \<lparr>number = num0, data = replicate 64 ch0\<rparr>"
  assume valid: "valid_simple c" and size: "b_size b = CONFIG_UCCN_MAX_CONTENT_SIZE"
    and run: "generic_record_pack ?ts (Some c) (Some b) = Inr (ret, b', Some blob)" and ok: "0 \<le> c_int ret"
  from run have ser: "simple_data_serialize c b = Inr (ret, blob)"
    by (auto simp: generic_record_pack_def g_simple_data_typesupport_def rbind_eq_Inr)
  then obtain cs where cs: "c_string (data c) = Inr cs"
    by (auto simp: simple_data_serialize_def mpack_write_cstr_def rbind_eq_Inr Let_def)
  let ?w = "fold write_item [Item_U32 (number c), Item_Str cs] (mpack_writer_init (b_size b))"
  have len: "length (data c) = 64" using valid by (simp add: valid_simple_def)
  note run = ser [unfolded simple_serialize [OF len cs] Let_def]
  have "w_error ?w = mpack_ok" using run ok by (auto split: if_splits)
  moreover have "blob = b_written ?w b" using run by simp
  moreover have "wf_writer ?w" "w_size ?w = b_size b"
    by (rule written_wf, rule written_size)
  ultimately show "b_length blob \<le> b_size blob \<and> carries_simple c (b_contents blob)"
    using b_written_length [of ?w b] b_contents_written(1) [of "[Item_U32 (number c), Item_Str cs]" "b_size b" b] cs len
    by (simp add: carries_simple_def del: fold.simps fold_simps enc_item.simps write_item.simps)
next
  fix c bs assume c: "carries_simple c bs"
  let ?ts = "g_simple_data_typesupport \<lparr>number = num0, data = replicate 64 ch0\<rparr>"
  obtain d where d: "simple_data_deserialize (raw_buffer bs) \<lparr>number = num0, data = replicate 64 ch0\<rparr> =
      (int (length bs), \<lparr>number = number c, data = d\<rparr>)" "length d = 64" "c_string d = c_string (data c)"
    using simple_deserialize [OF c, of "\<lparr>number = num0, data = replicate 64 ch0\<rparr>"] by auto
  show "\<exists>ret c'. generic_record_unpack ?ts (raw_buffer bs) None = Inr (ret, Some c') \<and> 0 \<le> c_int ret \<and>
      carries_simple c' bs"
  proof (intro exI conjI)
    show "generic_record_unpack ?ts (raw_buffer bs) None = Inr (int (length bs), Some \<lparr>number = number c, data = d\<rparr>)"
      using d(1) by (simp add: generic_record_unpack_def g_simple_data_typesupport_def simple_data_allocate_def)
    show "carries_simple \<lparr>number = number c, data = d\<rparr> bs" using c d(2,3) by (auto simp: carries_simple_def)
    obtain cs where "length cs < 64" "bs = enc_item (Item_U32 (number c)) @ enc_item (Item_Str cs)"
      using c c_string_eq_Inr [of "data c"] by (auto simp: carries_simple_def)
    then have "length bs \<le> 200"
      by (auto simp: mpack_encode_fixuint_def mpack_encode_u8_def mpack_encode_u16_def mpack_encode_u32_def
          mpack_encode_fixstr_def mpack_encode_str8_def mpack_encode_str16_def mpack_encode_str32_def Let_def)
    then show "0 \<le> c_int (int (length bs))" by simp
  qed
qed

section \<open>Round trips\<close>

lemma carries_simple_unique:
  assumes "carries_simple c bs" and "carries_simple d bs"
  shows "number d = number c \<and> c_string (data d) = c_string (data c)"
  using simple_deserialize [OF assms(1), of "\<lparr>number = 0, data = replicate 64 0\<rparr>"]
    simple_deserialize [OF assms(2), of "\<lparr>number = 0, data = replicate 64 0\<rparr>"] by auto

lemma simple_pack_fits:
  assumes "length (data c) = 64" and "c_string (data c) = Inr cs" and "b_size b = CONFIG_UCCN_MAX_CONTENT_SIZE"
  shows "\<exists>ret blob. generic_record_pack (g_simple_data_typesupport slot) (Some c) (Some b) =
    Inr (ret, Some blob, Some blob) \<and> 0 \<le> c_int ret"
proof -
  let ?xs = "[Item_U32 (number c), Item_Str cs]"
  let ?w = "fold write_item ?xs (mpack_writer_init (b_size b))"
  have "length cs < 64" using c_string_eq_Inr [OF assms(2)] assms(1) by simp
  then have "length (concat (map enc_item ?xs)) \<le> b_size b"
    using assms(3) by (auto simp: config_simps mpack_encode_fixuint_def mpack_encode_u8_def mpack_encode_u16_def
        mpack_encode_u32_def mpack_encode_fixstr_def mpack_encode_str8_def mpack_encode_str16_def
        mpack_encode_str32_def mpack_store_u16_def mpack_store_u32_def Let_def)
  then have ok: "w_error ?w = mpack_ok" using items.fold_ok_iff [of "mpack_writer_init (b_size b)" ?xs] by simp
  have len: "b_length (b_written ?w b) \<le> 256"
    using b_written_length [of ?w b] written_wf [of ?xs "b_size b"] written_size [of ?xs "b_size b"] assms(3)
    by (simp add: config_simps del: fold_simps)
  show ?thesis
    by (rule exI [of _ "int (b_length (b_written ?w b))"], rule exI [of _ "b_written ?w b"])
      (use ok len simple_serialize [OF assms(1,2), of b] in
        \<open>simp add: generic_record_pack_def g_simple_data_typesupport_def Let_def del: fold_simps\<close>)
qed

text \<open>
  C31: A record whose string is terminated within its field packs into a content buffer, and
  unpacking the bytes, wherever they have been moved to, gives its number and its string back.
\<close>

theorem simple_record_roundtrip:
  fixes n :: u32 and ch :: u8
  assumes "length (data c) = 64" and "c_string (data c) = Inr cs" and "b_size b = CONFIG_UCCN_MAX_CONTENT_SIZE"
  defines "ts \<equiv> g_simple_data_typesupport \<lparr>number = n, data = replicate 64 ch\<rparr>"
  shows "\<exists>ret blob ret' d. generic_record_pack ts (Some c) (Some b) = Inr (ret, Some blob, Some blob) \<and> 0 \<le> c_int ret \<and>
    generic_record_unpack ts (raw_buffer (b_contents blob)) None = Inr (ret', Some d) \<and> 0 \<le> c_int ret' \<and>
    number d = number c \<and> c_string (data d) = Inr cs"
proof -
  obtain ret blob where pack: "generic_record_pack ts (Some c) (Some b) = Inr (ret, Some blob, Some blob)" "0 \<le> c_int ret"
    using simple_pack_fits [OF assms(1-3)] unfolding ts_def by blast
  have "valid_simple c" using assms(1) by (simp add: valid_simple_def)
  from simple_codec.pack_unpack [OF this assms(3) pack [unfolded ts_def]]
  obtain ret' d where unpack: "generic_record_unpack ts (raw_buffer (b_contents blob)) None = Inr (ret', Some d)"
      "0 \<le> c_int ret'" "carries_simple d (b_contents blob)" "carries_simple c (b_contents blob)"
    unfolding ts_def by blast
  then show ?thesis using pack carries_simple_unique [OF unpack(4,3)] assms(2) by auto
qed

definition demo_record :: examples_simple_data where
  "demo_record = \<lparr>number = 42, data = [104, 105] @ replicate 62 0\<rparr>"

theorem simple_record_roundtrip_witness:
  "\<exists>ret blob ret' d.
    generic_record_pack (g_simple_data_typesupport \<lparr>number = 0, data = replicate 64 0\<rparr>) (Some demo_record)
      (Some (raw_buffer (replicate 256 0))) = Inr (ret, Some blob, Some blob) \<and> 0 \<le> c_int ret \<and>
    generic_record_unpack (g_simple_data_typesupport \<lparr>number = 0, data = replicate 64 0\<rparr>)
      (raw_buffer (b_contents blob)) None = Inr (ret', Some d) \<and> 0 \<le> c_int ret' \<and>
    number d = 42 \<and> c_string (data d) = Inr [104, 105]"
  using simple_record_roundtrip [of demo_record "[104, 105]" "raw_buffer (replicate 256 0)" 0 0]
  by (simp add: demo_record_def c_string_def config_simps raw_buffer_def b_size_def)

text \<open>Packing a record whose string fills its field reads past the field's end.\<close>

theorem simple_record_unterminated:
  assumes "0 \<notin> set (data c)"
  shows "generic_record_pack (g_simple_data_typesupport slot) (Some c) (Some b) = Inl Out_Of_Bounds"
  using assms by (simp add: generic_record_pack_def g_simple_data_typesupport_def simple_data_serialize_def
      mpack_write_cstr_def c_string_def Let_def)

theorem simple_record_unterminated_witness:
  "generic_record_pack (g_simple_data_typesupport demo_record) (Some \<lparr>number = 1, data = replicate 64 65\<rparr>)
     (Some (raw_buffer [])) = Inl Out_Of_Bounds"
  by (rule simple_record_unterminated) simp

end
