(* ===== verification/Registry.thy ===== *)
theory Registry
  imports Resources
begin

text \<open>
  The tables of a node: \<open>uccn_track\<close>, \<open>uccn_advertise\<close> and \<open>uccn_register_peer\<close> of
  \<open>src/uccn.c\<close>. A pointer to a tracker, a provider or a peer is its index in the node's array.

  \<open>uccn_track\<close> leaves its loop on a hash collision with \<open>goto leave\<close>, a label the function
  does not have; the model takes \<open>leave_uccn_track\<close> for it. \<open>pthread_mutex_lock\<close> reports errors
  as positive numbers, so that the code's tests for negative ones never hold.
\<close>

section \<open>Registering endpoints\<close>

datatype 'a lookup = Same 'a | Collision

text \<open>The loop of both registrations over the endpoints there are.\<close>

definition lookup_at :: "'c sys \<Rightarrow> nat \<Rightarrow> nat \<Rightarrow> 'e endpoint_scheme \<Rightarrow> nat lookup option" where
  "lookup_at s resource i ep =
     (if ep_resource ep = resource then Some (Same i)
      else if res_hash (resource_of s ep) = res_hash (resources s resource) then Some Collision
      else None)"

definition find_resource ::
    "'c sys \<Rightarrow> nat \<Rightarrow> nat \<Rightarrow> 'e endpoint_scheme list \<Rightarrow> nat lookup option result" where
  "find_resource s resource n eps = scan (lookup_at s resource) n eps"

definition uccn_track :: "nat \<Rightarrow> nat \<Rightarrow> nat \<Rightarrow> 'c sys \<Rightarrow> (nat option \<times> 'c sys) result" where
  "uccn_track resource track arg s =
     rbind (mutex_lock s) (\<lambda>s.
     rbind (find_resource s resource (num_trackers s) (trackers s)) (\<lambda>found.
     rbind (case found of
         Some (Same i) \<Rightarrow>
           rbind (arr_get (trackers s) i) (\<lambda>t.
           Inr (Some i, s\<lparr>trackers := (trackers s)[i := t\<lparr>tr_track := track, tr_arg := arg\<rparr>]\<rparr>))
       | Some Collision \<Rightarrow> Inr (None, s)
       | None \<Rightarrow>
           rbind (arr_get (trackers s) (num_trackers s)) (\<lambda>t.
           rbind (arr_set (trackers s) (num_trackers s)
             (t\<lparr>ep_resource := resource, ep_num_peers := 0, tr_track := track, tr_arg := arg\<rparr>)) (\<lambda>ts.
           Inr (Some (num_trackers s), s\<lparr>trackers := ts, num_trackers := num_trackers s + 1\<rparr>))))
       (\<lambda>(tracker, s). Inr (tracker, mutex_unlock s))))"

text \<open>A collision returns from \<open>uccn_advertise\<close> at once, past the unlocking of the mutex.\<close>

definition uccn_advertise :: "nat \<Rightarrow> 'c sys \<Rightarrow> (nat option \<times> 'c sys) result" where
  "uccn_advertise resource s =
     rbind (mutex_lock s) (\<lambda>s.
     rbind (find_resource s resource (num_providers s) (providers s)) (\<lambda>found.
     case found of
         Some (Same i) \<Rightarrow> Inr (Some i, mutex_unlock s)
       | Some Collision \<Rightarrow> Inr (None, s)
       | None \<Rightarrow>
           rbind (arr_get (providers s) (num_providers s)) (\<lambda>p.
           rbind (arr_set (providers s) (num_providers s)
             (p\<lparr>ep_resource := resource, ep_num_peers := 0\<rparr>)) (\<lambda>prs.
           Inr (Some (num_providers s),
             mutex_unlock (s\<lparr>providers := prs, num_providers := num_providers s + 1\<rparr>))))))"

section \<open>Registering peers\<close>

definition anon :: bytes where
  "anon = [97, 110, 111, 110]"

definition uccn_register_peer :: "sockaddr_in \<Rightarrow> 'c sys \<Rightarrow> (nat option \<times> 'c sys) result" where
  "uccn_register_peer addr s =
     (if num_peers s \<ge> CONFIG_UCCN_MAX_NUM_PEERS then Inr (None, s)
      else
        let (ret, current_time, s) = sys_clock s in
        if ret < 0 then Inr (None, s)
        else
          let deadline = timespec_add current_time g_uccn_liveliness_timeout in
          rbind (scan (\<lambda>i p. if same_sockaddr_in (p_address p) addr then Some i else None)
                   (num_peers s) (peers s)) (\<lambda>found.
          case found of
            Some i \<Rightarrow>
              rbind (arr_get (peers s) i) (\<lambda>p.
              Inr (Some i, s\<lparr>peers := (peers s)[i := p\<lparr>next_remote_deadline := deadline\<rparr>]\<rparr>))
          | None \<Rightarrow>
              rbind (arr_set (peers s) (num_peers s)
                \<lparr>p_address = addr,
                 p_location = format_location (sin_addr addr) (sin_port addr),
                 p_name = c_strncpy CONFIG_UCCN_MAX_NODE_NAME_SIZE anon,
                 alive = True,
                 next_remote_deadline = deadline,
                 next_local_deadline = TIMESPEC_ZERO,
                 provided_content_hash = 0, tracked_content_hash = 0,
                 num_links = 0\<rparr>) (\<lambda>ps.
              Inr (Some (num_peers s), s\<lparr>peers := ps, num_peers := num_peers s + 1\<rparr>))))"

section \<open>Tables without collisions\<close>

text \<open>
  What the registrations keep of the tables: no two of the first \<open>n\<close> endpoints have the same
  resource hash (and hence the same resource).
\<close>

definition hash_table :: "'c sys \<Rightarrow> nat \<Rightarrow> 'e endpoint_scheme list \<Rightarrow> bool" where
  "hash_table s n eps \<longleftrightarrow> distinct (map (\<lambda>ep. res_hash (resource_of s ep)) (take n eps))"

lemma hash_table_nth:
  "n \<le> length eps \<Longrightarrow> hash_table s n eps \<longleftrightarrow>
   (\<forall>i<n. \<forall>j<n. i \<noteq> j \<longrightarrow> res_hash (resource_of s (eps ! i)) \<noteq> res_hash (resource_of s (eps ! j)))"
  by (auto simp: hash_table_def distinct_conv_nth)

lemma find_resource_cases:
  assumes "n \<le> length eps"
  obtains (new) "find_resource s resource n eps = Inr None"
      and "\<And>i. i < n \<Longrightarrow> ep_resource (eps ! i) \<noteq> resource \<and>
        res_hash (resource_of s (eps ! i)) \<noteq> res_hash (resources s resource)"
  | (same) i where "find_resource s resource n eps = Inr (Some (Same i))" and "i < n"
      and "ep_resource (eps ! i) = resource"
  | (collision) i where "find_resource s resource n eps = Inr (Some Collision)" and "i < n"
      and "ep_resource (eps ! i) \<noteq> resource"
      and "res_hash (resource_of s (eps ! i)) = res_hash (resources s resource)"
  using assms
proof (cases rule: scan_cases [where f = "lookup_at s resource"])
  case none
  have "ep_resource (eps ! i) \<noteq> resource \<and>
      res_hash (resource_of s (eps ! i)) \<noteq> res_hash (resources s resource)" if "i < n" for i
    using none(2) [OF that] by (auto simp: lookup_at_def split: if_splits)
  with none(1) show thesis by (intro new) (simp_all add: find_resource_def)
next
  case (first j r)
  then show thesis using same [of j] collision [of j]
    by (auto simp: find_resource_def lookup_at_def split: if_splits)
qed

text \<open>In a table without collisions the loop finds a resource exactly when an endpoint has it.\<close>

lemma find_resource_same:
  assumes "n \<le> length eps" and "hash_table s n eps" and "i < n" and "ep_resource (eps ! i) = resource"
  shows "find_resource s resource n eps = Inr (Some (Same i))"
proof (rule find_resource_cases [OF assms(1), of s resource])
  assume "\<And>i. i < n \<Longrightarrow> ep_resource (eps ! i) \<noteq> resource \<and>
      res_hash (resource_of s (eps ! i)) \<noteq> res_hash (resources s resource)"
  then show ?thesis using assms(3,4) by blast
next
  fix j assume j: "find_resource s resource n eps = Inr (Some (Same j))" "j < n" "ep_resource (eps ! j) = resource"
  have "j = i"
    using assms(2-4) j(2,3) unfolding hash_table_nth [OF assms(1), of s] resource_of_def by metis
  then show ?thesis using j(1) by simp
next
  fix j assume j: "j < n" "ep_resource (eps ! j) \<noteq> resource"
    "res_hash (resource_of s (eps ! j)) = res_hash (resources s resource)"
  then have "j \<noteq> i" using assms(4) by auto
  then show ?thesis
    using assms(2-4) j unfolding hash_table_nth [OF assms(1), of s] resource_of_def by metis
qed

lemma hash_table_append:
  assumes "n < length eps" and "hash_table s n eps" and "ep_resource ep = resource"
    and "\<And>i. i < n \<Longrightarrow> res_hash (resource_of s (eps ! i)) \<noteq> res_hash (resources s resource)"
  shows "hash_table s (Suc n) (eps[n := ep])"
proof -
  have "take (Suc n) (eps[n := ep]) = take n eps @ [ep]"
    using assms(1) by (simp add: take_Suc_conv_app_nth)
  moreover have "res_hash (resources s resource) \<notin> set (map (\<lambda>ep. res_hash (resource_of s ep)) (take n eps))"
    using assms(1,4) by (fastforce simp: in_set_conv_nth)
  ultimately show ?thesis using assms(2,3) by (simp add: hash_table_def resource_of_def)
qed

section \<open>The tables as maps\<close>

text \<open>
  A node's trackers are a map from resources to callbacks with their arguments, its providers a
  set of resources; a registration is an update of that map or an insertion into that set.
\<close>

definition tracker_map :: "'c sys \<Rightarrow> nat \<rightharpoonup> nat \<times> nat" where
  "tracker_map s = map_of (map (\<lambda>t. (ep_resource t, tr_track t, tr_arg t)) (take (num_trackers s) (trackers s)))"

definition provider_set :: "'c sys \<Rightarrow> nat set" where
  "provider_set s = set (map ep_resource (take (num_providers s) (providers s)))"

text \<open>What the registrations keep: the node's memory, and tables without collisions.\<close>

definition registered :: "'c sys \<Rightarrow> bool" where
  "registered s \<longleftrightarrow> wf_node s \<and> hash_table s (num_trackers s) (trackers s) \<and>
     hash_table s (num_providers s) (providers s) \<and>
     distinct (map p_address (take (num_peers s) (peers s)))"

lemma hash_table_cong:
  assumes "resources s' = resources s" and "map ep_resource eps' = map ep_resource eps"
  shows "hash_table s' n eps' = hash_table s n eps"
proof -
  have "map (\<lambda>ep. res_hash (resource_of s' ep)) (take n eps') =
      map (\<lambda>r. res_hash (resources s r)) (take n (map ep_resource eps'))"
    using assms(1) by (simp add: resource_of_def take_map)
  also have "\<dots> = map (\<lambda>ep. res_hash (resource_of s ep)) (take n eps)"
    using assms(2) by (simp add: resource_of_def take_map)
  finally show ?thesis by (simp add: hash_table_def)
qed

lemma hash_table_updates [simp]:
  "hash_table (s\<lparr>trackers := ts\<rparr>) = hash_table s" "hash_table (s\<lparr>providers := prs\<rparr>) = hash_table s"
  "hash_table (s\<lparr>peers := ps\<rparr>) = hash_table s" "hash_table (s\<lparr>num_trackers := n\<rparr>) = hash_table s"
  "hash_table (s\<lparr>num_providers := n\<rparr>) = hash_table s" "hash_table (s\<lparr>num_peers := n\<rparr>) = hash_table s"
  "hash_table (s\<lparr>mutex_locked := b\<rparr>) = hash_table s" "hash_table (s\<lparr>clock_calls := n\<rparr>) = hash_table s"
  by (simp_all add: fun_eq_iff hash_table_def resource_of_def)

lemma registered_links_only:
  assumes "registered s" and "links_only s s'" and "wf_node s'"
  shows "registered s'"
proof -
  have "same_endpoints (trackers s) (trackers s')" "same_endpoints (providers s) (providers s')"
    "map p_address (peers s') = map p_address (peers s)"
    using assms(2) by (simp_all add: links_only_def)
  then show ?thesis
    using assms(1,3) links_only_fields [OF assms(2)]
    by (simp add: registered_def same_endpoints_def hash_table_cong [of s' s] take_map [symmetric])
qed

lemma wf_endpoints_append:
  assumes "wf_endpoints n eps" and "n < length eps" and "ep_peers ep = ep_peers (eps ! n)" and "ep_num_peers ep = 0"
  shows "wf_endpoints (Suc n) (eps[n := ep])"
  using assms by (auto simp: wf_endpoints_def wf_endpoint_def linked_def nth_list_update less_Suc_eq)

lemma wf_endpoints_update:
  assumes "wf_endpoints n eps" and "i < length eps" and "ep_peers ep = ep_peers (eps ! i)"
    and "ep_num_peers ep = ep_num_peers (eps ! i)"
  shows "wf_endpoints n (eps[i := ep])"
  using assms by (auto simp: wf_endpoints_def wf_endpoint_def linked_def nth_list_update)

lemma map_of_append_new:
  "k \<notin> fst ` set xs \<Longrightarrow> map_of (xs @ [(k, v)]) = (map_of xs)(k \<mapsto> v)"
  by (auto simp: fun_eq_iff map_add_def dest: map_of_SomeD split: option.splits)
    (metis map_of_eq_None_iff option.distinct(1))

lemma map_of_update_key:
  "distinct (map fst xs) \<Longrightarrow> i < length xs \<Longrightarrow> fst (xs ! i) = k \<Longrightarrow>
   map_of (xs[i := (k, v)]) = (map_of xs)(k \<mapsto> v)"
proof (induction xs arbitrary: i)
  case (Cons x xs)
  show ?case
  proof (cases i)
    case 0
    then show ?thesis using Cons.prems by (cases x) (auto simp: fun_eq_iff)
  next
    case (Suc j)
    then have "fst x \<noteq> k" using Cons.prems by (metis distinct.simps(2) length_Cons list.map(2)
          length_map nth_Cons_Suc nth_map nth_mem Suc_less_eq)
    then show ?thesis using Cons Suc by (cases x) (auto simp: fun_eq_iff)
  qed
qed simp

lemma hash_table_resources:
  assumes "hash_table s n eps"
  shows "distinct (map ep_resource (take n eps))"
proof -
  have "map (\<lambda>ep. res_hash (resource_of s ep)) (take n eps) =
      map (\<lambda>r. res_hash (resources s r)) (map ep_resource (take n eps))"
    by (simp add: resource_of_def)
  then show ?thesis using assms unfolding hash_table_def by (metis distinct_map)
qed

section \<open>Registering, on every branch\<close>

lemma uccn_track_locked: "mutex_locked s \<Longrightarrow> uccn_track r f a s = Inl Deadlock"
  by (simp add: uccn_track_def mutex_lock_def)

lemma uccn_advertise_locked: "mutex_locked s \<Longrightarrow> uccn_advertise r s = Inl Deadlock"
  by (simp add: uccn_advertise_def mutex_lock_def)

lemma lookup_cong [simp]: "lookup_at (s\<lparr>mutex_locked := b\<rparr>) = lookup_at s"
  by (simp add: fun_eq_iff lookup_at_def resource_of_def)

lemma find_resource_lock [simp]: "find_resource (s\<lparr>mutex_locked := b\<rparr>) = find_resource s"
  by (simp add: fun_eq_iff find_resource_def)

lemma uccn_track_cases:
  assumes "wf_node s" and "\<not> mutex_locked s"
  obtains
    (same) i where "i < num_trackers s" and "ep_resource (trackers s ! i) = r"
      and "uccn_track r f a s = Inr (Some i,
        s\<lparr>trackers := (trackers s)[i := (trackers s ! i)\<lparr>tr_track := f, tr_arg := a\<rparr>]\<rparr>)"
  | (collision) i where "i < num_trackers s" and "ep_resource (trackers s ! i) \<noteq> r"
      and "res_hash (resource_of s (trackers s ! i)) = res_hash (resources s r)"
      and "uccn_track r f a s = Inr (None, s)"
  | (new) "\<And>i. i < num_trackers s \<Longrightarrow> ep_resource (trackers s ! i) \<noteq> r \<and>
        res_hash (resource_of s (trackers s ! i)) \<noteq> res_hash (resources s r)"
      and "uccn_track r f a s = (if num_trackers s < CONFIG_UCCN_MAX_NUM_TRACKERS
        then Inr (Some (num_trackers s), s\<lparr>trackers := (trackers s)[num_trackers s :=
            (trackers s ! num_trackers s)\<lparr>ep_resource := r, ep_num_peers := 0, tr_track := f, tr_arg := a\<rparr>],
          num_trackers := num_trackers s + 1\<rparr>)
        else Inl Out_Of_Bounds)"
proof -
  have bounds: "num_trackers s \<le> length (trackers s)" "length (trackers s) = CONFIG_UCCN_MAX_NUM_TRACKERS"
    using assms(1) by (auto simp: wf_node_def wf_endpoints_def)
  have lock: "s\<lparr>mutex_locked := False\<rparr> = s" using assms(2) by simp
  note run = uccn_track_def [of r f a s] mutex_lock_def mutex_unlock_def
  from bounds(1) show thesis
  proof (cases rule: find_resource_cases [where s = s and resource = r])
    case new
    then show thesis using bounds assms(2) by (intro that(3)) (simp_all add: run lock)
  next
    case (same i)
    then show thesis using bounds assms(2) by (intro that(1) [of i]) (simp_all add: run lock)
  next
    case (collision i)
    then show thesis using assms(2) by (intro that(2) [of i]) (simp_all add: run lock)
  qed
qed

lemma uccn_advertise_cases:
  assumes "wf_node s" and "\<not> mutex_locked s"
  obtains
    (same) i where "i < num_providers s" and "ep_resource (providers s ! i) = r"
      and "uccn_advertise r s = Inr (Some i, s)"
  | (collision) i where "i < num_providers s" and "ep_resource (providers s ! i) \<noteq> r"
      and "res_hash (resource_of s (providers s ! i)) = res_hash (resources s r)"
      and "uccn_advertise r s = Inr (None, s\<lparr>mutex_locked := True\<rparr>)"
  | (new) "\<And>i. i < num_providers s \<Longrightarrow> ep_resource (providers s ! i) \<noteq> r \<and>
        res_hash (resource_of s (providers s ! i)) \<noteq> res_hash (resources s r)"
      and "uccn_advertise r s = (if num_providers s < CONFIG_UCCN_MAX_NUM_PROVIDERS
        then Inr (Some (num_providers s), s\<lparr>providers := (providers s)[num_providers s :=
            (providers s ! num_providers s)\<lparr>ep_resource := r, ep_num_peers := 0\<rparr>],
          num_providers := num_providers s + 1\<rparr>)
        else Inl Out_Of_Bounds)"
proof -
  have bounds: "num_providers s \<le> length (providers s)" "length (providers s) = CONFIG_UCCN_MAX_NUM_PROVIDERS"
    using assms(1) by (auto simp: wf_node_def wf_endpoints_def)
  have lock: "s\<lparr>mutex_locked := False\<rparr> = s" using assms(2) by simp
  note run = uccn_advertise_def [of r s] mutex_lock_def mutex_unlock_def
  from bounds(1) show thesis
  proof (cases rule: find_resource_cases [where s = s and resource = r])
    case new
    then show thesis using bounds assms(2) by (intro that(3)) (simp_all add: run lock)
  next
    case (same i)
    then show thesis using bounds assms(2) by (intro that(1) [of i]) (simp_all add: run lock)
  next
    case (collision i)
    then show thesis using assms(2) by (intro that(2) [of i]) (simp_all add: run lock)
  qed
qed

text \<open>The first registration of an address, and a later one of the same address.\<close>

definition new_peer :: "sockaddr_in \<Rightarrow> timespec \<Rightarrow> peer" where
  "new_peer addr deadline = \<lparr>p_address = addr,
     p_location = format_location (sin_addr addr) (sin_port addr),
     p_name = c_strncpy CONFIG_UCCN_MAX_NODE_NAME_SIZE anon, alive = True,
     next_remote_deadline = deadline, next_local_deadline = TIMESPEC_ZERO,
     provided_content_hash = 0, tracked_content_hash = 0, num_links = 0\<rparr>"

lemma same_sockaddr_in_eq: "same_sockaddr_in a b \<longleftrightarrow> a = b"
  by (cases a; cases b) (simp add: same_sockaddr_in_def)

lemma uccn_register_peer_cases:
  assumes "wf_node s" and "num_peers s < CONFIG_UCCN_MAX_NUM_PEERS"
    and "sys_clock s = (ret, t, s1)" and "ret \<ge> 0"
  defines "deadline \<equiv> timespec_add t g_uccn_liveliness_timeout"
  obtains
    (known) i where "i < num_peers s" and "p_address (peers s ! i) = addr"
      and "\<And>j. j < i \<Longrightarrow> p_address (peers s ! j) \<noteq> addr"
      and "uccn_register_peer addr s = Inr (Some i,
        s1\<lparr>peers := (peers s)[i := (peers s ! i)\<lparr>next_remote_deadline := deadline\<rparr>]\<rparr>)"
  | (new) "\<And>i. i < num_peers s \<Longrightarrow> p_address (peers s ! i) \<noteq> addr"
      and "uccn_register_peer addr s = Inr (Some (num_peers s),
        s1\<lparr>peers := (peers s)[num_peers s := new_peer addr deadline], num_peers := num_peers s + 1\<rparr>)"
proof -
  have s1: "s1 = s\<lparr>clock_calls := clock_calls s + 1\<rparr>"
    using assms(3) by (auto simp: sys_clock_def Let_def split: prod.splits)
  have len: "length (peers s) = CONFIG_UCCN_MAX_NUM_PEERS" using assms(1) by (simp add: wf_node_def wf_peers_def)
  then have le: "num_peers s \<le> length (peers s)" using assms(2) by simp
  note run = uccn_register_peer_def [of addr s] s1 deadline_def
  from le show thesis
  proof (cases rule: scan_cases [where f = "\<lambda>i p. if same_sockaddr_in (p_address p) addr then Some i else None"])
    case none
    have "p_address (peers s ! i) \<noteq> addr" if "i < num_peers s" for i
      using none(2) [OF that] by (simp add: same_sockaddr_in_eq split: if_splits)
    then show thesis using none(1) assms(2-4) len
      by (intro that(2)) (simp_all add: run new_peer_def Let_def)
  next
    case (first j r)
    have "p_address (peers s ! i) \<noteq> addr" if "i < j" for i
      using first(4) [OF that] by (simp add: same_sockaddr_in_eq split: if_splits)
    then show thesis using first(1-3) assms(2-4) le
      by (intro that(1) [of j]) (auto simp: run Let_def same_sockaddr_in_eq split: if_splits)
  qed
qed

section \<open>Invariants\<close>

lemma links_of_new_tracker:
  assumes "wf_node s" and "num_trackers s < CONFIG_UCCN_MAX_NUM_TRACKERS" and "ep_num_peers t = 0"
  shows "links_of k (s\<lparr>trackers := (trackers s)[num_trackers s := t], num_trackers := num_trackers s + 1\<rparr>) = links_of k s"
  using assms
  by (simp add: links_of_def count_links_def take_Suc_conv_app_nth wf_node_def has_link_def linked_def)

lemma links_of_new_provider:
  assumes "wf_node s" and "num_providers s < CONFIG_UCCN_MAX_NUM_PROVIDERS" and "ep_num_peers t = 0"
  shows "links_of k (s\<lparr>providers := (providers s)[num_providers s := t], num_providers := num_providers s + 1\<rparr>) = links_of k s"
  using assms
  by (simp add: links_of_def count_links_def take_Suc_conv_app_nth wf_node_def has_link_def linked_def)

lemma count_links_linked: "count_links k xs = length (filter (\<lambda>l. Some k \<in> set l) (map linked xs))"
  by (induction xs) (simp_all add: count_links_def has_link_def)

lemma map_update_same: "i < length xs \<Longrightarrow> f x = f (xs ! i) \<Longrightarrow> map f (xs[i := x]) = map f xs"
  by (rule nth_equalityI) (auto simp: nth_list_update)

lemma count_links_same:
  "i < length eps \<Longrightarrow> linked ep = linked (eps ! i) \<Longrightarrow>
   count_links k (take n (eps[i := ep])) = count_links k (take n eps)"
  by (simp add: count_links_linked take_map map_update_same flip: take_map)

lemma take_update_append:
  "n < length xs \<Longrightarrow> take (Suc n) (xs[n := x]) = take n xs @ [x]"
  by (simp add: take_Suc_conv_app_nth)

text \<open>Tracking a resource keeps the node's memory, tables and link accounts in order.\<close>

lemma uccn_track_keeps:
  assumes "registered s" and "\<not> mutex_locked s"
  shows "wpf {Out_Of_Bounds} (uccn_track r f a s)
    (\<lambda>(i, s'). registered s' \<and> \<not> mutex_locked s' \<and> (accounted s \<longrightarrow> accounted s'))"
proof -
  have wf: "wf_node s" using assms(1) by (simp add: registered_def)
  from wf assms(2) show ?thesis
  proof (cases rule: uccn_track_cases [where r = r and f = f and a = a])
    case (same i)
    let ?t = "(trackers s ! i)\<lparr>tr_track := f, tr_arg := a\<rparr>"
    have i: "i < length (trackers s)" using same(1) wf by (auto simp: wf_node_def wf_endpoints_def)
    have "wf_endpoints (num_trackers s) ((trackers s)[i := ?t])"
      using wf i by (intro wf_endpoints_update) (simp_all add: wf_node_def)
    then have "wf_node (s\<lparr>trackers := (trackers s)[i := ?t]\<rparr>)" using wf by (simp add: wf_node_def)
    moreover have "hash_table s n ((trackers s)[i := ?t]) = hash_table s n (trackers s)" for n
      using i by (intro hash_table_cong) (simp_all add: map_update_same)
    moreover have "links_of k (s\<lparr>trackers := (trackers s)[i := ?t]\<rparr>) = links_of k s" for k
      using count_links_same [OF i, of ?t k] by (simp add: links_of_def linked_def)
    ultimately show ?thesis using same(3) assms
      by (simp add: registered_def accounted_def)
  next
    case (collision i)
    then show ?thesis using assms by simp
  next
    case new
    let ?t = "(trackers s ! num_trackers s)\<lparr>ep_resource := r, ep_num_peers := 0, tr_track := f, tr_arg := a\<rparr>"
    show ?thesis
    proof (cases "num_trackers s < CONFIG_UCCN_MAX_NUM_TRACKERS")
      case True
      let ?s = "s\<lparr>trackers := (trackers s)[num_trackers s := ?t], num_trackers := num_trackers s + 1\<rparr>"
      have n: "num_trackers s < length (trackers s)" using True wf by (simp add: wf_node_def)
      have "wf_node ?s" using wf wf_endpoints_append [OF wf_nodeD(4) [OF wf] n, of ?t] by (simp add: wf_node_def)
      moreover have "hash_table s (Suc (num_trackers s)) ((trackers s)[num_trackers s := ?t])"
      proof (rule hash_table_append [OF n])
        show "res_hash (resource_of s (trackers s ! i)) \<noteq> res_hash (resources s r)" if "i < num_trackers s" for i
          using new(1) [OF that] by (rule conjunct2)
      qed (use assms(1) in \<open>simp_all add: registered_def\<close>)
      then have "registered ?s" using assms(1) \<open>wf_node ?s\<close> by (simp add: registered_def)
      moreover have "accounted ?s" if "accounted s"
        using that links_of_new_tracker [OF wf True, of ?t] by (simp add: accounted_def)
      ultimately show ?thesis using new(2) True assms(2) by simp
    qed (simp add: new(2))
  qed
qed

text \<open>Advertising a resource keeps the node's memory, tables and link accounts in order.\<close>

lemma uccn_advertise_keeps:
  assumes "registered s" and "\<not> mutex_locked s"
  shows "wpf {Out_Of_Bounds} (uccn_advertise r s)
    (\<lambda>(p, s'). registered s' \<and> (mutex_locked s' \<longleftrightarrow> p = None) \<and> (accounted s \<longrightarrow> accounted s'))"
proof -
  have wf: "wf_node s" using assms(1) by (simp add: registered_def)
  from wf assms(2) show ?thesis
  proof (cases rule: uccn_advertise_cases [where r = r])
    case (same i)
    then show ?thesis using assms by simp
  next
    case (collision i)
    then show ?thesis using assms
      by (simp add: registered_def wf_node_def accounted_def links_of_def)
  next
    case new
    let ?p = "(providers s ! num_providers s)\<lparr>ep_resource := r, ep_num_peers := 0\<rparr>"
    show ?thesis
    proof (cases "num_providers s < CONFIG_UCCN_MAX_NUM_PROVIDERS")
      case True
      let ?s = "s\<lparr>providers := (providers s)[num_providers s := ?p], num_providers := num_providers s + 1\<rparr>"
      have n: "num_providers s < length (providers s)" using True wf by (simp add: wf_node_def)
      have "wf_node ?s" using wf wf_endpoints_append [OF wf_nodeD(5) [OF wf] n, of ?p] by (simp add: wf_node_def)
      moreover have "hash_table s (Suc (num_providers s)) ((providers s)[num_providers s := ?p])"
      proof (rule hash_table_append [OF n])
        show "res_hash (resource_of s (providers s ! i)) \<noteq> res_hash (resources s r)" if "i < num_providers s" for i
          using new(1) [OF that] by (rule conjunct2)
      qed (use assms(1) in \<open>simp_all add: registered_def\<close>)
      then have "registered ?s" using assms(1) \<open>wf_node ?s\<close> by (simp add: registered_def)
      moreover have "accounted ?s" if "accounted s"
        using that links_of_new_provider [OF wf True, of ?p] by (simp add: accounted_def)
      ultimately show ?thesis using new(2) True assms(2) by simp
    qed (simp add: new(2))
  qed
qed

text \<open>The map of tracked resources, as registrations change it.\<close>

lemma tracker_map_dom:
  assumes "wf_node s"
  shows "dom (tracker_map s) = {ep_resource (trackers s ! i) |i. i < num_trackers s}"
proof -
  have "num_trackers s \<le> length (trackers s)" using assms by (simp add: wf_node_def wf_endpoints_def)
  moreover have "dom (tracker_map s) = ep_resource ` set (take (num_trackers s) (trackers s))"
    by (simp add: tracker_map_def dom_map_of_conv_image_fst image_image)
  ultimately show ?thesis by (fastforce simp: in_set_conv_nth image_iff)
qed

lemma tracker_map_same:
  assumes "wf_node s" and "hash_table s (num_trackers s) (trackers s)" and "i < num_trackers s"
    and "ep_resource (trackers s ! i) = r"
  shows "tracker_map (s\<lparr>trackers := (trackers s)[i := (trackers s ! i)\<lparr>tr_track := f, tr_arg := a\<rparr>]\<rparr>) =
    (tracker_map s)(r \<mapsto> (f, a))"
proof -
  let ?n = "num_trackers s" and ?e = "\<lambda>t. (ep_resource t, tr_track t, tr_arg t)"
  have len: "?n \<le> length (trackers s)" using assms(1) by (simp add: wf_node_def wf_endpoints_def)
  have distinct: "distinct (map fst (map ?e (take ?n (trackers s))))"
    using hash_table_resources [OF assms(2)] by (simp add: comp_def)
  have "map ?e (take ?n ((trackers s)[i := (trackers s ! i)\<lparr>tr_track := f, tr_arg := a\<rparr>])) =
      (map ?e (take ?n (trackers s)))[i := (r, f, a)]"
    using assms(3,4) len by (simp add: take_update_swap map_update)
  then show ?thesis
    using assms(3,4) len map_of_update_key [OF distinct, of i r "(f, a)"] by (auto simp: tracker_map_def)
qed

lemma tracker_map_new:
  assumes "wf_node s" and "num_trackers s < CONFIG_UCCN_MAX_NUM_TRACKERS" and "r \<notin> dom (tracker_map s)"
  shows "tracker_map (s\<lparr>trackers := (trackers s)[num_trackers s := t\<lparr>ep_resource := r, ep_num_peers := 0, tr_track := f, tr_arg := a\<rparr>],
    num_trackers := num_trackers s + 1\<rparr>) = (tracker_map s)(r \<mapsto> (f, a))"
proof -
  have len: "length (trackers s) = CONFIG_UCCN_MAX_NUM_TRACKERS" using assms(1) by (simp add: wf_node_def)
  have "r \<notin> fst ` set (map (\<lambda>t. (ep_resource t, tr_track t, tr_arg t)) (take (num_trackers s) (trackers s)))"
    using assms(3) by (simp add: tracker_map_def dom_map_of_conv_image_fst)
  from map_of_append_new [OF this] assms(2) len show ?thesis
    by (auto simp: tracker_map_def take_update_append)
qed

text \<open>
  C18: Tracking is an update of the node's map from resources to callbacks, unless the resource's
  hash is that of another tracked resource.
\<close>

theorem uccn_track_refines:
  assumes "registered s" and "\<not> mutex_locked s" and "uccn_track r f a s = Inr (t, s')"
  shows "case t of
      Some i \<Rightarrow> tracker_map s' = (tracker_map s)(r \<mapsto> (f, a)) \<and> i < num_trackers s' \<and>
        ep_resource (trackers s' ! i) = r
    | None \<Rightarrow> s' = s \<and> r \<notin> dom (tracker_map s) \<and>
        (\<exists>q \<in> dom (tracker_map s). res_hash (resources s q) = res_hash (resources s r))"
proof -
  let ?n = "num_trackers s"
  have wf: "wf_node s" and table: "hash_table s ?n (trackers s)" using assms(1) by (simp_all add: registered_def)
  have len: "?n \<le> length (trackers s)" using wf by (simp add: wf_node_def wf_endpoints_def)
  note dom = tracker_map_dom [OF wf]
  from wf assms(2) show ?thesis
  proof (cases rule: uccn_track_cases [where r = r and f = f and a = a])
    case (same i)
    then show ?thesis using assms(3) len tracker_map_same [OF wf table same(1,2), where f = f and a = a] by auto
  next
    case (collision i)
    have "r \<notin> dom (tracker_map s)"
    proof
      assume "r \<in> dom (tracker_map s)"
      then obtain j where j: "j < ?n" "r = ep_resource (trackers s ! j)" by (auto simp: dom)
      then have "i \<noteq> j" using collision(2) by auto
      then show False
        using hash_table_nth [OF len, THEN iffD1, OF table] collision(1,3) j by (simp add: resource_of_def)
    qed
    then show ?thesis using collision assms(3) by (auto simp: dom resource_of_def)
  next
    case new
    have "r \<notin> dom (tracker_map s)" using new(1) by (auto simp: dom)
    then show ?thesis using new(2) assms(3) tracker_map_new [OF wf] wf
      by (auto simp: wf_node_def split: if_splits)
  qed
qed

text \<open>
  A failed advertisement leaves the node's mutex locked: every later registration deadlocks.
\<close>

theorem uccn_advertise_collision_deadlocks:
  assumes "registered s" and "\<not> mutex_locked s" and "uccn_advertise r s = Inr (None, s')"
  shows "uccn_advertise q s' = Inl Deadlock \<and> uccn_track q f a s' = Inl Deadlock"
  using uccn_advertise_keeps [OF assms(1,2), of r] assms(3)
  by (simp add: uccn_track_locked uccn_advertise_locked)

text \<open>
  Registering a peer answers the peer with the address, new or known, with its remote
  deadline two seconds ahead, and keeps the tables; addresses stay distinct.
\<close>

lemma uccn_register_peer_keeps:
  assumes "registered s"
  shows "wpf {} (uccn_register_peer addr s) (\<lambda>(k, s'). registered s' \<and> (accounted s \<longrightarrow> accounted s') \<and>
    resources s' = resources s \<and> mutex_locked s' = mutex_locked s \<and>
    (case k of
       None \<Rightarrow> num_peers s = CONFIG_UCCN_MAX_NUM_PEERS \<or> fst (clock_gettime s (clock_calls s)) < 0
     | Some k \<Rightarrow> k < num_peers s' \<and> p_address (peers s' ! k) = addr \<and>
         next_remote_deadline (peers s' ! k) =
           timespec_add (snd (clock_gettime s (clock_calls s))) g_uccn_liveliness_timeout))"
proof -
  have wf: "wf_node s" using assms by (simp add: registered_def)
  obtain ret t s1 where clock: "sys_clock s = (ret, t, s1)" by (cases "sys_clock s") auto
  have s1: "s1 = s\<lparr>clock_calls := clock_calls s + 1\<rparr>" and ret: "ret = fst (clock_gettime s (clock_calls s))"
    and t: "t = snd (clock_gettime s (clock_calls s))"
    using clock by (auto simp: sys_clock_def Let_def split: prod.splits)
  have tick: "registered s1" "accounted s \<Longrightarrow> accounted s1"
    using assms by (simp_all add: s1 registered_def wf_node_def accounted_def links_of_def)
  have len: "length (peers s) = CONFIG_UCCN_MAX_NUM_PEERS" using wf by (simp add: wf_node_def wf_peers_def)
  consider "num_peers s \<ge> CONFIG_UCCN_MAX_NUM_PEERS" | "ret < 0" "num_peers s < CONFIG_UCCN_MAX_NUM_PEERS"
    | "ret \<ge> 0" "num_peers s < CONFIG_UCCN_MAX_NUM_PEERS" by linarith
  then show ?thesis
  proof cases
    case 1
    then show ?thesis using assms wf_nodeD(3) [OF wf] by (simp add: uccn_register_peer_def)
  next
    case 2
    then show ?thesis using tick clock ret by (simp add: uccn_register_peer_def s1)
  next
    case 3
    from wf 3(2) clock 3(1) show ?thesis
    proof (cases rule: uccn_register_peer_cases [where addr = addr])
      case (known i)
      let ?ps = "(peers s)[i := (peers s ! i)\<lparr>next_remote_deadline := timespec_add t g_uccn_liveliness_timeout\<rparr>]"
      have i: "i < length (peers s)" using known(1) len 3(2) by simp
      have "wf_names ?ps" using wf i by (simp add: wf_node_def wf_names_update wf_names_nth)
      then have "registered (s1\<lparr>peers := ?ps\<rparr>)"
        using tick(1) i by (simp add: registered_def s1 wf_node_def wf_peers_def map_update_same take_map [symmetric])
      moreover have "accounted (s1\<lparr>peers := ?ps\<rparr>)" if "accounted s"
        using that i by (auto simp: accounted_def links_of_def s1 nth_list_update)
      ultimately show ?thesis using known i t by (simp add: s1)
    next
      case new
      let ?p = "new_peer addr (timespec_add t g_uccn_liveliness_timeout)"
      let ?s = "s1\<lparr>peers := (peers s)[num_peers s := ?p], num_peers := num_peers s + 1\<rparr>"
      have n: "num_peers s < length (peers s)" using 3(2) len by simp
      have "wf_names ((peers s)[num_peers s := ?p])"
        using wf by (intro wf_names_update) (simp_all add: wf_node_def new_peer_def)
      then have "wf_node ?s" using tick(1) 3(2) by (simp add: registered_def s1 wf_node_def wf_peers_def)
      moreover have "addr \<notin> p_address ` set (take (num_peers s) (peers s))"
      proof
        assume "addr \<in> p_address ` set (take (num_peers s) (peers s))"
        then obtain i where "i < num_peers s" "p_address (peers s ! i) = addr" by (auto simp: in_set_conv_nth)
        then show False using new(1) by blast
      qed
      ultimately have "registered ?s"
        using tick(1) n by (simp add: registered_def s1 take_update_append new_peer_def)
      moreover have "accounted ?s" if "accounted s"
      proof -
        have "links_of (num_peers s) s = 0" using that by (simp add: accounted_def)
        then show ?thesis using that n
          by (auto simp: accounted_def s1 links_of_def nth_list_update less_Suc_eq new_peer_def)
      qed
      ultimately show ?thesis using new(2) n t by (simp add: s1 new_peer_def)
    qed
  qed
qed

end
