(* ===== verification/Post.thy ===== *)
theory Post
  imports Registry
begin

text \<open>
  \<open>uccn_post\<close> of \<open>src/uccn.c\<close>: packing a content into a packet for every peer that is linked to
  the provider. System calls that fail answer \<open>-1\<close>, so that narrowing their results to \<open>int\<close>
  changes nothing; what a resource's \<open>pack\<close> answers may be any \<open>ssize_t\<close> and is narrowed.
\<close>

section \<open>The operation\<close>

text \<open>The bytes of a blob, for a blob whose length lies within its storage.\<close>

definition blob_bytes :: "buffer \<Rightarrow> bytes result" where
  "blob_bytes b = (if b_length b \<le> b_size b then Inr (b_contents b) else Inl Out_Of_Bounds)"

text \<open>
  One turn of the loop over the linked peers, over the value of \<open>ret\<close>, whether the function has
  returned from within the loop, and the node.
\<close>

definition post_body :: "bytes \<Rightarrow> nat option list \<Rightarrow> nat \<Rightarrow> int \<times> bool \<times> 'c sys \<Rightarrow>
    (int \<times> bool \<times> 'c sys) ctl result" where
  "post_body packet links i = (\<lambda>(ret, returned, s).
     rbind (arr_get links i) (\<lambda>q.
     case q of None \<Rightarrow> Inl Null_Deref
     | Some k \<Rightarrow>
         rbind (arr_get (peers s) k) (\<lambda>peer.
         let (nbytes, s) = sys_sendto (socket s) (p_address peer) packet s in
         rbind (c_assert (nbytes < 0 \<or> nbytes = int (length packet))) (\<lambda>_.
         if nbytes < 0 then Inr (Continue (ret, False, s))
         else
           let (ret, t, s) = sys_clock s in
           if ret \<noteq> 0 then Inr (Break (ret, True, s))
           else Inr (Continue (ret + 1, False, s\<lparr>peers := (peers s)[k :=
             peer\<lparr>next_local_deadline := timespec_add t g_uccn_liveliness_assert_timeout\<rparr>]\<rparr>))))))"

text \<open>What \<open>uccn_post\<close> does once it has seen that the resource has peers.\<close>

definition post_locked :: "nat \<Rightarrow> 'c option \<Rightarrow> 'c sys \<Rightarrow> (int \<times> 'c sys) result" where
  "post_locked provider content s =
     rbind (arr_get (providers s) provider) (\<lambda>endpoint.
     rbind (mutex_lock s) (\<lambda>s.
     let packet = outgoing_buffer s;
         resource = resource_of s endpoint;
         w = mpack_writer_init (b_size packet);
         w = mpack_start_map 1 w;
         w = mpack_write_u8 UCCN_CONTENT_GROUP w;
         w = mpack_start_map 1 w;
         w = mpack_write_u32 (res_hash resource) w
     in
     rbind (res_pack resource content (Some (content_buffer s))) (\<lambda>(ret, packed, blob).
     let s = s\<lparr>content_buffer := (case packed of Some b \<Rightarrow> b | None \<Rightarrow> content_buffer s)\<rparr>;
         ret = c_int ret
     in
     if ret < 0 then Inr (ret, mutex_unlock (s\<lparr>outgoing_buffer := b_store w packet\<rparr>))
     else
       rbind (case blob of None \<Rightarrow> Inl Null_Deref | Some b \<Rightarrow> blob_bytes b) (\<lambda>data.
       let w = mpack_write_bin data w;
           packet = b_written w packet;
           s = s\<lparr>outgoing_buffer := packet\<rparr>
       in
       if mpack_writer_destroy w \<noteq> mpack_ok then Inr (-1, mutex_unlock s)
       else
         rbind (for_loop (post_body (b_contents packet) (ep_peers endpoint)) 0
           (ep_num_peers endpoint) (0, False, s)) (\<lambda>(ret, returned, s).
         Inr (ret, if returned then s else mutex_unlock s))))))"

definition uccn_post :: "nat \<Rightarrow> 'c option \<Rightarrow> 'c sys \<Rightarrow> (int \<times> 'c sys) result" where
  "uccn_post provider content s =
     rbind (arr_get (providers s) provider) (\<lambda>endpoint.
     if ep_num_peers endpoint > 0 then post_locked provider content s else Inr (0, s))"

section \<open>The packet\<close>

definition content_items :: "u32 \<Rightarrow> bytes \<Rightarrow> item list" where
  "content_items hash bs =
     [Item_Map 1, Item_U8 UCCN_CONTENT_GROUP, Item_Map 1, Item_U32 hash, Item_Bin bs]"

definition content_packet :: "u32 \<Rightarrow> bytes \<Rightarrow> bytes" where
  "content_packet hash bs = concat (map enc_item (content_items hash bs))"

lemma content_writer:
  "mpack_write_bin bs (mpack_write_u32 hash (mpack_start_map 1 (mpack_write_u8 UCCN_CONTENT_GROUP
     (mpack_start_map 1 (mpack_writer_init n))))) = fold write_item (content_items hash bs) (mpack_writer_init n)"
  by (simp add: content_items_def)

text \<open>What fits: the encodings of the codes take at most 9 bytes, that of the length at most 5.\<close>

lemma length_enc_u32: "length (enc_item (Item_U32 h)) \<le> 5"
  by (simp add: mpack_encode_fixuint_def mpack_encode_u8_def mpack_encode_u16_def mpack_encode_u32_def)

lemma length_enc_bin:
  "length bs \<le> 0xffff \<Longrightarrow> length (enc_item (Item_Bin bs)) \<le> 3 + length bs"
  by (simp add: Let_def mpack_encode_bin8_def mpack_encode_bin16_def mpack_encode_bin32_def
      unat_length_u32 word_le_nat_alt)

lemma length_content_packet:
  assumes "length bs \<le> 0xffff"
  shows "length (content_packet hash bs) \<le> 12 + length bs"
proof -
  have "length (enc_item (Item_Map 1)) = 1" "length (enc_item (Item_U8 UCCN_CONTENT_GROUP)) = 2"
    by (simp_all add: mpack_encode_fixmap_def UCCN_CONTENT_GROUP_def mpack_encode_u8_def)
  then show ?thesis using length_enc_u32 [of hash] length_enc_bin [OF assms]
    by (simp add: content_packet_def content_items_def del: enc_item.simps)
qed

lemma content_packet_fits:
  assumes "b_length blob \<le> b_size blob" and "b_length blob \<le> 500"
  shows "length (content_packet hash (b_contents blob)) \<le> 512"
proof -
  have "length (b_contents blob) = b_length blob" using assms(1) by (simp add: b_contents_def b_size_def)
  then show ?thesis using length_content_packet [of "b_contents blob" hash] assms(2) by simp
qed

section \<open>The run of the loop\<close>

text \<open>
  Which of the peers the packet reaches, from the answers of \<open>sendto\<close> in the order of the calls.
\<close>

fun reached :: "(nat \<Rightarrow> nat \<Rightarrow> int) \<Rightarrow> nat \<Rightarrow> nat \<Rightarrow> nat list \<Rightarrow> nat list" where
  "reached send calls len [] = []"
| "reached send calls len (k # ks) =
     (if send calls len < 0 then [] else [k]) @ reached send (Suc calls) len ks"

text \<open>The documented behaviour of \<open>sendto\<close> on a datagram socket: all of the packet or an error.\<close>

definition datagrams :: "(nat \<Rightarrow> nat \<Rightarrow> int) \<Rightarrow> bool" where
  "datagrams send \<longleftrightarrow> (\<forall>i len. send i len < 0 \<or> send i len = int len)"

text \<open>A clock that never fails.\<close>

definition clock_works :: "(nat \<Rightarrow> int \<times> timespec) \<Rightarrow> bool" where
  "clock_works clock \<longleftrightarrow> (\<forall>i. fst (clock i) = 0)"

lemma reached_append:
  "reached send c len (ks @ [k]) =
   reached send c len ks @ (if send (c + length ks) len < 0 then [] else [k])"
  by (induction ks arbitrary: c) auto

section \<open>What sending leaves alone\<close>

definition but_local :: "peer \<Rightarrow> peer" where
  "but_local p = p\<lparr>next_local_deadline := TIMESPEC_ZERO\<rparr>"

text \<open>Sending to peers moves their local deadlines and nothing else of the node.\<close>

definition sends_only :: "'c sys \<Rightarrow> 'c sys \<Rightarrow> bool" where
  "sends_only s t \<longleftrightarrow>
     t = s\<lparr>peers := peers t, clock_calls := clock_calls t, sendto_calls := sendto_calls t, trace := trace t\<rparr> \<and>
     map but_local (peers t) = map but_local (peers s)"

lemma sends_only_refl [simp]: "sends_only s s"
  by (simp add: sends_only_def)

lemma sends_only_trans:
  assumes "sends_only s t" and "sends_only t u"
  shows "sends_only s u"
proof -
  obtain p c n e where t: "t = s\<lparr>peers := p, clock_calls := c, sendto_calls := n, trace := e\<rparr>"
    using assms(1) unfolding sends_only_def by blast
  obtain p' c' n' e' where u: "u = t\<lparr>peers := p', clock_calls := c', sendto_calls := n', trace := e'\<rparr>"
    using assms(2) unfolding sends_only_def by blast
  show ?thesis using assms by (simp add: sends_only_def t u)
qed

lemma but_local_fields:
  "but_local p = but_local q \<Longrightarrow> p_address p = p_address q \<and> p_name p = p_name q \<and>
   num_links p = num_links q \<and> alive p = alive q \<and> next_remote_deadline p = next_remote_deadline q \<and>
   provided_content_hash p = provided_content_hash q \<and> tracked_content_hash p = tracked_content_hash q \<and>
   p_location p = p_location q"
  by (cases p; cases q) (simp add: but_local_def)

lemma but_local_nth:
  "map but_local ps = map but_local qs \<Longrightarrow> i < length qs \<Longrightarrow> but_local (ps ! i) = but_local (qs ! i)"
  by (metis length_map nth_map)

lemma but_local_map:
  assumes "map but_local ps = map but_local qs" and "\<And>p q. but_local p = but_local q \<Longrightarrow> f p = f q"
  shows "map f ps = map f qs"
proof (rule nth_equalityI)
  show "length (map f ps) = length (map f qs)" using assms(1) map_eq_imp_length_eq by simp blast
  then show "map f ps ! i = map f qs ! i" if "i < length (map f ps)" for i
    using that assms(2) [OF but_local_nth [OF assms(1), of i]] by simp
qed

lemma sends_only_fields:
  assumes "sends_only s t"
  shows "num_peers t = num_peers s" "num_trackers t = num_trackers s" "num_providers t = num_providers s"
    "trackers t = trackers s" "providers t = providers s" "socket t = socket s"
    "resources t = resources s" "mutex_locked t = mutex_locked s" "outgoing_buffer t = outgoing_buffer s"
    "length (peers t) = length (peers s)" "map p_address (peers t) = map p_address (peers s)"
    "sendto t = sendto s" "clock_gettime t = clock_gettime s" "address t = address s"
proof -
  obtain p c n e where t: "t = s\<lparr>peers := p, clock_calls := c, sendto_calls := n, trace := e\<rparr>"
    using assms unfolding sends_only_def by blast
  then show "num_peers t = num_peers s" "num_trackers t = num_trackers s" "num_providers t = num_providers s"
    "trackers t = trackers s" "providers t = providers s" "socket t = socket s"
    "resources t = resources s" "mutex_locked t = mutex_locked s" "outgoing_buffer t = outgoing_buffer s"
    "sendto t = sendto s" "clock_gettime t = clock_gettime s" "address t = address s"
    by simp_all
  have ps: "map but_local (peers t) = map but_local (peers s)" using assms by (simp add: sends_only_def)
  then show "length (peers t) = length (peers s)" by (rule map_eq_imp_length_eq)
  show "map p_address (peers t) = map p_address (peers s)"
    by (rule but_local_map [OF ps]) (auto dest: but_local_fields)
qed

lemma links_of_cong:
  "trackers t = trackers s \<Longrightarrow> providers t = providers s \<Longrightarrow> num_trackers t = num_trackers s \<Longrightarrow>
   num_providers t = num_providers s \<Longrightarrow> links_of k t = links_of k s"
  by (simp add: links_of_def)

lemma registered_sends_only:
  assumes "registered s" and "sends_only s t"
  shows "registered t"
proof -
  obtain p c n e where t: "t = s\<lparr>peers := p, clock_calls := c, sendto_calls := n, trace := e\<rparr>"
    using assms(2) unfolding sends_only_def by blast
  have ps: "map but_local p = map but_local (peers s)" using assms(2) by (simp add: sends_only_def t)
  have "length p = length (peers s)" using ps by (rule map_eq_imp_length_eq)
  moreover have "map p_address p = map p_address (peers s)" "map p_name p = map p_name (peers s)"
    by (auto intro!: but_local_map [OF ps] dest: but_local_fields)
  moreover from this have "wf_names p = wf_names (peers s)"
    unfolding wf_names_def by (metis (no_types, lifting) image_iff list.set_map)
  ultimately show ?thesis using assms(1)
    by (simp add: registered_def t wf_node_def wf_peers_def hash_table_def resource_of_def take_map [symmetric])
qed

lemma accounted_sends_only:
  assumes "accounted s" and "sends_only s t" and "wf_node s"
  shows "accounted t"
proof -
  have ps: "map but_local (peers t) = map but_local (peers s)" using assms(2) by (simp add: sends_only_def)
  have "num_links (peers t ! k) = num_links (peers s ! k)" if "k < num_peers s" for k
    using that but_local_nth [OF ps, of k] wf_nodeD(1,3) [OF assms(3)]
    by (auto simp: wf_peers_def dest!: but_local_fields)
  then show ?thesis using assms(1) sends_only_fields [OF assms(2)]
    by (simp add: accounted_def links_of_cong [of t s])
qed

lemma sends_only_sendto:
  "sys_sendto fd addr packet s = (n, t) \<Longrightarrow> sends_only s t"
  by (auto simp: sys_sendto_def sends_only_def Let_def)

lemma sends_only_clock: "sys_clock s = (ret, tm, t) \<Longrightarrow> sends_only s t"
  by (auto simp: sys_clock_def sends_only_def Let_def split: prod.splits)

lemma sends_only_deadline:
  "k < length (peers s) \<Longrightarrow> sends_only s (s\<lparr>peers := (peers s)[k := (peers s ! k)\<lparr>next_local_deadline := d\<rparr>]\<rparr>)"
  by (simp add: sends_only_def map_update_same but_local_def)

lemma peers_sendto: "sys_sendto fd addr packet s = (n, t) \<Longrightarrow> peers t = peers s"
  by (auto simp: sys_sendto_def Let_def)

lemma peers_clock: "sys_clock s = (ret, tm, t) \<Longrightarrow> peers t = peers s"
  by (auto simp: sys_clock_def Let_def split: prod.splits)

lemma post_body_keeps:
  assumes "sends_only s0 (snd (snd r))"
  shows "wpf UNIV (post_body packet links i r) (\<lambda>c. sends_only s0
    (case c of Continue r' \<Rightarrow> snd (snd r') | Break r' \<Rightarrow> snd (snd r')))"
proof -
  obtain ret returned s where r: "r = (ret, returned, s)" by (cases r)
  have s: "sends_only s0 s" using assms by (simp add: r)
  show ?thesis
  proof (cases "i < length links")
    case True
    show ?thesis
    proof (cases "links ! i")
      case (Some k)
      show ?thesis
      proof (cases "k < length (peers s)")
        case k: True
        obtain n t where send: "sys_sendto (socket s) (p_address (peers s ! k)) packet s = (n, t)" by fastforce
        obtain ret' tm u where clock: "sys_clock t = (ret', tm, u)" by (cases "sys_clock t") auto
        have t: "sends_only s0 t" using s sends_only_sendto [OF send] by (rule sends_only_trans)
        have u: "sends_only s0 u" using t sends_only_clock [OF clock] by (rule sends_only_trans)
        have "peers u = peers s" using peers_sendto [OF send] peers_clock [OF clock] by simp
        then have v: "sends_only s0 (u\<lparr>peers := (peers s)[k := (peers s ! k)\<lparr>next_local_deadline := d\<rparr>]\<rparr>)" for d
          using sends_only_trans [OF u sends_only_deadline [of k u d]] k by simp
        show ?thesis using True Some k send clock t u v peers_clock [OF clock] peers_sendto [OF send]
          by (simp add: r post_body_def c_assert_def)
      qed (simp add: r post_body_def True Some)
    qed (simp add: r post_body_def True)
  qed (simp add: r post_body_def)
qed

lemma post_loop_keeps:
  fixes s :: "'c sys"
  shows "wpf UNIV (for_loop (post_body packet links) 0 n (0, False, s)) (\<lambda>(ret, returned, t). sends_only s t)"
proof (rule wpf_for_loop [where P = "\<lambda>i r. sends_only s (snd (snd r))"])
  fix i and r :: "int \<times> bool \<times> 'c sys" assume "sends_only s (snd (snd r))"
  from post_body_keeps [OF this, of packet links i]
  show "wpf UNIV (post_body packet links i r) (\<lambda>c. case c of Continue t' \<Rightarrow> sends_only s (snd (snd t'))
      | Break t' \<Rightarrow> case t' of (ret, returned, t) \<Rightarrow> sends_only s t)"
    by (rule wpf_conseq) (auto split: ctl.splits)
qed auto

lemma wf_buffer_written:
  "wf_writer w \<Longrightarrow> w_size w = b_size b \<Longrightarrow> wf_buffer n b \<Longrightarrow> wf_buffer n (b_written w b)"
  "wf_writer w \<Longrightarrow> w_size w = b_size b \<Longrightarrow> wf_buffer n b \<Longrightarrow> wf_buffer n (b_store w b)"
  by (simp_all add: wf_buffer_def b_written_def b_store_def b_size_def wf_writer_def mpack_writer_buffer_used_def)

lemma registered_buffers:
  "registered s \<Longrightarrow> wf_buffer CONFIG_UCCN_OUTGOING_BUFFER_SIZE b \<Longrightarrow> registered (s\<lparr>outgoing_buffer := b\<rparr>)"
  "registered s \<Longrightarrow> registered (s\<lparr>content_buffer := c\<rparr>)"
  "registered s \<Longrightarrow> registered (s\<lparr>mutex_locked := l\<rparr>)"
  "registered s \<Longrightarrow> registered (s\<lparr>trace := tr\<rparr>)"
  "registered s \<Longrightarrow> registered (s\<lparr>clock_calls := cc\<rparr>)"
  by (simp_all add: registered_def wf_node_def hash_table_def resource_of_def)

lemma accounted_buffers [simp]:
  "accounted (s\<lparr>outgoing_buffer := b\<rparr>) = accounted s" "accounted (s\<lparr>content_buffer := c\<rparr>) = accounted s"
  "accounted (s\<lparr>mutex_locked := l\<rparr>) = accounted s" "accounted (s\<lparr>trace := tr\<rparr>) = accounted s"
  "accounted (s\<lparr>clock_calls := cc\<rparr>) = accounted s"
  by (simp_all add: accounted_def links_of_def)

section \<open>Posting, step by step\<close>

lemma post_locked_run:
  fixes s :: "'c sys"
  assumes "p < length (providers s)" and "\<not> mutex_locked s"
    and "res_pack (resource_of s (providers s ! p)) content (Some (content_buffer s)) = Inr (ret, packed, Some blob)"
    and "0 \<le> c_int ret" and "b_length blob \<le> b_size blob"
  defines "w \<equiv> fold write_item (content_items (res_hash (resource_of s (providers s ! p))) (b_contents blob))
      (mpack_writer_init (b_size (outgoing_buffer s)))"
    and "s2 \<equiv> s\<lparr>mutex_locked := True, content_buffer := (case packed of Some b \<Rightarrow> b | None \<Rightarrow> content_buffer s)\<rparr>"
  shows "post_locked p content s =
    (if w_error w \<noteq> mpack_ok then Inr (-1, mutex_unlock (s2\<lparr>outgoing_buffer := b_written w (outgoing_buffer s)\<rparr>))
     else rbind (for_loop (post_body (b_contents (b_written w (outgoing_buffer s))) (ep_peers (providers s ! p)))
         0 (ep_num_peers (providers s ! p)) (0, False, s2\<lparr>outgoing_buffer := b_written w (outgoing_buffer s)\<rparr>))
       (\<lambda>(ret, returned, t). Inr (ret, if returned then t else mutex_unlock t)))"
proof -
  have res: "resource_of (s\<lparr>mutex_locked := True\<rparr>) ep = resource_of s ep" for ep :: provider
    by (simp add: resource_of_def)
  show ?thesis using assms(1-5)
    by (cases packed) (simp_all add: post_locked_def mutex_lock_def res Let_def content_writer w_def s2_def
        blob_bytes_def mpack_writer_destroy_def split del: if_split cong: if_cong)
qed

lemma uccn_post_enters:
  "p < length (providers s) \<Longrightarrow> ep_num_peers (providers s ! p) > 0 \<Longrightarrow> uccn_post p content s = post_locked p content s"
  by (simp add: uccn_post_def)

lemmas uccn_post_run = trans [OF uccn_post_enters post_locked_run]

lemma sys_sendto_works:
  "datagrams (sendto s) \<Longrightarrow> sys_sendto fd addr packet s = (n, t) \<Longrightarrow>
   (n < 0 \<or> n = int (length packet)) \<and> t = s\<lparr>sendto_calls := sendto_calls s + 1,
     trace := trace s @ (if sendto s (sendto_calls s) (length packet) < 0 then [] else [Sent fd addr packet])\<rparr> \<and>
   n = sendto s (sendto_calls s) (length packet)"
  by (auto simp: sys_sendto_def datagrams_def Let_def)

lemma sys_clock_works:
  "clock_works (clock_gettime s) \<Longrightarrow> sys_clock s = (r, tm, t) \<Longrightarrow>
   r = 0 \<and> t = s\<lparr>clock_calls := clock_calls s + 1\<rparr> \<and> tm = snd (clock_gettime s (clock_calls s))"
  by (auto simp: sys_clock_def clock_works_def Let_def split: prod.splits) (metis fst_conv)

definition deliveries :: "'c sys \<Rightarrow> bytes \<Rightarrow> nat list \<Rightarrow> 'c event list" where
  "deliveries s packet ks = map (\<lambda>k. Sent (socket s) (p_address (peers s ! k)) packet)
     (reached (sendto s) (sendto_calls s) (length packet) ks)"

lemma deliveries_snoc:
  "deliveries s packet (ks @ [k]) = deliveries s packet ks @
   (if sendto s (sendto_calls s + length ks) (length packet) < 0 then []
    else [Sent (socket s) (p_address (peers s ! k)) packet])"
  by (simp add: deliveries_def reached_append)

lemma post_loop_total:
  fixes s :: "'c sys"
  assumes "datagrams (sendto s)" and "clock_works (clock_gettime s)"
    and "take n links = map Some ks" and "length ks = n" and "\<forall>k \<in> set ks. k < length (peers s)"
  shows "wpf {} (for_loop (post_body packet links) 0 n (0, False, s)) (\<lambda>(ret, returned, t).
    ret = (if deliveries s packet ks = [] then 0 else 1) \<and> \<not> returned \<and> sends_only s t \<and>
    trace t = trace s @ deliveries s packet ks)"
proof (rule wpf_for_loop [where P = "\<lambda>i (ret, returned, t).
    ret = (if deliveries s packet (take i ks) = [] then 0 else 1) \<and> \<not> returned \<and> sends_only s t \<and>
    sendto_calls t = sendto_calls s + i \<and> trace t = trace s @ deliveries s packet (take i ks)"])
  show "case (0, False, s) of (ret, returned, t) \<Rightarrow>
      ret = (if deliveries s packet (take 0 ks) = [] then 0 else 1) \<and> \<not> returned \<and> sends_only s t \<and>
      sendto_calls t = sendto_calls s + 0 \<and> trace t = trace s @ deliveries s packet (take 0 ks)"
    by (simp add: deliveries_def)
next
  fix i and r :: "int \<times> bool \<times> 'c sys"
  assume i: "i < n" and "case r of (ret, returned, t) \<Rightarrow>
    ret = (if deliveries s packet (take i ks) = [] then 0 else 1) \<and> \<not> returned \<and> sends_only s t \<and>
    sendto_calls t = sendto_calls s + i \<and> trace t = trace s @ deliveries s packet (take i ks)"
  then obtain t where r: "r = ((if deliveries s packet (take i ks) = [] then 0 else 1), False, t)"
    and t: "sends_only s t" "sendto_calls t = sendto_calls s + i" "trace t = trace s @ deliveries s packet (take i ks)"
    by (auto split: prod.splits)
  note same = sends_only_fields [OF t(1)]
  have link: "i < length links" "links ! i = Some (ks ! i)"
  proof -
    have "length (take n links) = n" using assms(3,4) by simp
    then show "i < length links" using i by simp
    then show "links ! i = Some (ks ! i)" using assms(3,4) i by (metis length_map nth_map nth_take)
  qed
  have k: "ks ! i < length (peers s)" using assms(4,5) i by simp
  have addr: "p_address (peers t ! (ks ! i)) = p_address (peers s ! (ks ! i))"
    using same(10,11) k by (metis nth_map)
  have snoc: "deliveries s packet (take (Suc i) ks) = deliveries s packet (take i ks) @
      (if sendto s (sendto_calls s + i) (length packet) < 0 then []
       else [Sent (socket s) (p_address (peers s ! (ks ! i))) packet])"
    using i assms(4) by (simp add: take_Suc_conv_app_nth deliveries_snoc min_def)
  obtain m u where send: "sys_sendto (socket t) (p_address (peers t ! (ks ! i))) packet t = (m, u)" by fastforce
  have works: "datagrams (sendto t)" "clock_works (clock_gettime t)" using assms(1,2) same by simp_all
  note u = sys_sendto_works [OF works(1) send]
  have "sends_only s u" using sends_only_trans [OF t(1) sends_only_sendto [OF send]] .
  obtain c tm v where clock: "sys_clock u = (c, tm, v)" by (cases "sys_clock u") auto
  have "clock_works (clock_gettime u)" using works(2) u by simp
  note v = sys_clock_works [OF this clock]
  have "sends_only s v" using sends_only_trans [OF \<open>sends_only s u\<close> sends_only_clock [OF clock]] .
  then have final: "sends_only s (v\<lparr>peers := (peers v)[ks ! i := (peers v ! (ks ! i))\<lparr>next_local_deadline := d\<rparr>]\<rparr>)" for d
    using sends_only_trans [OF \<open>sends_only s v\<close> sends_only_deadline] sends_only_fields [OF \<open>sends_only s v\<close>] k by simp
  have pv: "peers v = peers t" "peers u = peers t" using peers_clock [OF clock] peers_sendto [OF send] by simp_all
  show "wpf {} (post_body packet links i r) (\<lambda>c. case c of
      Continue r' \<Rightarrow> (case r' of (ret, returned, t) \<Rightarrow>
        ret = (if deliveries s packet (take (Suc i) ks) = [] then 0 else 1) \<and> \<not> returned \<and> sends_only s t \<and>
        sendto_calls t = sendto_calls s + Suc i \<and> trace t = trace s @ deliveries s packet (take (Suc i) ks))
    | Break r' \<Rightarrow> (case r' of (ret, returned, t) \<Rightarrow>
        ret = (if deliveries s packet ks = [] then 0 else 1) \<and> \<not> returned \<and> sends_only s t \<and>
        trace t = trace s @ deliveries s packet ks))"
  proof (cases "m < 0")
    case True
    then show ?thesis using link k same send u \<open>sends_only s u\<close> t
      by (simp add: r post_body_def snoc)
  next
    case False
    then have "m = int (length packet)" using u by blast
    then show ?thesis using False link k same send u clock v final t addr pv
      by (simp add: r post_body_def snoc)
  qed
qed (use assms(4) in auto)

section \<open>What posting does\<close>

text \<open>The peers an endpoint is linked to, in the order in which they are served.\<close>

definition linked_peers :: "'e endpoint_scheme \<Rightarrow> nat list" where
  "linked_peers ep = map the (linked ep)"

lemma linked_peers_eq:
  assumes "wf_endpoint ep"
  shows "take (ep_num_peers ep) (ep_peers ep) = map Some (linked_peers ep)"
    and "length (linked_peers ep) = ep_num_peers ep"
    and "\<forall>k \<in> set (linked_peers ep). k < CONFIG_UCCN_MAX_NUM_PEERS"
proof -
  have known: "\<forall>q \<in> set (linked ep). \<exists>k < CONFIG_UCCN_MAX_NUM_PEERS. q = Some k"
    using assms by (simp add: wf_endpoint_def)
  then show "take (ep_num_peers ep) (ep_peers ep) = map Some (linked_peers ep)"
    by (auto simp: linked_peers_def linked_def [symmetric] intro!: map_idI [symmetric])
  show "length (linked_peers ep) = ep_num_peers ep" using assms by (simp add: linked_peers_def)
  show "\<forall>k \<in> set (linked_peers ep). k < CONFIG_UCCN_MAX_NUM_PEERS" using known by (auto simp: linked_peers_def)
qed

text \<open>Posting with a provider that no peer is linked to does nothing.\<close>

lemma uccn_post_unlinked:
  assumes "wf_node s" and "p < num_providers s" and "linked_peers (providers s ! p) = []"
  shows "uccn_post p content s = Inr (0, s)"
proof -
  have "wf_endpoint (providers s ! p)" "p < length (providers s)"
    using assms(1,2) by (auto simp: wf_node_def wf_endpoints_def)
  then show ?thesis using assms(3) linked_peers_eq(2) by (fastforce simp: uccn_post_def post_locked_def)
qed

lemma post_deliveries:
  assumes "wf_node s" and "p < num_providers s" and "\<not> mutex_locked s"
    and "datagrams (sendto s)" and "clock_works (clock_gettime s)"
    and "res_pack (resource_of s (providers s ! p)) content (Some (content_buffer s)) = Inr (ret, packed, Some blob)"
    and "0 \<le> c_int ret" and "b_length blob \<le> b_size blob" and "b_length blob \<le> 500"
    and "linked_peers (providers s ! p) \<noteq> []"
  defines "packet \<equiv> content_packet (res_hash (resource_of s (providers s ! p))) (b_contents blob)"
  shows "wpf {} (uccn_post p content s) (\<lambda>(ret, s').
    trace s' = trace s @ deliveries s packet (linked_peers (providers s ! p)) \<and> \<not> mutex_locked s' \<and>
    address s' = address s \<and> ret = (if deliveries s packet (linked_peers (providers s ! p)) = [] then 0 else 1))"
proof -
  let ?ep = "providers s ! p"
  let ?items = "content_items (res_hash (resource_of s ?ep)) (b_contents blob)"
  let ?w = "fold write_item ?items (mpack_writer_init (b_size (outgoing_buffer s)))"
  let ?s = "s\<lparr>mutex_locked := True, content_buffer := (case packed of Some b \<Rightarrow> b | None \<Rightarrow> content_buffer s),
      outgoing_buffer := b_written ?w (outgoing_buffer s)\<rparr>"
  have ep: "wf_endpoint ?ep" and p: "p < length (providers s)"
    using assms(1,2) by (auto simp: wf_node_def wf_endpoints_def)
  note ks = linked_peers_eq [OF ep]
  have n: "ep_num_peers ?ep > 0" using assms(10) ks(2) by (metis length_greater_0_conv)
  have size: "b_size (outgoing_buffer s) = 512"
    using assms(1) by (simp add: wf_node_def wf_buffer_def b_size_def config_simps)
  have "length packet \<le> 512"
    unfolding packet_def by (rule content_packet_fits [OF assms(8,9)])
  then have ok: "w_error ?w = mpack_ok"
    using items.fold_ok_iff [of "mpack_writer_init (b_size (outgoing_buffer s))" ?items]
    by (simp add: size packet_def content_packet_def)
  have contents: "b_contents (b_written ?w (outgoing_buffer s)) = packet"
    using b_contents_written(1) [OF ok] by (simp add: packet_def content_packet_def)
  have "length (peers s) = CONFIG_UCCN_MAX_NUM_PEERS" using assms(1) by (simp add: wf_node_def wf_peers_def)
  then have "wpf {} (for_loop (post_body packet (ep_peers ?ep)) 0 (ep_num_peers ?ep) (0, False, ?s))
    (\<lambda>(ret, returned, t). ret = (if deliveries ?s packet (linked_peers ?ep) = [] then 0 else 1) \<and> \<not> returned \<and>
      sends_only ?s t \<and> trace t = trace ?s @ deliveries ?s packet (linked_peers ?ep))"
    using assms(4,5) ks by (intro post_loop_total) simp_all
  moreover have "deliveries ?s packet = deliveries s packet" by (simp add: fun_eq_iff deliveries_def)
  ultimately obtain r t where run: "for_loop (post_body packet (ep_peers ?ep)) 0 (ep_num_peers ?ep) (0, False, ?s) = Inr (r, False, t)"
    and r: "r = (if deliveries s packet (linked_peers ?ep) = [] then 0 else 1)"
    and t: "sends_only ?s t" "trace t = trace s @ deliveries s packet (linked_peers ?ep)"
    by (auto simp: wpf_total)
  have "address t = address s" using sends_only_fields(14) [OF t(1)] by simp
  then show ?thesis
    unfolding uccn_post_run [OF p n p assms(3) assms(6-8)] packet_def [symmetric]
    using r t(2) by (simp add: ok contents mutex_unlock_def run)
qed

text \<open>
  C13: Posting sends one packet with the resource's hash and the packed content to every linked
  peer that \<open>sendto\<close> can reach, in order, and answers 1 when there is one and 0 otherwise.
\<close>

theorem uccn_post_delivers:
  assumes "wf_node s" and "p < num_providers s" and "\<not> mutex_locked s"
    and "datagrams (sendto s)" and "clock_works (clock_gettime s)"
    and "res_pack (resource_of s (providers s ! p)) content (Some (content_buffer s)) = Inr (ret, packed, Some blob)"
    and "0 \<le> c_int ret" and "b_length blob \<le> b_size blob" and "b_length blob \<le> 500"
    and "linked_peers (providers s ! p) \<noteq> []"
  defines "packet \<equiv> content_packet (res_hash (resource_of s (providers s ! p))) (b_contents blob)"
  shows "wpf {} (uccn_post p content s) (\<lambda>(ret, s').
    trace s' = trace s @ deliveries s packet (linked_peers (providers s ! p)) \<and> \<not> mutex_locked s' \<and>
    ret = (if deliveries s packet (linked_peers (providers s ! p)) = [] then 0 else 1))"
  unfolding packet_def by (rule wpf_conseq [OF post_deliveries [OF assms(1-10)]]) auto

text \<open>A content that does not fit into a packet is refused, and nothing is sent.\<close>

theorem uccn_post_too_big:
  assumes "wf_node s" and "p < num_providers s" and "\<not> mutex_locked s"
    and "res_pack (resource_of s (providers s ! p)) content (Some (content_buffer s)) = Inr (ret, packed, Some blob)"
    and "0 \<le> c_int ret" and "b_length blob \<le> b_size blob"
    and "512 < length (content_packet (res_hash (resource_of s (providers s ! p))) (b_contents blob))"
    and "linked_peers (providers s ! p) \<noteq> []"
  shows "\<exists>s'. uccn_post p content s = Inr (-1, s') \<and> trace s' = trace s \<and> peers s' = peers s \<and> \<not> mutex_locked s'"
proof -
  let ?ep = "providers s ! p"
  let ?items = "content_items (res_hash (resource_of s ?ep)) (b_contents blob)"
  have ep: "wf_endpoint ?ep" and p: "p < length (providers s)"
    using assms(1,2) by (auto simp: wf_node_def wf_endpoints_def)
  have n: "ep_num_peers ?ep > 0" using assms(8) linked_peers_eq(2) [OF ep] by (metis length_greater_0_conv)
  have size: "b_size (outgoing_buffer s) = 512"
    using assms(1) by (simp add: wf_node_def wf_buffer_def b_size_def config_simps)
  have "w_error (fold write_item ?items (mpack_writer_init (b_size (outgoing_buffer s)))) \<noteq> mpack_ok"
    using items.fold_ok_iff [of "mpack_writer_init (b_size (outgoing_buffer s))" ?items] assms(7)
    by (simp add: size content_packet_def)
  then show ?thesis
    unfolding uccn_post_run [OF p n p assms(3) assms(4-6)] by (simp add: mutex_unlock_def)
qed

text \<open>
  When the clock fails after the first packet has been sent, posting returns with the node's
  mutex held: the next registration or post with a linked provider deadlocks.
\<close>

theorem uccn_post_clock_failure_locks:
  assumes "wf_node s" and "p < num_providers s" and "\<not> mutex_locked s" and "datagrams (sendto s)"
    and "res_pack (resource_of s (providers s ! p)) content (Some (content_buffer s)) = Inr (ret, packed, Some blob)"
    and "0 \<le> c_int ret" and "b_length blob \<le> b_size blob" and "b_length blob \<le> 500"
    and "linked_peers (providers s ! p) \<noteq> []"
    and "\<forall>len. sendto s (sendto_calls s) len \<ge> 0" and "fst (clock_gettime s (clock_calls s)) = -1"
  shows "\<exists>s'. uccn_post p content s = Inr (-1, s') \<and> mutex_locked s' \<and> uccn_post p content s' = Inl Deadlock"
proof -
  let ?ep = "providers s ! p"
  let ?items = "content_items (res_hash (resource_of s ?ep)) (b_contents blob)"
  let ?w = "fold write_item ?items (mpack_writer_init (b_size (outgoing_buffer s)))"
  let ?packet = "b_contents (b_written ?w (outgoing_buffer s))"
  let ?s = "s\<lparr>mutex_locked := True, content_buffer := (case packed of Some b \<Rightarrow> b | None \<Rightarrow> content_buffer s),
      outgoing_buffer := b_written ?w (outgoing_buffer s)\<rparr>"
  have ep: "wf_endpoint ?ep" and p: "p < length (providers s)"
    using assms(1,2) by (auto simp: wf_node_def wf_endpoints_def)
  note ks = linked_peers_eq [OF ep]
  have n: "ep_num_peers ?ep > 0" using assms(9) ks(2) by (metis length_greater_0_conv)
  have first: "take (ep_num_peers ?ep) (ep_peers ?ep) ! 0 = Some (linked_peers ?ep ! 0)"
    using n ks(1,2) by simp
  have "linked_peers ?ep ! 0 \<in> set (linked_peers ?ep)" using assms(9) by (intro nth_mem) simp
  then have k: "linked_peers ?ep ! 0 < length (peers s)" using ks(3) assms(1) by (simp add: wf_node_def wf_peers_def)
  have size: "b_size (outgoing_buffer s) = 512"
    using assms(1) by (simp add: wf_node_def wf_buffer_def b_size_def config_simps)
  have "length (content_packet (res_hash (resource_of s ?ep)) (b_contents blob)) \<le> 512"
    by (rule content_packet_fits [OF assms(7,8)])
  then have ok: "w_error ?w = mpack_ok"
    using items.fold_ok_iff [of "mpack_writer_init (b_size (outgoing_buffer s))" ?items]
    by (simp add: size content_packet_def)
  have len: "sendto s (sendto_calls s) (length ?packet) = int (length ?packet)"
    using assms(4,10) unfolding datagrams_def by (metis not_less)
  have "\<exists>t. post_body ?packet (ep_peers ?ep) 0 (0, False, ?s) = Inr (Break (-1, True, t)) \<and> mutex_locked t \<and>
      providers t = providers s"
    using first n k len assms(11) ep
    by (auto simp: post_body_def wf_endpoint_def sys_sendto_def sys_clock_def Let_def split: prod.splits)
  then obtain t where t: "post_body ?packet (ep_peers ?ep) 0 (0, False, ?s) = Inr (Break (-1, True, t))"
      "mutex_locked t" "providers t = providers s" by blast
  have "uccn_post p content s = Inr (-1, t)"
    unfolding uccn_post_run [OF p n p assms(3) assms(5-7)] using n t(1) by (simp add: ok for_loop_step)
  moreover have "uccn_post p content t = Inl Deadlock"
    using t(2,3) p n by (simp add: uccn_post_def post_locked_def mutex_lock_def)
  ultimately show ?thesis using t(2) by blast
qed

text \<open>What a post leaves alone.\<close>

definition post_frame :: "'c sys \<Rightarrow> 'c sys \<Rightarrow> bool" where
  "post_frame s t \<longleftrightarrow> trackers t = trackers s \<and> num_trackers t = num_trackers s \<and> resources t = resources s \<and>
     socket t = socket s \<and> broadcast_socket t = broadcast_socket s \<and> stop_event t = stop_event s \<and>
     clock_gettime t = clock_gettime s \<and> pselect t = pselect s \<and> providers t = providers s \<and>
     node_name t = node_name s"

lemma post_frame_sends_only:
  assumes "sends_only s t"
  shows "post_frame s t"
proof -
  obtain p c n e where "t = s\<lparr>peers := p, clock_calls := c, sendto_calls := n, trace := e\<rparr>"
    using assms unfolding sends_only_def by blast
  then show ?thesis by (simp add: post_frame_def)
qed

lemma post_frame_updates [simp]:
  "post_frame s (t\<lparr>mutex_locked := l\<rparr>) = post_frame s t" "post_frame s (t\<lparr>content_buffer := c\<rparr>) = post_frame s t"
  "post_frame s (t\<lparr>outgoing_buffer := b\<rparr>) = post_frame s t" "post_frame (s\<lparr>mutex_locked := l\<rparr>) t = post_frame s t"
  "post_frame (s\<lparr>content_buffer := c\<rparr>) t = post_frame s t" "post_frame (s\<lparr>outgoing_buffer := b\<rparr>) t = post_frame s t"
  "post_frame s s"
  by (simp_all add: post_frame_def)

text \<open>A node after a part of a post: in order, with balanced books, and otherwise the same.\<close>

definition post_kept :: "'c sys \<Rightarrow> 'c sys \<Rightarrow> bool" where
  "post_kept s t \<longleftrightarrow> registered t \<and> (accounted s \<longrightarrow> accounted t) \<and> post_frame s t"

lemma post_kept_refl: "registered s \<Longrightarrow> post_kept s s"
  by (simp add: post_kept_def)

lemma post_kept_updates:
  assumes "post_kept s t"
  shows "post_kept s (t\<lparr>mutex_locked := l\<rparr>)" "post_kept s (t\<lparr>content_buffer := c\<rparr>)"
    "wf_buffer CONFIG_UCCN_OUTGOING_BUFFER_SIZE b \<Longrightarrow> post_kept s (t\<lparr>outgoing_buffer := b\<rparr>)"
  using assms by (simp_all add: post_kept_def registered_buffers)

lemma post_kept_loop:
  assumes "post_kept s t"
  shows "wpf UNIV (for_loop (post_body packet links) 0 n (0, False, t)) (\<lambda>(ret, returned, u). post_kept s u)"
proof (rule wpf_conseq [OF post_loop_keeps], clarify)
  fix ret returned u assume u: "sends_only t u"
  have "post_frame s u" using post_frame_sends_only [OF u] assms by (simp add: post_kept_def post_frame_def)
  then show "post_kept s u"
    using registered_sends_only [OF _ u] accounted_sends_only [OF _ u] assms by (simp add: post_kept_def registered_def)
qed

lemma post_packed_keeps:
  assumes "registered s" and "p < length (providers s)" and "\<not> mutex_locked s"
    and "res_pack (resource_of s (providers s ! p)) content (Some (content_buffer s)) = Inr (ret, packed, Some blob)"
    and "0 \<le> c_int ret" and "b_length blob \<le> b_size blob"
  shows "wpf UNIV (post_locked p content s) (\<lambda>(ret, t). post_kept s t)"
proof -
  let ?w = "fold write_item (content_items (res_hash (resource_of s (providers s ! p))) (b_contents blob))
    (mpack_writer_init (b_size (outgoing_buffer s)))"
  let ?t = "s\<lparr>mutex_locked := True, content_buffer := (case packed of Some b \<Rightarrow> b | None \<Rightarrow> content_buffer s),
    outgoing_buffer := b_written ?w (outgoing_buffer s)\<rparr>"
  have "wf_buffer CONFIG_UCCN_OUTGOING_BUFFER_SIZE (outgoing_buffer s)"
    using assms(1) by (simp add: registered_def wf_node_def)
  then have t: "post_kept s ?t"
    by (intro post_kept_updates post_kept_refl assms(1) wf_buffer_written(1) [OF written_wf written_size])
  have "wpf UNIV (for_loop (post_body packet links) 0 n (0, False, ?t)) (\<lambda>x. wpf UNIV
      (case x of (ret, returned, t) \<Rightarrow> Inr (ret, if returned then t else mutex_unlock t)) (\<lambda>(ret, t). post_kept s t))"
    for packet links n
    by (rule wpf_conseq [OF post_kept_loop [OF t]]) (auto simp: mutex_unlock_def post_kept_updates)
  then show ?thesis
    using post_kept_updates(1) [OF t, of False] by (subst post_locked_run [OF assms(2-6)]) (simp_all add: mutex_unlock_def)
qed

text \<open>
  Whatever the resource, the clock and the network answer, a post that returns keeps the
  node's memory, its tables and the accounting of links.
\<close>

lemma post_locked_keeps:
  assumes "registered s"
  shows "wpf UNIV (post_locked p content s) (\<lambda>(ret, s'). registered s' \<and> (accounted s \<longrightarrow> accounted s') \<and>
    post_frame s s')"
proof (cases "p < length (providers s) \<and> \<not> mutex_locked s")
  case False
  then show ?thesis using assms by (cases "p < length (providers s)") (auto simp: post_locked_def mutex_lock_def)
next
  case True
  let ?ep = "providers s ! p" and ?s = "s\<lparr>mutex_locked := True\<rparr>"
  show ?thesis
  proof (cases "res_pack (resource_of ?s ?ep) content (Some (content_buffer ?s))")
    case (Inl e)
    then show ?thesis using True by (simp add: post_locked_def mutex_lock_def Let_def)
  next
    case (Inr r)
    obtain ret packed blob where r: "r = (ret, packed, blob)" by (cases r)
    show ?thesis
    proof (cases "0 \<le> c_int ret \<and> (\<exists>b. blob = Some b \<and> b_length b \<le> b_size b)")
      case fits: True
      then obtain b where b: "blob = Some b" "b_length b \<le> b_size b" by blast
      have "res_pack (resource_of s ?ep) content (Some (content_buffer s)) = Inr (ret, packed, Some b)"
        using Inr r b(1) by (simp add: resource_of_def)
      from post_packed_keeps [OF assms _ _ this _ b(2)] True fits show ?thesis by (simp add: post_kept_def)
    next
      case no_blob: False
      let ?c = "case packed of Some b \<Rightarrow> b | None \<Rightarrow> content_buffer ?s"
      let ?w = "fold write_item (butlast (content_items (res_hash (resource_of ?s ?ep)) [])) (mpack_writer_init (b_size (outgoing_buffer s)))"
      have w: "mpack_write_u32 (res_hash (resource_of ?s ?ep)) (mpack_start_map 1 (mpack_write_u8 UCCN_CONTENT_GROUP
          (mpack_start_map 1 (mpack_writer_init (b_size (outgoing_buffer s)))))) = ?w"
        by (simp add: content_items_def)
      have "wf_buffer CONFIG_UCCN_OUTGOING_BUFFER_SIZE (outgoing_buffer s)"
        using assms by (simp add: registered_def wf_node_def)
      then have kept: "post_kept s (mutex_unlock (?s\<lparr>content_buffer := ?c, outgoing_buffer := b_store ?w (outgoing_buffer s)\<rparr>))"
        unfolding mutex_unlock_def
        by (intro post_kept_updates post_kept_refl assms wf_buffer_written(2) [OF written_wf written_size])
      consider "c_int ret < 0" | "0 \<le> c_int ret" "blob = None" | b where "0 \<le> c_int ret" "blob = Some b" "\<not> b_length b \<le> b_size b"
        using no_blob by force
      then show ?thesis
      proof cases
        case 1
        then show ?thesis using True Inr kept
          by (simp add: post_locked_def mutex_lock_def r w Let_def post_kept_def split del: if_split)
      qed (use True Inr in \<open>simp_all add: post_locked_def mutex_lock_def r Let_def blob_bytes_def\<close>)
    qed
  qed
qed

lemma uccn_post_keeps:
  assumes "registered s"
  shows "wpf UNIV (uccn_post p content s) (\<lambda>(ret, s'). registered s' \<and> (accounted s \<longrightarrow> accounted s') \<and>
    post_frame s s')"
  using post_locked_keeps [OF assms] assms by (cases "p < length (providers s)") (simp_all add: uccn_post_def)

end
