(* ===== verification/Packets.thy ===== *)
theory Packets
  imports Post
begin

text \<open>
  The packets of \<open>src/uccn.c\<close>: \<open>uccn_prepare_keepalive_packet\<close>, \<open>uccn_prepare_discovery_packet\<close>,
  \<open>uccn_process_content_blob\<close>, \<open>uccn_process_content_group\<close>, \<open>uccn_process_link_group\<close> and
  \<open>uccn_process_packet\<close>.

  A local array that is filled from the front and never read past its count is the list of its
  elements with its capacity checked at every store (\<open>push\<close>). A callback of a tracker is an event
  of the trace; what the callback itself does to the node is not modelled.
\<close>

definition push :: "nat \<Rightarrow> 'a list \<Rightarrow> 'a \<Rightarrow> 'a list result" where
  "push capacity xs x = (if length xs < capacity then Inr (xs @ [x]) else Inl Out_Of_Bounds)"

section \<open>Packets a node sends\<close>

definition uccn_prepare_keepalive_packet :: "buffer \<Rightarrow> int \<times> buffer" where
  "uccn_prepare_keepalive_packet packet =
     (let w = mpack_write_nil (mpack_writer_init (b_size packet)) in
      (if mpack_writer_destroy w \<noteq> mpack_ok then -1 else 0, b_written w packet))"

definition discovery_body :: "'c sys \<Rightarrow> nat \<Rightarrow> u32 list \<Rightarrow> u32 list ctl result" where
  "discovery_body s i hashes =
     rbind (arr_get (trackers s) i) (\<lambda>endpoint.
     if ep_num_peers endpoint = 0 then
       rbind (push CONFIG_UCCN_MAX_NUM_TRACKERS hashes (res_hash (resource_of s endpoint)))
         (\<lambda>hashes. Inr (Continue hashes))
     else Inr (Continue hashes))"

definition uccn_prepare_discovery_packet :: "'c sys \<Rightarrow> buffer \<Rightarrow> (int \<times> buffer) result" where
  "uccn_prepare_discovery_packet s packet =
     (let w = mpack_writer_init (b_size packet);
          w = mpack_start_map 1 w;
          w = mpack_write_u8 UCCN_LINK_GROUP w;
          w = mpack_start_map 2 w;
          w = mpack_write_u8 UCCN_NODE_NAME w
      in
      rbind (mpack_write_cstr (node_name s) w) (\<lambda>w.
      let w = mpack_write_u8 UCCN_TRACKED_ARRAY w in
      rbind (for_loop (discovery_body s) 0 (num_trackers s) []) (\<lambda>hashes.
      let w = mpack_start_array (word_of_nat (length hashes)) w;
          w = fold mpack_write_u32 hashes w
      in Inr (if mpack_writer_destroy w \<noteq> mpack_ok then -1 else 0, b_written w packet))))"

section \<open>Contents\<close>

definition uccn_process_content_blob :: "nat \<Rightarrow> u32 \<Rightarrow> buffer \<Rightarrow> 'c sys \<Rightarrow> (int \<times> 'c sys) result" where
  "uccn_process_content_blob peer hash blob s =
     rbind (scan (\<lambda>i t. if res_hash (resource_of s t) = hash then Some i else None)
              (num_trackers s) (trackers s)) (\<lambda>found.
     case found of None \<Rightarrow> Inr (0, s)
     | Some i \<Rightarrow>
         rbind (arr_get (trackers s) i) (\<lambda>t.
         rbind (res_unpack (resource_of s t) blob None) (\<lambda>(ret, content).
         if c_int ret < 0 then Inr (c_int ret, s)
         else
           let s = s\<lparr>trace := trace s @ [Tracked i (tr_track t) (tr_arg t) content]\<rparr> in
           rbind (uccn_link t peer (peers s)) (\<lambda>(ret, t, ps).
           Inr (ret, s\<lparr>trackers := (trackers s)[i := t], peers := ps\<rparr>)))))"

definition content_group_body :: "nat \<Rightarrow> nat \<Rightarrow> int \<times> mpack_reader \<times> 'c sys \<Rightarrow>
    (int \<times> mpack_reader \<times> 'c sys) ctl result" where
  "content_group_body peer i = (\<lambda>(ret, r, s).
     let (hash, r) = mpack_expect_u32 r in
     if hash = 0 then Inr (Break (-1, r, s))
     else
       let (len, r) = mpack_expect_bin r in
       if len = 0 then Inr (Break (-1, r, s))
       else
         let (data, r) = mpack_read_bytes_inplace r (unat len) in
         case data of None \<Rightarrow> Inr (Break (-1, r, s))
         | Some bs \<Rightarrow>
             rbind (uccn_process_content_blob peer hash (raw_buffer bs) s) (\<lambda>(ret, s).
             if ret \<noteq> 0 then Inr (Break (ret, r, s)) else Inr (Continue (ret, r, s))))"

definition uccn_process_content_group :: "nat \<Rightarrow> mpack_reader \<Rightarrow> 'c sys \<Rightarrow>
    (int \<times> mpack_reader \<times> 'c sys) result" where
  "uccn_process_content_group peer r s =
     (let (ok, group_size, r) = mpack_expect_map_or_nil r in
      if ok then for_loop (content_group_body peer) 0 (unat group_size) (0, r, s) else Inr (0, r, s))"

section \<open>Links\<close>

text \<open>Reading an array of hashes behind those there are: the flag says that one was missing.\<close>

definition read_hash_body :: "nat \<Rightarrow> bool \<times> mpack_reader \<times> u32 list \<Rightarrow>
    (bool \<times> mpack_reader \<times> u32 list) ctl result" where
  "read_hash_body j = (\<lambda>(missing, r, hashes).
     let (hash, r) = mpack_expect_u32 r in
     if hash = 0 then Inr (Break (True, r, hashes))
     else rbind (push CONFIG_UCCN_MAX_NUM_RESOURCES hashes hash) (\<lambda>hashes.
       Inr (Continue (missing, r, hashes))))"

text \<open>
  Linking a peer for each of the first \<open>n\<close> hashes, over the last return value, the node, the hashes
  that made links and whether a link failed.
\<close>

definition relink_body :: "(nat \<Rightarrow> u32 \<Rightarrow> 'c sys \<Rightarrow> (int \<times> 'c sys) result) \<Rightarrow> nat \<Rightarrow> u32 list \<Rightarrow> nat \<Rightarrow>
    int \<times> 'c sys \<times> u32 list \<times> bool \<Rightarrow> (int \<times> 'c sys \<times> u32 list \<times> bool) ctl result" where
  "relink_body link peer hashes j = (\<lambda>(ret, s, made, failed).
     rbind (arr_get hashes j) (\<lambda>hash.
     rbind (link peer hash s) (\<lambda>(ret, s).
     if ret < 0 then Inr (Break (ret, s, made, True))
     else if ret > 0 then
       rbind (push CONFIG_UCCN_MAX_NUM_RESOURCES made hash) (\<lambda>made. Inr (Continue (ret, s, made, failed)))
     else Inr (Continue (ret, s, made, failed)))))"

definition set_peer :: "nat \<Rightarrow> (peer \<Rightarrow> peer) \<Rightarrow> 'c sys \<Rightarrow> 'c sys result" where
  "set_peer k f s = rbind (arr_get (peers s) k) (\<lambda>p. Inr (s\<lparr>peers := (peers s)[k := f p]\<rparr>))"

text \<open>What the two array cases do when the checksum of the hashes is new.\<close>

definition relink :: "(nat \<Rightarrow> 'c sys \<Rightarrow> (int \<times> 'c sys) result) \<Rightarrow>
    (nat \<Rightarrow> u32 \<Rightarrow> 'c sys \<Rightarrow> (int \<times> 'c sys) result) \<Rightarrow> (peer \<Rightarrow> peer) \<Rightarrow> nat \<Rightarrow> u32 list \<Rightarrow> nat \<Rightarrow>
    'c sys \<Rightarrow> u32 list \<Rightarrow> (int \<times> 'c sys \<times> u32 list \<times> bool) result" where
  "relink unlink link checksummed peer hashes n s made =
     rbind (unlink peer s) (\<lambda>(ret, s).
     if ret < 0 then Inr (ret, s, made, True)
     else
       rbind (for_loop (relink_body link peer hashes) 0 n (ret, s, made, False)) (\<lambda>(ret, s, made, failed).
       if failed then Inr (ret, s, made, True)
       else rbind (set_peer peer checksummed s) (\<lambda>s. Inr (ret, s, made, False))))"

text \<open>The variables of \<open>uccn_process_link_group\<close> that live across turns of its loop.\<close>

record 'c link_group =
  lg_ret :: int
  lg_reader :: mpack_reader
  lg_node :: "'c sys"
  lg_hashes :: "u32 list"
  lg_provided :: "u32 list"
  lg_tracked :: "u32 list"
  lg_returned :: bool

definition link_group_body :: "nat \<Rightarrow> nat \<Rightarrow> 'c link_group \<Rightarrow> 'c link_group ctl result" where
  "link_group_body peer i g =
     (let (data_code, r) = mpack_expect_u8 (lg_reader g); s = lg_node g in
      if data_code = UCCN_NODE_NAME then
        rbind (arr_get (peers s) peer) (\<lambda>p.
        let (name, r) = mpack_expect_cstr r (p_name p) in
        Inr (Continue (g\<lparr>lg_reader := r, lg_node := s\<lparr>peers := (peers s)[peer := p\<lparr>p_name := name\<rparr>]\<rparr>\<rparr>)))
      else if data_code = UCCN_PROVIDED_ARRAY then
        let (ok, array_size, r) = mpack_expect_array_max_or_nil (word_of_nat CONFIG_UCCN_MAX_NUM_RESOURCES) r in
        if \<not> ok then Inr (Continue (g\<lparr>lg_reader := r\<rparr>))
        else
          rbind (for_loop read_hash_body 0 (unat array_size) (False, r, lg_hashes g)) (\<lambda>(missing, r, hashes).
          let g = g\<lparr>lg_reader := r, lg_hashes := hashes\<rparr> in
          if missing then Inr (Break (g\<lparr>lg_ret := -1, lg_returned := True\<rparr>))
          else
            let hash = content_hash hashes in
            rbind (arr_get (peers s) peer) (\<lambda>p.
            if provided_content_hash p = hash then Inr (Continue g)
            else
              rbind (relink uccn_unlink_trackers uccn_link_trackers
                (\<lambda>p. p\<lparr>provided_content_hash := hash\<rparr>) peer hashes (length hashes) s (lg_tracked g))
                (\<lambda>(ret, s, made, failed).
              let g = g\<lparr>lg_ret := ret, lg_node := s, lg_tracked := made\<rparr> in
              Inr (if failed then Break (g\<lparr>lg_returned := True\<rparr>) else Continue g))))
      else if data_code = UCCN_TRACKED_ARRAY then
        let (ok, array_size, r) = mpack_expect_array_max_or_nil (word_of_nat CONFIG_UCCN_MAX_NUM_RESOURCES) r in
        if \<not> ok then Inr (Continue (g\<lparr>lg_reader := r\<rparr>))
        else
          rbind (for_loop read_hash_body 0 (unat array_size) (False, r, lg_hashes g)) (\<lambda>(missing, r, hashes).
          let g = g\<lparr>lg_reader := r, lg_hashes := hashes\<rparr> in
          if missing then Inr (Break (g\<lparr>lg_ret := -1, lg_returned := True\<rparr>))
          else
            let hash = content_hash hashes in
            rbind (arr_get (peers s) peer) (\<lambda>p.
            if tracked_content_hash p = hash then Inr (Continue g)
            else
              rbind (relink uccn_unlink_providers uccn_link_providers
                (\<lambda>p. p\<lparr>tracked_content_hash := hash\<rparr>) peer hashes (unat array_size) s (lg_provided g))
                (\<lambda>(ret, s, made, failed).
              let g = g\<lparr>lg_ret := ret, lg_node := s, lg_provided := made\<rparr> in
              Inr (if failed then Break (g\<lparr>lg_returned := True\<rparr>) else Continue g))))
      else Inr (Break (g\<lparr>lg_reader := r, lg_ret := -1, lg_returned := True\<rparr>)))"

text \<open>The reply: the two arrays are written from their ends (\<open>tracked_hashes[--num_tracked_hashes]\<close>).\<close>

definition write_hashes :: "u8 \<Rightarrow> u32 list \<Rightarrow> mpack_writer \<Rightarrow> mpack_writer" where
  "write_hashes code hashes w =
     (if length hashes > 0 then
        let w = mpack_write_u8 code w;
            w = mpack_start_array (word_of_nat (length hashes)) w
        in fold mpack_write_u32 (rev hashes) w
      else w)"

definition link_reply :: "bytes \<Rightarrow> u32 list \<Rightarrow> u32 list \<Rightarrow> mpack_writer \<Rightarrow> mpack_writer result" where
  "link_reply name tracked provided w =
     (let group_size = (if length tracked > 0 then 1 else 0) + (if length provided > 0 then 1 else 0) in
      if group_size > 0 then
        let w = mpack_start_map 1 w;
            w = mpack_write_u8 UCCN_LINK_GROUP w;
            w = mpack_start_map (group_size + 1) w;
            w = mpack_write_u8 UCCN_NODE_NAME w
        in
        rbind (mpack_write_cstr name w) (\<lambda>w.
        Inr (write_hashes UCCN_PROVIDED_ARRAY provided (write_hashes UCCN_TRACKED_ARRAY tracked w)))
      else Inr w)"

definition uccn_process_link_group :: "nat \<Rightarrow> mpack_reader \<Rightarrow> mpack_writer \<Rightarrow> 'c sys \<Rightarrow>
    (int \<times> mpack_reader \<times> mpack_writer \<times> 'c sys) result" where
  "uccn_process_link_group peer r w s =
     (let (ok, group_size, r) = mpack_expect_map_max_or_nil UCCN_MAX_NUM_LINK_DATA r;
          g = \<lparr>lg_ret = 0, lg_reader = r, lg_node = s, lg_hashes = [], lg_provided = [],
               lg_tracked = [], lg_returned = False\<rparr>
      in
      rbind (if ok then for_loop (link_group_body peer) 0 (unat group_size) g else Inr g) (\<lambda>g.
      if lg_returned g then Inr (lg_ret g, lg_reader g, w, lg_node g)
      else
        rbind (link_reply (node_name (lg_node g)) (lg_tracked g) (lg_provided g) w) (\<lambda>w.
        Inr (lg_ret g, lg_reader g, w, lg_node g))))"

section \<open>Packets a node receives\<close>

definition process_packet_body :: "nat \<Rightarrow> nat \<Rightarrow> int \<times> mpack_reader \<times> 'c sys \<Rightarrow>
    (int \<times> mpack_reader \<times> 'c sys) ctl result" where
  "process_packet_body peer i = (\<lambda>(ret, r, s).
     if ret \<noteq> 0 then Inr (Break (ret, r, s))
     else
       let (group_code, r) = mpack_expect_u8 r in
       if group_code = UCCN_CONTENT_GROUP then
         rbind (uccn_process_content_group peer r s) (\<lambda>(ret, r, s).
         Inr (Continue (ret, r, s\<lparr>outgoing_buffer := (outgoing_buffer s)\<lparr>b_length := 0\<rparr>\<rparr>)))
       else if group_code = UCCN_LINK_GROUP then
         let w = mpack_writer_init (b_size (outgoing_buffer s)) in
         rbind (uccn_process_link_group peer r w s) (\<lambda>(ret, r, w, s).
         Inr (Continue (if mpack_writer_destroy w \<noteq> mpack_ok then -1 else ret, r,
           s\<lparr>outgoing_buffer := b_written w (outgoing_buffer s)\<rparr>)))
       else Inr (Continue (-1, r, s)))"

definition uccn_process_packet :: "nat \<Rightarrow> buffer \<Rightarrow> 'c sys \<Rightarrow> (int \<times> 'c sys) result" where
  "uccn_process_packet peer incoming s =
     (let r = mpack_reader_init_data (b_contents incoming);
          (ok, group_count, r) = mpack_expect_map_max_or_nil UCCN_MAX_NUM_GROUPS r
      in
      rbind (if ok then for_loop (process_packet_body peer) 0 (unat group_count) (0, r, s)
             else Inr (0, r, s)) (\<lambda>(ret, r, s).
      Inr (if mpack_reader_destroy r \<noteq> mpack_ok then -1 else ret, s)))"

section \<open>What processing a packet keeps\<close>

text \<open>
  The state after a step of packet processing for a registered peer, against the state before it.
\<close>

definition keeps :: "'c sys \<Rightarrow> 'c sys \<Rightarrow> bool" where
  "keeps s s' \<longleftrightarrow> registered s' \<and> num_peers s' = num_peers s \<and> resources s' = resources s \<and>
     mutex_locked s' = mutex_locked s \<and> (accounted s \<longrightarrow> accounted s') \<and>
     same_endpoints (trackers s) (trackers s') \<and> same_endpoints (providers s) (providers s') \<and>
     map p_address (peers s') = map p_address (peers s)"

lemma keeps_refl: "registered s \<Longrightarrow> keeps s s"
  by (simp add: keeps_def)

lemma keeps_trans: "keeps s s' \<Longrightarrow> keeps s' s'' \<Longrightarrow> keeps s s''"
  by (simp add: keeps_def same_endpoints_def)

lemma keepsD: "keeps s s' \<Longrightarrow> registered s' \<and> num_peers s' = num_peers s"
  by (simp add: keeps_def)

lemma keeps_links_only:
  "registered s \<Longrightarrow> wf_node s' \<Longrightarrow> links_only s s' \<Longrightarrow> (accounted s \<Longrightarrow> accounted s') \<Longrightarrow> keeps s s'"
  using registered_links_only [of s s'] links_only_fields [of s s'] by (simp add: keeps_def) (simp add: links_only_def)

lemma peer_bound: "registered s \<Longrightarrow> peer < num_peers s \<Longrightarrow> peer < CONFIG_UCCN_MAX_NUM_PEERS \<and> peer < length (peers s)"
  by (auto simp: registered_def wf_node_def wf_peers_def)

lemma link_ops_keep:
  assumes "registered s" and "peer < num_peers s"
  shows "wpf {} (uccn_link_trackers peer h s) (\<lambda>(ret, s'). keeps s s')"
    and "wpf {} (uccn_link_providers peer h s) (\<lambda>(ret, s'). keeps s s')"
    and "wpf {} (uccn_unlink_trackers peer s) (\<lambda>(ret, s'). keeps s s')"
    and "wpf {} (uccn_unlink_providers peer s) (\<lambda>(ret, s'). keeps s s')"
proof -
  have wf: "wf_node s" and max: "peer < CONFIG_UCCN_MAX_NUM_PEERS"
    using assms peer_bound [OF assms] by (simp_all add: registered_def)
  have use: "wpf {} m (\<lambda>(ret, s'). keeps s s')"
    if "wpf {} m (\<lambda>(ret, s'). wf_node s' \<and> links_only s s' \<and> (accounted s \<and> peer < num_peers s \<longrightarrow> accounted s'))"
    for m :: "(int \<times> 'a sys) result"
    using that assms keeps_links_only [OF assms(1)] by (auto elim!: wpf_conseq)
  show "wpf {} (uccn_link_trackers peer h s) (\<lambda>(ret, s'). keeps s s')"
    by (rule use [OF tracker_array.link_keeps [OF wf max]])
  show "wpf {} (uccn_link_providers peer h s) (\<lambda>(ret, s'). keeps s s')"
    by (rule use [OF provider_array.link_keeps [OF wf max]])
  show "wpf {} (uccn_unlink_trackers peer s) (\<lambda>(ret, s'). keeps s s')"
    by (rule use [OF tracker_array.unlink_keeps [OF wf max]])
  show "wpf {} (uccn_unlink_providers peer s) (\<lambda>(ret, s'). keeps s s')"
    by (rule use [OF provider_array.unlink_keeps [OF wf max]])
qed

text \<open>Changes to a peer that leave its address, its number of links and the size of its name alone.\<close>

lemma keeps_peer_update:
  assumes "registered s" and "peer < num_peers s" and "p_address p = p_address (peers s ! peer)"
    and "num_links p = num_links (peers s ! peer)" and "length (p_name p) = CONFIG_UCCN_MAX_NODE_NAME_SIZE"
  shows "keeps s (s\<lparr>peers := (peers s)[peer := p]\<rparr>)"
proof -
  have k: "peer < length (peers s)" using peer_bound [OF assms(1,2)] by simp
  have "wf_node (s\<lparr>peers := (peers s)[peer := p]\<rparr>)"
    using assms(1,5) by (simp add: registered_def wf_node_def wf_peers_def wf_names_update)
  moreover have "links_only s (s\<lparr>peers := (peers s)[peer := p]\<rparr>)"
    using k assms(3) by (simp add: links_only_def map_update_same)
  moreover have "accounted (s\<lparr>peers := (peers s)[peer := p]\<rparr>)" if "accounted s"
    using that k assms(4) by (auto simp: accounted_def links_of_def nth_list_update)
  ultimately show ?thesis using assms(1) by (intro keeps_links_only)
qed

lemma keeps_updates:
  "registered s \<Longrightarrow> keeps s (s\<lparr>trace := tr\<rparr>)"
  "registered s \<Longrightarrow> wf_buffer CONFIG_UCCN_OUTGOING_BUFFER_SIZE b \<Longrightarrow> keeps s (s\<lparr>outgoing_buffer := b\<rparr>)"
  by (simp_all add: keeps_def registered_buffers)

section \<open>Contents keep the node in order\<close>

lemma count_links_one:
  assumes "i < n" and "n \<le> length eps" and "\<not> has_link peer (eps ! i)"
    and "\<And>k. has_link k ep \<longleftrightarrow> k = peer \<or> has_link k (eps ! i)"
  shows "count_links k (take n (eps[i := ep])) = count_links k (take n eps) + (if k = peer then 1 else 0)"
proof -
  have i: "i < length (take n eps)" using assms(1,2) by simp
  have split: "take n eps = take i (take n eps) @ eps ! i # drop (Suc i) (take n eps)"
    using id_take_nth_drop [OF i] assms(1) by simp
  have "take n (eps[i := ep]) = take i (take n eps) @ ep # drop (Suc i) (take n eps)"
    using upd_conv_take_nth_drop [OF i, of ep] by (simp add: take_update_swap)
  then show ?thesis
    by (subst split) (auto simp: count_links_def assms(3,4))
qed

lemma keeps_link_tracker:
  assumes "registered s" and "peer < num_peers s" and "i < num_trackers s"
  shows "wpf {} (uccn_link (trackers s ! i) peer (peers s))
    (\<lambda>(ret, t, ps). keeps s (s\<lparr>trackers := (trackers s)[i := t], peers := ps\<rparr>))"
proof -
  let ?t = "trackers s ! i"
  have wf: "wf_node s" using assms(1) by (simp add: registered_def)
  have n: "num_trackers s \<le> length (trackers s)" and t: "wf_endpoint ?t" and i: "i < length (trackers s)"
    using wf assms(3) by (auto simp: wf_node_def wf_endpoints_def)
  have max: "peer < CONFIG_UCCN_MAX_NUM_PEERS" and ps: "wf_peers (peers s)"
    using peer_bound [OF assms(1,2)] wf by (simp_all add: wf_node_def)
  show ?thesis
  proof (cases "is_full ?t \<or> has_link peer ?t")
    case True
    then show ?thesis using t assms(1) uccn_link_full [of ?t peer "peers s"] uccn_link_known [OF t, of peer "peers s"]
      by (cases "ep_num_peers ?t < CONFIG_UCCN_MAX_NUM_PEERS")
        (auto simp: is_full_def has_link_def keeps_refl)
  next
    case False
    then have room: "ep_num_peers ?t < CONFIG_UCCN_MAX_NUM_PEERS" and fresh: "Some peer \<notin> set (linked ?t)"
      by (simp_all add: is_full_def has_link_def)
    let ?s = "s\<lparr>trackers := (trackers s)[i := link_slot peer ?t], peers := bump_links 1 peer (peers s)\<rparr>"
    have "wf_endpoints (num_trackers s) ((trackers s)[i := link_slot peer ?t])"
      by (rule wf_endpoints_set [OF wf_nodeD(4) [OF wf] assms(3) wf_link_slot [OF t room max fresh]])
    then have "wf_node ?s" using wf by (simp add: wf_node_def wf_names_bump)
    moreover have "links_only s ?s"
      using i by (simp add: links_only_def same_endpoints_def map_update_same link_slot_def)
    moreover have "accounted ?s" if "accounted s"
    proof -
      have "links_of k ?s = links_of k s + (if k = peer then 1 else 0)" for k
        using count_links_one [OF assms(3) n, of peer "link_slot peer ?t" k] False
          has_link_link_slot [OF t, of _ peer]
        by (simp add: links_of_def)
      moreover have "num_links (peers ?s ! k) = num_links (peers s ! k) + (if k = peer then 1 else 0)"
        if "k < num_peers s" for k
        using that ps wf_nodeD(3) [OF wf] by (simp add: num_links_bump wf_peers_def)
      ultimately show ?thesis using \<open>accounted s\<close> assms(2) unfolding accounted_def by simp
    qed
    ultimately have "keeps s ?s" using assms(1) by (intro keeps_links_only)
    then show ?thesis by (simp add: uccn_link_new [OF t ps room max fresh])
  qed
qed

definition unpack_safe :: "fault set \<Rightarrow> (nat \<Rightarrow> 'c resource) \<Rightarrow> bool" where
  "unpack_safe F res \<longleftrightarrow> (\<forall>i blob. wpf F (res_unpack (res i) blob None) (\<lambda>_. True))"

lemma unpack_safe_UNIV [simp]: "unpack_safe UNIV res"
  by (simp add: unpack_safe_def wpf_def split: sum.splits)

lemma content_blob_keeps:
  assumes "registered s" and "peer < num_peers s" and "unpack_safe F (resources s)"
  shows "wpf F (uccn_process_content_blob peer hash blob s) (\<lambda>(ret, s'). keeps s s')"
proof -
  let ?f = "\<lambda>i t. if res_hash (resource_of s t) = hash then Some i else None"
  have n: "num_trackers s \<le> length (trackers s)"
    using assms(1) by (simp add: registered_def wf_node_def wf_endpoints_def)
  then show ?thesis
  proof (cases rule: scan_cases [where f = ?f])
    case none
    then show ?thesis using keeps_refl [OF assms(1)] by (simp add: uccn_process_content_blob_def)
  next
    case (first i r)
    then have r: "r = i" by (simp split: if_splits)
    let ?t = "trackers s ! i"
    have i: "i < length (trackers s)" using first(2) n by simp
    have unpack: "wpf F (res_unpack (resource_of s ?t) blob None) (\<lambda>_. True)"
      using assms(3) by (simp add: unpack_safe_def resource_of_def)
    have linked: "wpf F (uccn_link ?t peer (peers s)) (\<lambda>x. wpf F (case x of (ret, t, ps) \<Rightarrow>
        Inr (ret, s\<lparr>trace := trace s @ [e], trackers := (trackers s)[i := t], peers := ps\<rparr>)) (\<lambda>(ret, s'). keeps s s'))" for e
    proof -
      let ?s = "s\<lparr>trace := trace s @ [e]\<rparr>"
      have "keeps s ?s" using assms(1) by (rule keeps_updates)
      have "wpf {} (uccn_link (trackers ?s ! i) peer (peers ?s))
          (\<lambda>(ret, t, ps). keeps ?s (?s\<lparr>trackers := (trackers ?s)[i := t], peers := ps\<rparr>))"
        using assms(1,2) first(2) by (intro keeps_link_tracker) (simp_all add: registered_buffers)
      then show ?thesis using keeps_trans [OF \<open>keeps s ?s\<close>] by (auto elim!: wpf_mono)
    qed
    show ?thesis
      using first(1) i r linked keeps_refl [OF assms(1)]
      by (auto simp: uccn_process_content_blob_def intro!: wpf_conseq [OF unpack])
  qed
qed

lemma content_group_body_keeps:
  assumes "keeps s s'" and "peer < num_peers s" and "unpack_safe F (resources s)"
  shows "wpf F (content_group_body peer i (ret, r, s'))
    (\<lambda>c. keeps s (case c of Continue t \<Rightarrow> snd (snd t) | Break t \<Rightarrow> snd (snd t)))"
proof -
  have s': "registered s'" "peer < num_peers s'" "unpack_safe F (resources s')"
    using assms by (simp_all add: keeps_def)
  have blob: "wpf F (uccn_process_content_blob peer hash blob s') (\<lambda>(ret, u). keeps s u)" for hash blob
    by (rule wpf_conseq [OF content_blob_keeps [OF s']]) (auto intro: keeps_trans [OF assms(1)])
  obtain hash r1 where e1: "mpack_expect_u32 r = (hash, r1)" by fastforce
  obtain len r2 where e2: "mpack_expect_bin r1 = (len, r2)" by fastforce
  obtain bs r3 where e3: "mpack_read_bytes_inplace r2 (unat len) = (bs, r3)" by fastforce
  show ?thesis using assms(1)
    by (cases bs) (auto simp: content_group_body_def e1 e2 e3 intro!: wpf_conseq [OF blob])
qed

lemma content_group_keeps:
  fixes s :: "'c sys"
  assumes "registered s" and "peer < num_peers s" and "unpack_safe F (resources s)"
  shows "wpf F (uccn_process_content_group peer r s) (\<lambda>(ret, r, s'). keeps s s')"
proof -
  obtain ok n r' where e: "mpack_expect_map_or_nil r = (ok, n, r')" by (cases "mpack_expect_map_or_nil r")
  have "wpf F (for_loop (content_group_body peer) 0 (unat n) (0, r', s)) (\<lambda>(ret, r, s'). keeps s s')"
  proof (rule wpf_for_loop [where P = "\<lambda>i t. keeps s (snd (snd t))"])
    fix i and t :: "int \<times> mpack_reader \<times> 'c sys"
    assume t: "keeps s (snd (snd t))"
    show "wpf F (content_group_body peer i t) (\<lambda>c. case c of Continue t' \<Rightarrow> keeps s (snd (snd t'))
        | Break t' \<Rightarrow> case t' of (ret, r, s') \<Rightarrow> keeps s s')"
      using content_group_body_keeps [OF t assms(2,3), of i "fst t" "fst (snd t)"]
      by (auto elim!: wpf_conseq split: ctl.splits)
  qed (use keeps_refl [OF assms(1)] in auto)
  then show ?thesis using keeps_refl [OF assms(1)] by (simp add: uccn_process_content_group_def e)
qed

section \<open>Link groups keep the node in order\<close>

lemma read_hashes_total:
  "wpf {Out_Of_Bounds} (for_loop read_hash_body 0 n t) (\<lambda>_. True)"
  by (rule wpf_for_loop [where P = "\<lambda>_ _. True"])
    (auto simp: read_hash_body_def push_def split: prod.splits ctl.splits)

lemma relink_keeps:
  fixes s :: "'c sys"
  assumes "registered s" and "peer < num_peers s"
    and link: "\<And>h s. registered s \<Longrightarrow> peer < num_peers s \<Longrightarrow> wpf {} (link peer h s) (\<lambda>(ret, s'). keeps s s')"
    and unlink: "\<And>s. registered s \<Longrightarrow> peer < num_peers s \<Longrightarrow> wpf {} (unlink peer s) (\<lambda>(ret, s'). keeps s s')"
    and f: "\<And>p. p_address (f p) = p_address p \<and> num_links (f p) = num_links p \<and> p_name (f p) = p_name p"
  shows "wpf {Out_Of_Bounds} (relink unlink link f peer hashes n s made) (\<lambda>(ret, s', made, failed). keeps s s')"
proof -
  have loop: "wpf {Out_Of_Bounds} (for_loop (relink_body link peer hashes) 0 n (ret, u, made, False))
      (\<lambda>(ret, s', made, failed). keeps s s')" if u: "keeps s u" for ret u made
  proof (rule wpf_for_loop [where P = "\<lambda>i t. keeps s (fst (snd t))"])
    fix i and t :: "int \<times> 'c sys \<times> u32 list \<times> bool"
    assume t: "keeps s (fst (snd t))"
    obtain ret v made failed where tt: "t = (ret, v, made, failed)" by (cases t)
    have v: "registered v" "peer < num_peers v" "keeps s v" using t assms(2) by (simp_all add: tt keeps_def)
    have linked: "wpf {Out_Of_Bounds} (link peer h v) (\<lambda>(ret, s'). keeps s s')" for h
      by (rule wpf_mono [OF link [OF v(1,2)]]) (auto intro: keeps_trans [OF v(3)])
    show "wpf {Out_Of_Bounds} (relink_body link peer hashes i t)
        (\<lambda>c. case c of Continue t' \<Rightarrow> keeps s (fst (snd t'))
          | Break t' \<Rightarrow> case t' of (ret, s', made, failed) \<Rightarrow> keeps s s')"
      by (cases "i < length hashes") (auto simp: tt relink_body_def push_def intro!: wpf_conseq [OF linked])
  qed (use u in auto)
  have set: "wpf {Out_Of_Bounds} (set_peer peer f u) (keeps s)" if u: "keeps s u" for u
  proof -
    have "registered u" "peer < num_peers u" using u assms(2) by (simp_all add: keeps_def)
    then have "keeps u (u\<lparr>peers := (peers u)[peer := f (peers u ! peer)]\<rparr>)"
      using f peer_bound [of u peer]
      by (intro keeps_peer_update) (simp_all add: registered_def wf_node_def wf_names_nth)
    then show ?thesis using keeps_trans [OF u] peer_bound [OF \<open>registered u\<close> \<open>peer < num_peers u\<close>]
      by (simp add: set_peer_def)
  qed
  have "wpf {Out_Of_Bounds} (unlink peer s) (\<lambda>(ret, s'). keeps s s')"
    by (rule wpf_mono [OF unlink [OF assms(1,2)]]) auto
  then show ?thesis unfolding relink_def wpf_rbind
  proof (rule wpf_conseq, clarify)
    fix ret u assume u: "keeps s u"
    show "wpf {Out_Of_Bounds} (if ret < 0 then Inr (ret, u, made, True) else
        rbind (for_loop (relink_body link peer hashes) 0 n (ret, u, made, False))
          (\<lambda>(ret, s, made, failed). if failed then Inr (ret, s, made, True)
            else rbind (set_peer peer f s) (\<lambda>s. Inr (ret, s, made, False))))
        (\<lambda>(ret, s', made, failed). keeps s s')"
      using u by (auto intro!: wpf_conseq [OF loop [OF u]] wpf_conseq [OF set])
  qed
qed

lemma link_group_body_keeps:
  assumes "keeps s (lg_node g)" and "peer < num_peers s"
  shows "wpf {Out_Of_Bounds} (link_group_body peer i g)
    (\<lambda>c. keeps s (case c of Continue g' \<Rightarrow> lg_node g' | Break g' \<Rightarrow> lg_node g'))"
proof -
  let ?s = "lg_node g"
  have s: "registered ?s" "peer < num_peers ?s" using assms by (simp_all add: keeps_def)
  have k: "peer < length (peers ?s)" using peer_bound [OF s] by simp
  obtain code r where e: "mpack_expect_u8 (lg_reader g) = (code, r)" by fastforce
  obtain ok n r' where a: "mpack_expect_array_max_or_nil (word_of_nat CONFIG_UCCN_MAX_NUM_RESOURCES) r = (ok, n, r')"
    by (cases "mpack_expect_array_max_or_nil (word_of_nat CONFIG_UCCN_MAX_NUM_RESOURCES) r")
  obtain name r1 where c: "mpack_expect_cstr r (p_name (peers ?s ! peer)) = (name, r1)" by fastforce
  have "length name = CONFIG_UCCN_MAX_NODE_NAME_SIZE"
    using length_mpack_expect_cstr [OF c] s k by (simp add: registered_def wf_node_def wf_names_nth)
  then have name: "keeps s (?s\<lparr>peers := (peers ?s)[peer := (peers ?s ! peer)\<lparr>p_name := name\<rparr>]\<rparr>)"
    using keeps_trans [OF assms(1) keeps_peer_update [OF s, of "(peers ?s ! peer)\<lparr>p_name := name\<rparr>"]] by simp
  have trackers: "wpf {Out_Of_Bounds} (relink uccn_unlink_trackers uccn_link_trackers
      (\<lambda>p. p\<lparr>provided_content_hash := h\<rparr>) peer hashes m ?s made) (\<lambda>(ret, s', made, failed). keeps s s')" for h hashes m made
    by (rule wpf_conseq [OF relink_keeps [OF s link_ops_keep(1) link_ops_keep(3)]])
      (auto intro: keeps_trans [OF assms(1)])
  have providers: "wpf {Out_Of_Bounds} (relink uccn_unlink_providers uccn_link_providers
      (\<lambda>p. p\<lparr>tracked_content_hash := h\<rparr>) peer hashes m ?s made) (\<lambda>(ret, s', made, failed). keeps s s')" for h hashes m made
    by (rule wpf_conseq [OF relink_keeps [OF s link_ops_keep(2) link_ops_keep(4)]])
      (auto intro: keeps_trans [OF assms(1)])
  show ?thesis
    using assms(1) k name
    by (auto simp: link_group_body_def e a c Let_def intro!: wpf_conseq [OF read_hashes_total]
        wpf_conseq [OF trackers] wpf_conseq [OF providers])
qed

lemma link_group_loop_keeps:
  fixes g :: "'c link_group"
  assumes "registered (lg_node g)" and "peer < num_peers (lg_node g)"
  shows "wpf {Out_Of_Bounds} (for_loop (link_group_body peer) 0 n g) (\<lambda>g'. keeps (lg_node g) (lg_node g'))"
proof (rule wpf_for_loop [where P = "\<lambda>i g'. keeps (lg_node g) (lg_node g')"])
  fix i and g' :: "'c link_group" assume "keeps (lg_node g) (lg_node g')"
  then show "wpf {Out_Of_Bounds} (link_group_body peer i g')
      (\<lambda>c. case c of Continue t' \<Rightarrow> keeps (lg_node g) (lg_node t') | Break t' \<Rightarrow> keeps (lg_node g) (lg_node t'))"
    by (rule wpf_conseq [OF link_group_body_keeps [OF _ assms(2)]]) (auto split: ctl.splits)
qed (simp_all add: keeps_refl assms(1))

text \<open>The reply is a run of write calls.\<close>

definition reply_items :: "bytes \<Rightarrow> u32 list \<Rightarrow> u32 list \<Rightarrow> item list" where
  "reply_items name tracked provided =
     (if tracked = [] \<and> provided = [] then []
      else [Item_Map 1, Item_U8 UCCN_LINK_GROUP,
        Item_Map (1 + (if tracked = [] then 0 else 1) + (if provided = [] then 0 else 1)),
        Item_U8 UCCN_NODE_NAME, Item_Str name] @
        (if tracked = [] then [] else [Item_U8 UCCN_TRACKED_ARRAY, Item_Array (word_of_nat (length tracked))] @
           map Item_U32 (rev tracked)) @
        (if provided = [] then [] else [Item_U8 UCCN_PROVIDED_ARRAY, Item_Array (word_of_nat (length provided))] @
           map Item_U32 (rev provided)))"

lemma fold_write_u32: "fold mpack_write_u32 hs w = fold write_item (map Item_U32 hs) w"
  by (induction hs arbitrary: w) simp_all

lemma write_hashes_items:
  "write_hashes code hs w = fold write_item (if hs = [] then [] else
     [Item_U8 code, Item_Array (word_of_nat (length hs))] @ map Item_U32 (rev hs)) w"
  by (simp add: write_hashes_def fold_write_u32)

lemma link_reply_items:
  assumes "c_string buf = Inr name" and "length buf < 2 ^ 32"
  shows "link_reply buf tracked provided w = Inr (fold write_item (reply_items name tracked provided) w)"
  by (simp add: link_reply_def reply_items_def write_hashes_items write_cstr_item [OF assms] Let_def)

lemma node_name_string:
  assumes "wf_node s"
  obtains name where "c_string (node_name s) = Inr name" and "length name < 64" and "0 \<notin> set name"
proof -
  have "0 \<in> set (node_name s)" "length (node_name s) = 64"
    using assms by (simp_all add: wf_node_def config_simps)
  then obtain name where "c_string (node_name s) = Inr name" by (simp add: c_string_def)
  then show thesis using c_string_eq_Inr [of "node_name s" name] \<open>length (node_name s) = 64\<close> that by simp
qed

lemma link_group_keeps:
  fixes s :: "'c sys"
  assumes "registered s" and "peer < num_peers s" and "wf_writer w" and "w_size w = n"
  shows "wpf {Out_Of_Bounds} (uccn_process_link_group peer r w s)
    (\<lambda>(ret, r, w', s'). keeps s s' \<and> wf_writer w' \<and> w_size w' = n)"
proof -
  obtain ok m r' where e: "mpack_expect_map_max_or_nil UCCN_MAX_NUM_LINK_DATA r = (ok, m, r')"
    by (cases "mpack_expect_map_max_or_nil UCCN_MAX_NUM_LINK_DATA r")
  let ?g = "\<lparr>lg_ret = 0, lg_reader = r', lg_node = s, lg_hashes = [], lg_provided = [],
      lg_tracked = [], lg_returned = False\<rparr>"
  have reply: "wpf {Out_Of_Bounds} (link_reply (node_name u) tr pr w) (\<lambda>w'. wf_writer w' \<and> w_size w' = n)"
    if "keeps s u" for u tr pr
  proof -
    have "wf_node u" using that by (simp add: keeps_def registered_def)
    then obtain name where "c_string (node_name u) = Inr name" "length (node_name u) < 2 ^ 32"
      by (rule node_name_string) (use \<open>wf_node u\<close> in \<open>simp add: wf_node_def config_simps\<close>)
    then show ?thesis using items.fold_wf [OF assms(3)] items.fold_size assms(4)
      by (simp add: link_reply_items)
  qed
  have loop: "wpf {Out_Of_Bounds} (if ok then for_loop (link_group_body peer) 0 (unat m) ?g else Inr ?g)
      (\<lambda>g. keeps s (lg_node g))"
    using link_group_loop_keeps [of ?g peer "unat m"] assms(1,2) by (simp add: keeps_refl)
  have run: "uccn_process_link_group peer r w s =
      rbind (if ok then for_loop (link_group_body peer) 0 (unat m) ?g else Inr ?g) (\<lambda>g.
        if lg_returned g then Inr (lg_ret g, lg_reader g, w, lg_node g)
        else rbind (link_reply (node_name (lg_node g)) (lg_tracked g) (lg_provided g) w) (\<lambda>w.
          Inr (lg_ret g, lg_reader g, w, lg_node g)))"
    by (simp add: uccn_process_link_group_def e)
  show ?thesis unfolding run wpf_rbind
  proof (rule wpf_conseq [OF loop])
    fix g :: "'c link_group" assume g: "keeps s (lg_node g)"
    then show "wpf {Out_Of_Bounds} (if lg_returned g then Inr (lg_ret g, lg_reader g, w, lg_node g)
        else rbind (link_reply (node_name (lg_node g)) (lg_tracked g) (lg_provided g) w) (\<lambda>w.
          Inr (lg_ret g, lg_reader g, w, lg_node g)))
        (\<lambda>(ret, r, w', s'). keeps s s' \<and> wf_writer w' \<and> w_size w' = n)"
      using assms(3,4) by (auto intro!: wpf_conseq [OF reply [OF g]])
  qed
qed

text \<open>One group of a packet.\<close>

lemma process_packet_body_keeps:
  fixes s :: "'c sys"
  assumes "keeps s (snd (snd t))" and "peer < num_peers s" and "unpack_safe F (resources s)" and "Out_Of_Bounds \<in> F"
  shows "wpf F (process_packet_body peer i t) (\<lambda>c. keeps s (case c of Continue t' \<Rightarrow> snd (snd t') | Break t' \<Rightarrow> snd (snd t')))"
proof -
  obtain ret r u where t: "t = (ret, r, u)" by (cases t)
  have u: "keeps s u" "registered u" "peer < num_peers u" "unpack_safe F (resources u)"
    using assms by (simp_all add: t keeps_def)
  obtain code r1 where e: "mpack_expect_u8 r = (code, r1)" by fastforce
  have out: "keeps v (v\<lparr>outgoing_buffer := (outgoing_buffer v)\<lparr>b_length := 0\<rparr>\<rparr>)" if "registered v" for v :: "'c sys"
    using that by (intro keeps_updates) (simp_all add: registered_def wf_node_def wf_buffer_def)
  have content: "wpf F (uccn_process_content_group peer r u) (\<lambda>(ret, r, v).
      keeps s (v\<lparr>outgoing_buffer := (outgoing_buffer v)\<lparr>b_length := 0\<rparr>\<rparr>))" for r
    by (rule wpf_conseq [OF content_group_keeps [OF u(2-4)]])
      (auto intro: keeps_trans [OF u(1)] keeps_trans out dest: keepsD)
  have size: "b_size (outgoing_buffer v) = CONFIG_UCCN_OUTGOING_BUFFER_SIZE" if "registered v" for v :: "'c sys"
    using that by (simp add: registered_def wf_node_def wf_buffer_def b_size_def)
  have written: "keeps v (v\<lparr>outgoing_buffer := b_written w (outgoing_buffer v)\<rparr>)"
    if "registered v" "wf_writer w" "w_size w = CONFIG_UCCN_OUTGOING_BUFFER_SIZE" for v :: "'c sys" and w
    using that size [OF that(1)]
    by (intro keeps_updates wf_buffer_written) (simp_all add: registered_def wf_node_def)
  have link: "wpf F (uccn_process_link_group peer r (mpack_writer_init (b_size (outgoing_buffer u))) u)
      (\<lambda>(ret, r, w, v). keeps s (v\<lparr>outgoing_buffer := b_written w (outgoing_buffer v)\<rparr>))" for r
    by (rule wpf_mono [OF link_group_keeps [OF u(2,3), of _ "CONFIG_UCCN_OUTGOING_BUFFER_SIZE"]])
      (use size [OF u(2)] assms(4) in \<open>auto intro: keeps_trans [OF u(1)] keeps_trans written dest: keepsD\<close>)
  show ?thesis using u(1)
    by (auto simp: process_packet_body_def t e Let_def intro!: wpf_conseq [OF content] wpf_conseq [OF link])
qed

text \<open>
  Whatever bytes a packet has, processing it for a registered peer ends, keeps the node's
  memory, its tables and the accounting of links, and can leave the defined behaviour only by the
  overflow of the local arrays of \<open>uccn_process_link_group\<close> or inside a resource's \<open>unpack\<close>.
\<close>

lemma process_packet_keeps:
  fixes s :: "'c sys"
  assumes "registered s" and "peer < num_peers s" and "unpack_safe F (resources s)" and "Out_Of_Bounds \<in> F"
  shows "wpf F (uccn_process_packet peer incoming s) (\<lambda>(ret, s'). keeps s s')"
proof -
  obtain ok n r where e: "mpack_expect_map_max_or_nil UCCN_MAX_NUM_GROUPS (mpack_reader_init_data (b_contents incoming)) = (ok, n, r)"
    by (cases "mpack_expect_map_max_or_nil UCCN_MAX_NUM_GROUPS (mpack_reader_init_data (b_contents incoming))")
  have "wpf F (for_loop (process_packet_body peer) 0 (unat n) (0, r, s)) (\<lambda>t. keeps s (snd (snd t)))"
  proof (rule wpf_for_loop [where P = "\<lambda>i t. keeps s (snd (snd t))"])
    fix i and t :: "int \<times> mpack_reader \<times> 'c sys" assume "keeps s (snd (snd t))"
    then show "wpf F (process_packet_body peer i t) (\<lambda>c. case c of Continue t' \<Rightarrow> keeps s (snd (snd t'))
        | Break t' \<Rightarrow> keeps s (snd (snd t')))"
      by (rule wpf_conseq [OF process_packet_body_keeps [OF _ assms(2-4)]]) (auto split: ctl.splits)
  qed (simp_all add: keeps_refl assms(1))
  then show ?thesis
    by (cases ok) (auto simp: uccn_process_packet_def e keeps_refl assms(1) elim!: wpf_conseq)
qed

lemma uccn_process_packet_keeps:
  fixes s :: "'c sys"
  assumes "registered s" and "peer < num_peers s" and "unpack_safe F (resources s)" and "Out_Of_Bounds \<in> F"
  shows "wpf F (uccn_process_packet peer incoming s) (\<lambda>(ret, s'). registered s' \<and>
    num_peers s' = num_peers s \<and> mutex_locked s' = mutex_locked s \<and> (accounted s \<longrightarrow> accounted s'))"
  by (rule wpf_conseq [OF process_packet_keeps [OF assms]]) (auto simp: keeps_def)

end
