(* ===== verification/Delivery.thy ===== *)
theory Delivery
  imports Packets
begin

text \<open>
  What the packets of one node do to another: keepalives, discovery packets and the replies to
  them, and contents, from the bytes one node writes to the links and callbacks of the other.
\<close>

section \<open>Keepalive packets\<close>

lemma keepalive_contents:
  assumes "b_size packet > 0"
  shows "fst (uccn_prepare_keepalive_packet packet) = 0"
    and "b_contents (snd (uccn_prepare_keepalive_packet packet)) = [0xc0]"
    and "b_size (snd (uccn_prepare_keepalive_packet packet)) = b_size packet"
proof -
  have w: "mpack_write_nil (mpack_writer_init n) = fold write_item [Item_Nil] (mpack_writer_init n)" for n by simp
  have ok: "w_error (fold write_item [Item_Nil] (mpack_writer_init (b_size packet))) = mpack_ok"
    using items.fold_ok_iff [of "mpack_writer_init (b_size packet)" "[Item_Nil]"] assms
    by (simp del: fold_simps fold.simps write_item.simps)
  show "fst (uccn_prepare_keepalive_packet packet) = 0"
    using ok unfolding uccn_prepare_keepalive_packet_def w Let_def mpack_writer_destroy_def by simp
  show "b_contents (snd (uccn_prepare_keepalive_packet packet)) = [0xc0]"
    using b_contents_written(1) [OF ok, of packet]
    unfolding uccn_prepare_keepalive_packet_def w Let_def by simp
  show "b_size (snd (uccn_prepare_keepalive_packet packet)) = b_size packet"
    using b_written_length [OF written_wf written_size, of "[Item_Nil]" packet]
    unfolding uccn_prepare_keepalive_packet_def w Let_def by simp
qed

lemma keepalive_packet: "b_contents incoming = [0xc0] \<Longrightarrow> uccn_process_packet k incoming s = Inr (0, s)"
proof -
  assume k: "b_contents incoming = [0xc0]"
  have "mpack_read_tag (reading [0xc0]) = (Tag_Nil, reading [])"
    using read_tag_nil [of "[]"] by simp
  then have "mpack_expect_map_max_or_nil m (reading [0xc0]) = (False, 0, reading [])" for m
    by (simp add: mpack_expect_map_max_or_nil_def mpack_expect_map_or_nil_def)
  then show ?thesis
    by (simp add: uccn_process_packet_def k mpack_reader_init_data_def
        reading_def [symmetric] mpack_reader_destroy_def)
      (simp add: reading_def)
qed

section \<open>Link packets\<close>

definition enc_items :: "item list \<Rightarrow> bytes" where
  "enc_items xs = concat (map enc_item xs)"

lemma enc_items_simps [simp]:
  "enc_items [] = []" "enc_items (x # xs) = enc_item x @ enc_items xs"
  "enc_items (xs @ ys) = enc_items xs @ enc_items ys"
  by (simp_all add: enc_items_def)

definition link_items :: "bytes \<Rightarrow> u8 \<Rightarrow> u32 list \<Rightarrow> item list" where
  "link_items name code hashes =
     [Item_Map 1, Item_U8 UCCN_LINK_GROUP, Item_Map 2, Item_U8 UCCN_NODE_NAME, Item_Str name,
      Item_U8 code, Item_Array (word_of_nat (length hashes))] @ map Item_U32 hashes"

definition link_packet :: "bytes \<Rightarrow> u8 \<Rightarrow> u32 list \<Rightarrow> bytes" where
  "link_packet name code hashes = enc_items (link_items name code hashes)"

lemma length_enc_u32s: "length (enc_items (map Item_U32 hs)) \<le> 5 * length hs"
proof (induction hs)
  case (Cons h hs)
  then show ?case using length_enc_u32 [of h] by (simp del: enc_item.simps)
qed simp

lemma length_enc_u8: "length (enc_item (Item_U8 v)) \<le> 2"
  by (simp add: mpack_encode_fixuint_def mpack_encode_u8_def)

lemma length_link_packet:
  assumes "length name < 64" and "length hashes \<le> 10"
  shows "length (link_packet name code hashes) \<le> 130"
proof -
  have "length (enc_item (Item_Str name)) \<le> 5 + 63"
    using assms(1) unat_length_u32 [of name]
    by (auto simp: Let_def mpack_encode_fixstr_def mpack_encode_str8_def
        mpack_encode_str16_def mpack_encode_str32_def)
  moreover have "length (enc_item (Item_Map 1)) = 1" "length (enc_item (Item_Map 2)) = 1"
    by (simp_all add: mpack_encode_fixmap_def)
  moreover have "(word_of_nat (length hashes) :: u32) \<le> 15"
    using assms(2) by (simp add: word_le_nat_alt unat_of_nat)
  then have "length (enc_item (Item_Array (word_of_nat (length hashes)))) = 1"
    by (simp add: mpack_encode_fixarray_def)
  moreover have "length (enc_items (map Item_U32 hashes)) \<le> 50"
    using length_enc_u32s [of hashes] assms(2) by simp
  ultimately show ?thesis
    using length_enc_u8 [of UCCN_LINK_GROUP] length_enc_u8 [of UCCN_NODE_NAME] length_enc_u8 [of code]
    by (simp add: link_packet_def link_items_def del: enc_item.simps)
qed

section \<open>Discovery packets\<close>

text \<open>The hashes of the trackers that no peer is linked to, in the order of the table.\<close>

definition idle_hashes :: "'c sys \<Rightarrow> u32 list" where
  "idle_hashes s = map (\<lambda>t. res_hash (resource_of s t))
     (filter (\<lambda>t. ep_num_peers t = 0) (take (num_trackers s) (trackers s)))"

lemma discovery_loop:
  assumes "wf_node s"
  shows "for_loop (discovery_body s) 0 (num_trackers s) [] = Inr (idle_hashes s)"
proof -
  let ?h = "\<lambda>i. map (\<lambda>t. res_hash (resource_of s t)) (filter (\<lambda>t. ep_num_peers t = 0) (take i (trackers s)))"
  have n: "num_trackers s \<le> length (trackers s)" "num_trackers s \<le> CONFIG_UCCN_MAX_NUM_TRACKERS"
    using assms wf_node_counts(1) [OF assms] by (auto simp: wf_node_def wf_endpoints_def)
  have "wpf {} (for_loop (discovery_body s) 0 (num_trackers s) []) (\<lambda>hs. hs = ?h (num_trackers s))"
  proof (rule wpf_for_loop [where P = "\<lambda>i hs. hs = ?h i"])
    fix i hs assume i: "i < num_trackers s" and hs: "hs = ?h i"
    have "length hs < CONFIG_UCCN_MAX_NUM_TRACKERS"
      using i n length_filter_le [of "\<lambda>t. ep_num_peers t = 0" "take i (trackers s)"] by (simp add: hs)
    then show "wpf {} (discovery_body s i hs) (\<lambda>c. case c of Continue t' \<Rightarrow> t' = ?h (Suc i)
        | Break t' \<Rightarrow> t' = ?h (num_trackers s))"
      using i n by (simp add: discovery_body_def push_def hs take_Suc_conv_app_nth)
  qed simp_all
  then show ?thesis by (auto simp: wpf_total idle_hashes_def)
qed

text \<open>
  A discovery packet carries the node's name and the hashes of the trackers without peers;
  it always fits into the outgoing buffer.
\<close>

lemma discovery_packet_contents:
  assumes "wf_node s" and "c_string (node_name s) = Inr name" and "b_size packet = CONFIG_UCCN_OUTGOING_BUFFER_SIZE"
  shows "\<exists>packet'. uccn_prepare_discovery_packet s packet = Inr (0, packet') \<and>
    b_contents packet' = link_packet name UCCN_TRACKED_ARRAY (idle_hashes s) \<and> b_size packet' = b_size packet \<and>
    b_length packet' \<le> 130"
proof -
  let ?items = "link_items name UCCN_TRACKED_ARRAY (idle_hashes s)"
  let ?w = "fold write_item ?items (mpack_writer_init (b_size packet))"
  have len: "length (node_name s) = 64" using assms(1) by (simp add: wf_node_def config_simps)
  have "length name < 64" using c_string_eq_Inr [OF assms(2)] len by simp
  moreover have "length (idle_hashes s) \<le> 10"
  proof -
    have "length (idle_hashes s) \<le> length (take (num_trackers s) (trackers s))"
      unfolding idle_hashes_def length_map by (rule length_filter_le)
    also have "\<dots> \<le> 10" using wf_node_counts(1) [OF assms(1)] by (simp add: config_simps)
    finally show ?thesis .
  qed
  ultimately have fits: "length (enc_items ?items) \<le> 130"
    using length_link_packet by (simp add: link_packet_def)
  then have ok: "w_error ?w = mpack_ok"
    using items.fold_ok_iff [of "mpack_writer_init (b_size packet)" ?items] assms(3)
    by (simp add: enc_items_def config_simps)
  have "uccn_prepare_discovery_packet s packet = Inr (if w_error ?w \<noteq> mpack_ok then -1 else 0, b_written ?w packet)"
    using len by (simp add: uccn_prepare_discovery_packet_def write_cstr_item [OF assms(2)] discovery_loop [OF assms(1)]
        link_items_def fold_write_u32 mpack_writer_destroy_def)
  moreover have "b_contents (b_written ?w packet) = link_packet name UCCN_TRACKED_ARRAY (idle_hashes s)"
    using b_contents_written(1) [OF ok] by (simp add: link_packet_def enc_items_def)
  moreover have "b_size (b_written ?w packet) = b_size packet \<and> b_length (b_written ?w packet) \<le> b_size (b_written ?w packet)"
    using b_written_length [OF written_wf written_size, of ?items packet] by simp
  moreover from this have "b_length (b_written ?w packet) = length (b_contents (b_written ?w packet))"
    by (simp add: b_contents_def b_size_def)
  ultimately show ?thesis using ok fits by (simp add: link_packet_def)
qed

section \<open>Relinking a peer\<close>

lemma has_hash_links_only: "links_only s t \<Longrightarrow> has_hash t h = has_hash s h"
  by (simp add: fun_eq_iff has_hash_def resource_of_def links_only_fields)

text \<open>
  An array of endpoints after a peer has been linked for a list of distinct hashes, when it was
  linked to none before and every endpoint had room.
\<close>

definition but_links :: "peer \<Rightarrow> peer" where
  "but_links p = p\<lparr>num_links := 0\<rparr>"

lemma but_links_bump [simp]: "map but_links (bump_links d k ps) = map but_links ps"
  by (cases "k < length ps") (simp_all add: bump_links_def map_update_same but_links_def list_update_beyond)

definition relinked :: "('c sys \<Rightarrow> nat) \<Rightarrow> ('c sys \<Rightarrow> 'e endpoint_scheme list) \<Rightarrow> nat \<Rightarrow> 'c sys \<Rightarrow>
    u32 list \<Rightarrow> 'c sys \<Rightarrow> bool" where
  "relinked num eps peer s hs t \<longleftrightarrow> wf_node t \<and> links_only s t \<and>
     map but_links (peers t) = map but_links (peers s) \<and>
     (accounted s \<and> peer < num_peers s \<longrightarrow> accounted t) \<and>
     (\<forall>i<num s. (\<forall>h\<in>set hs. \<not> has_hash s h (eps s ! i)) \<longrightarrow> eps t ! i = eps s ! i) \<and>
     (\<forall>i<num s. \<forall>k. has_link k (eps t ! i) \<longleftrightarrow>
       has_link k (eps s ! i) \<or> k = peer \<and> (\<exists>h\<in>set hs. has_hash s h (eps s ! i)))"

definition matched :: "'c sys \<Rightarrow> nat \<Rightarrow> 'e endpoint_scheme list \<Rightarrow> u32 \<Rightarrow> bool" where
  "matched s n eps h \<longleftrightarrow> (\<exists>i<n. has_hash s h (eps ! i))"

lemma new_links_pos:
  "n \<le> length eps \<Longrightarrow> new_links m peer (take n eps) > 0 \<longleftrightarrow> (\<exists>i<n. needs_link m peer (eps ! i))"
proof -
  assume n: "n \<le> length eps"
  have "new_links m peer (take n eps) > 0 \<longleftrightarrow> (\<exists>ep\<in>set (take n eps). needs_link m peer ep)"
    by (simp add: new_links_def filter_empty_conv)
  also have "\<dots> \<longleftrightarrow> (\<exists>i<n. needs_link m peer (eps ! i))"
    using n by (auto simp: Bex_def in_set_conv_nth)
  finally show "new_links m peer (take n eps) > 0 \<longleftrightarrow> (\<exists>i<n. needs_link m peer (eps ! i))" .
qed

context endpoint_array
begin

lemma same_hash: 
  assumes "links_only s t" and "wf_node s" and "i < num s"
  shows "has_hash t h (eps t ! i) = has_hash s h (eps s ! i)"
proof -
  have "i < length (eps s)" using wf_eps [OF assms(2)] assms(3) by (simp add: wf_endpoints_def)
  then have "ep_resource (eps t ! i) = ep_resource (eps s ! i)"
    using same_endpoints_nth eps_links_only [OF assms(1)] by blast
  then show ?thesis by (simp add: has_hash_def resource_of_def links_only_fields [OF assms(1)])
qed

lemma relink_step:
  assumes t: "relinked num eps peer s hs t" and wf: "wf_node s" and peer: "peer < CONFIG_UCCN_MAX_NUM_PEERS"
    and fresh: "\<And>i. i < num s \<Longrightarrow> \<not> has_link peer (eps s ! i)"
    and room: "\<And>i. i < num s \<Longrightarrow> \<not> is_full (eps s ! i)"
    and new: "h \<notin> set hs"
  shows "\<exists>ret t'. link peer h t = Inr (ret, t') \<and> ret \<ge> 0 \<and> (ret > 0 \<longleftrightarrow> matched s (num s) (eps s) h) \<and>
    relinked num eps peer s (hs @ [h]) t'"
proof -
  have t': "wf_node t" "links_only s t" using t by (simp_all add: relinked_def)
  have n: "num t = num s" using eps_links_only [OF t'(2)] by simp
  have same: "has_hash t h (eps t ! i) = has_hash s h (eps s ! i)" if "i < num s" for i
    by (rule same_hash [OF t'(2) wf that])
  have untouched: "eps t ! i = eps s ! i" if "i < num s" "has_hash s h (eps s ! i)" for i
  proof -
    have "\<forall>g\<in>set hs. \<not> has_hash s g (eps s ! i)" using that(2) new by (auto simp: has_hash_def)
    then show ?thesis using t that(1) by (simp add: relinked_def)
  qed
  let ?t = "store (link_first (has_hash t h) peer (num t) (eps t))
      (bump_links (word_of_nat (new_links (has_hash t h) peer (take (num t) (eps t)))) peer (peers t)) t"
  have ok: "\<not> (has_hash t h (eps t ! i) \<and> is_full (eps t ! i))" if "i < num t" for i
    using that untouched [of i] same [of i] room [of i] n by auto
  have link: "link peer h t = Inr (int (new_links (has_hash t h) peer (take (num t) (eps t))), ?t)"
    using link_ok [OF t'(1) peer, of h] ok by blast
  have len: "num t \<le> length (eps t)" using wf_eps [OF t'(1)] by (simp add: wf_endpoints_def)
  have "needs_link (has_hash t h) peer (eps t ! i) = has_hash s h (eps s ! i)" if "i < num s" for i
    using that same untouched fresh by (auto simp: needs_link_def has_link_def)
  then have made: "new_links (has_hash t h) peer (take (num t) (eps t)) > 0 \<longleftrightarrow> matched s (num s) (eps s) h"
    using new_links_pos [OF len, of "has_hash t h" peer] unfolding n matched_def by blast
  have keep: "wf_node ?t" "links_only t ?t" "accounted t \<and> peer < num_peers t \<longrightarrow> accounted ?t"
    using link_keeps [OF t'(1) peer, of h] by (simp_all add: link)
  have at: "eps ?t ! i = eps t ! i" if "i < num s" "\<not> has_hash s h (eps s ! i)" for i
    using that len same by (simp add: eps_store link_first_nth needs_link_def n)
  have linked: "has_link k (eps ?t ! i) \<longleftrightarrow> k = peer \<and> has_hash s h (eps s ! i) \<or> has_link k (eps t ! i)"
    if "i < num s" for k i
    using has_link_link_first [OF wf_eps [OF t'(1)], of i "has_hash t h" k peer] ok [of i] that same n
    by (auto simp: eps_store)
  have "relinked num eps peer s (hs @ [h]) ?t"
    unfolding relinked_def
  proof (intro conjI allI impI)
    show "wf_node ?t" by (rule keep)
    show "links_only s ?t" using t'(2) keep(2) by (rule links_only_trans)
    show "map but_links (peers ?t) = map but_links (peers s)" using t by (simp add: peers_store relinked_def)
    show "accounted ?t" if "accounted s \<and> peer < num_peers s"
      using that keep(3) t links_only_fields(1) [OF t'(2)] by (simp add: relinked_def)
    show "eps ?t ! i = eps s ! i" if "i < num s" "\<forall>g\<in>set (hs @ [h]). \<not> has_hash s g (eps s ! i)" for i
      using that at [of i] t by (simp add: relinked_def)
    show "has_link k (eps ?t ! i) \<longleftrightarrow>
        has_link k (eps s ! i) \<or> k = peer \<and> (\<exists>g\<in>set (hs @ [h]). has_hash s g (eps s ! i))" if "i < num s" for i k
      using that linked t by (auto simp: relinked_def)
  qed
  then show ?thesis using link made by simp
qed

lemma relink_loop:
  assumes wf: "wf_node s" and peer: "peer < CONFIG_UCCN_MAX_NUM_PEERS"
    and fresh: "\<And>i. i < num s \<Longrightarrow> \<not> has_link peer (eps s ! i)"
    and room: "\<And>i. i < num s \<Longrightarrow> \<not> is_full (eps s ! i)"
    and hs: "distinct hs" "length hs \<le> CONFIG_UCCN_MAX_NUM_RESOURCES" and "ret0 \<ge> 0"
  shows "wpf {} (for_loop (relink_body link peer hs) 0 (length hs) (ret0, s, [], False)) (\<lambda>(ret, t, made, failed).
    \<not> failed \<and> ret \<ge> 0 \<and> made = filter (matched s (num s) (eps s)) hs \<and> relinked num eps peer s hs t)"
proof (rule wpf_for_loop [where P = "\<lambda>j (ret, t, made, failed). \<not> failed \<and> ret \<ge> 0 \<and>
    made = filter (matched s (num s) (eps s)) (take j hs) \<and> relinked num eps peer s (take j hs) t"])
  fix j and x :: "int \<times> 'c sys \<times> u32 list \<times> bool"
  assume j: "j < length hs" and P: "case x of (ret, t, made, failed) \<Rightarrow> \<not> failed \<and> ret \<ge> 0 \<and>
    made = filter (matched s (num s) (eps s)) (take j hs) \<and> relinked num eps peer s (take j hs) t"
  obtain ret t made failed where x: "x = (ret, t, made, failed)" by (cases x)
  have t: "\<not> failed" "made = filter (matched s (num s) (eps s)) (take j hs)" "relinked num eps peer s (take j hs) t"
    using P by (simp_all add: x)
  have snoc: "take (Suc j) hs = take j hs @ [hs ! j]" using j by (simp add: take_Suc_conv_app_nth)
  have "hs ! j \<notin> set (take j hs)" using hs(1) j by (auto simp: distinct_conv_nth in_set_conv_nth)
  then obtain ret' t' where step: "link peer (hs ! j) t = Inr (ret', t')" "ret' \<ge> 0"
      "ret' > 0 \<longleftrightarrow> matched s (num s) (eps s) (hs ! j)" "relinked num eps peer s (take (Suc j) hs) t'"
    using relink_step [OF t(3) wf peer fresh room] unfolding snoc by blast
  have "length made \<le> j"
    using length_filter_le [of "matched s (num s) (eps s)" "take j hs"] by (simp add: t(2))
  then have "length made < CONFIG_UCCN_MAX_NUM_RESOURCES" using j hs(2) by simp
  then have "relink_body link peer hs j x =
      Inr (Continue (ret', t', filter (matched s (num s) (eps s)) (take (Suc j) hs), failed))"
    using j step by (auto simp: x relink_body_def push_def snoc t(2))
  then show "wpf {} (relink_body link peer hs j x) (\<lambda>c. case c of
      Continue (ret, t, made, failed) \<Rightarrow> \<not> failed \<and> ret \<ge> 0 \<and>
        made = filter (matched s (num s) (eps s)) (take (Suc j) hs) \<and> relinked num eps peer s (take (Suc j) hs) t
    | Break (ret, t, made, failed) \<Rightarrow> \<not> failed \<and> ret \<ge> 0 \<and>
        made = filter (matched s (num s) (eps s)) hs \<and> relinked num eps peer s hs t)"
    using step t(1) by simp
qed (use wf assms(7) in \<open>auto simp: relinked_def\<close>)

lemma relink_ok:
  assumes wf: "wf_node s" and peer: "peer < CONFIG_UCCN_MAX_NUM_PEERS"
    and room: "\<And>i. i < num s \<Longrightarrow> is_full (eps s ! i) \<Longrightarrow> has_link peer (eps s ! i)"
    and hs: "distinct hs" "length hs \<le> CONFIG_UCCN_MAX_NUM_RESOURCES"
  shows "\<exists>ret t p. relink unlink link f peer hs (length hs) s [] =
      Inr (ret, t, filter (matched s (num s) (eps s)) hs, False) \<and> ret \<ge> 0 \<and>
    map but_links (peers t) = (map but_links (peers s))[peer := but_links (f p)] \<and>
    but_links p = but_links (peers s ! peer) \<and> node_name t = node_name s \<and>
    (\<forall>i<num s. \<forall>k. has_link k (eps t ! i) \<longleftrightarrow>
      (if k = peer then \<exists>h\<in>set hs. has_hash s h (eps s ! i) else has_link k (eps s ! i)))"
proof -
  let ?n = "count_links peer (take (num s) (eps s))"
  let ?u = "store (unlink_all peer (num s) (eps s)) (bump_links (- word_of_nat ?n) peer (peers s)) s"
  have u: "unlink peer s = Inr (int ?n, ?u)" by (rule unlink_ok [OF wf peer])
  have keep: "wf_node ?u" "links_only s ?u" using unlink_keeps [OF wf peer] by (simp_all add: u)
  have n: "num ?u = num s" by (rule num_store)
  have links: "has_link k (eps ?u ! i) \<longleftrightarrow> k \<noteq> peer \<and> has_link k (eps s ! i)" if "i < num s" for i k
    using unlink_result [OF wf peer u that] .
  have len: "num s \<le> length (eps s)" using wf_eps [OF wf] by (simp add: wf_endpoints_def)
  have free: "\<not> is_full (eps ?u ! i)" if "i < num s" for i
  proof (cases "has_link peer (eps s ! i)")
    case True
    have "wf_endpoint (eps s ! i)" using wf_eps [OF wf] that by (simp add: wf_endpoints_def)
    then have "ep_num_peers (eps s ! i) \<le> CONFIG_UCCN_MAX_NUM_PEERS" by (simp add: wf_endpoint_def)
    then show ?thesis using True that len
      by (simp add: eps_store unlink_all_nth is_full_def unlink_first_def unlink_slot_def config_simps)
  next
    case False
    then show ?thesis using room [OF that] that len by (auto simp: eps_store unlink_all_nth)
  qed
  have hash: "has_hash ?u h (eps ?u ! i) = has_hash s h (eps s ! i)" if "i < num s" for h i
    by (rule same_hash [OF keep(2) wf that])
  have matched: "matched ?u (num ?u) (eps ?u) = matched s (num s) (eps s)"
    unfolding matched_def fun_eq_iff n using hash by blast
  have "wpf {} (for_loop (relink_body link peer hs) 0 (length hs) (int ?n, ?u, [], False)) (\<lambda>(ret, t, made, failed).
      \<not> failed \<and> ret \<ge> 0 \<and> made = filter (matched ?u (num ?u) (eps ?u)) hs \<and> relinked num eps peer ?u hs t)"
    by (rule relink_loop [OF keep(1) peer _ _ hs]) (simp_all add: links free n)
  then obtain ret t where loop: "for_loop (relink_body link peer hs) 0 (length hs) (int ?n, ?u, [], False) =
      Inr (ret, t, filter (matched s (num s) (eps s)) hs, False)" "ret \<ge> 0" "relinked num eps peer ?u hs t"
    unfolding matched by (auto simp: wpf_total)
  have t: "links_only ?u t" "map but_links (peers t) = map but_links (peers s)"
    using loop(3) by (simp_all add: relinked_def peers_store)
  have k: "peer < length (peers t)"
    using peer wf_nodeD(1) [OF wf] links_only_fields(13) [OF t(1)] links_only_fields(13) [OF keep(2)]
    by (simp add: wf_peers_def)
  let ?t = "t\<lparr>peers := (peers t)[peer := f (peers t ! peer)]\<rparr>"
  have run: "relink unlink link f peer hs (length hs) s [] =
      Inr (ret, ?t, filter (matched s (num s) (eps s)) hs, False)"
    using k by (simp add: relink_def u loop(1) set_peer_def)
  have "has_link j (eps ?t ! i) \<longleftrightarrow>
      (if j = peer then \<exists>h\<in>set hs. has_hash s h (eps s ! i) else has_link j (eps s ! i))" if "i < num s" for i j
    using loop(3) that links [OF that] hash [OF that] unfolding relinked_def eps_peers n by auto
  moreover have "map but_links (peers ?t) = (map but_links (peers s))[peer := but_links (f (peers t ! peer))]"
    by (simp add: map_update t(2))
  moreover have "but_links (peers t ! peer) = but_links (peers s ! peer)"
    using t(2) k by (metis length_map nth_map)
  moreover have "node_name ?t = node_name s"
    using links_only_fields(7) [OF t(1)] links_only_fields(7) [OF keep(2)] by simp
  ultimately show ?thesis using run loop(2) by blast
qed

end

section \<open>Reading a link packet\<close>

lemma expect_map_max: "n \<le> m \<Longrightarrow>
  mpack_expect_map_max_or_nil m (reading (enc_item (Item_Map n) @ rest)) = (True, n, reading rest)"
  unfolding mpack_expect_map_max_or_nil_def expect_map_roundtrip by simp

lemma expect_array_max: "n \<le> m \<Longrightarrow>
  mpack_expect_array_max_or_nil m (reading (enc_item (Item_Array n) @ rest)) = (True, n, reading rest)"
  unfolding mpack_expect_array_max_or_nil_def expect_array_roundtrip by simp

lemma read_hashes_ok:
  assumes "0 \<notin> set hs" and "length acc + length hs \<le> CONFIG_UCCN_MAX_NUM_RESOURCES"
  shows "for_loop read_hash_body j (j + length hs) (False, reading (enc_items (map Item_U32 hs) @ rest), acc) =
    Inr (False, reading rest, acc @ hs)"
  using assms
proof (induction hs arbitrary: j acc)
  case (Cons h hs)
  have "read_hash_body j (False, reading (enc_item (Item_U32 h) @ enc_items (map Item_U32 hs) @ rest), acc) =
      Inr (Continue (False, reading (enc_items (map Item_U32 hs) @ rest), acc @ [h]))"
    using Cons.prems by (simp add: read_hash_body_def expect_u32_roundtrip push_def del: enc_item.simps)
  then show ?case using Cons.IH [of "acc @ [h]" "Suc j"] Cons.prems
    by (simp add: for_loop_step del: enc_item.simps)
qed simp

definition named :: "nat \<Rightarrow> bytes \<Rightarrow> 'c sys \<Rightarrow> 'c sys" where
  "named peer name s = s\<lparr>peers := (peers s)[peer := (peers s ! peer)
     \<lparr>p_name := name @ 0 # drop (Suc (length name)) (p_name (peers s ! peer))\<rparr>]\<rparr>"

lemma link_group_name:
  assumes "registered (lg_node g)" and "peer < num_peers (lg_node g)" and "length name < 64" and "0 \<notin> set name"
    and "lg_reader g = reading (enc_item (Item_U8 UCCN_NODE_NAME) @ enc_item (Item_Str name) @ rest)"
  shows "link_group_body peer i g =
    Inr (Continue (g\<lparr>lg_reader := reading rest, lg_node := named peer name (lg_node g)\<rparr>))"
proof -
  have k: "peer < length (peers (lg_node g))" using peer_bound [OF assms(1,2)] by simp
  then have len: "length (p_name (peers (lg_node g) ! peer)) = 64"
    using assms(1) by (simp add: registered_def wf_node_def wf_names_nth config_simps)
  have "mpack_expect_cstr (reading (enc_item (Item_Str name) @ rest)) (p_name (peers (lg_node g) ! peer)) =
      (name @ 0 # drop (Suc (length name)) (p_name (peers (lg_node g) ! peer)), reading rest)"
    using len assms(3,4) by (intro expect_cstr_roundtrip) simp_all
  then show ?thesis using k
    by (simp add: link_group_body_def assms(5) expect_u8_roundtrip named_def Let_def del: enc_item.simps)
qed

lemma small_count:
  "length hs \<le> CONFIG_UCCN_MAX_NUM_RESOURCES \<Longrightarrow> unat (word_of_nat (length hs) :: u32) = length hs \<and>
   (word_of_nat (length hs) :: u32) \<le> word_of_nat CONFIG_UCCN_MAX_NUM_RESOURCES"
  by (simp add: config_simps word_le_nat_alt unat_of_nat)

text \<open>The two cases of arrays of hashes, for a checksum that is new.\<close>

lemma link_group_tracked:
  assumes "peer < length (peers (lg_node g))" and "0 \<notin> set hs" and "lg_hashes g = []" and "lg_provided g = []"
    and "length hs \<le> CONFIG_UCCN_MAX_NUM_RESOURCES"
    and "tracked_content_hash (peers (lg_node g) ! peer) \<noteq> content_hash hs"
    and "lg_reader g = reading (enc_item (Item_U8 UCCN_TRACKED_ARRAY) @
      enc_item (Item_Array (word_of_nat (length hs))) @ enc_items (map Item_U32 hs) @ rest)"
    and "relink uccn_unlink_providers uccn_link_providers (\<lambda>p. p\<lparr>tracked_content_hash := content_hash hs\<rparr>)
      peer hs (length hs) (lg_node g) [] = Inr (ret, t, made, False)"
  shows "link_group_body peer i g = Inr (Continue (g\<lparr>lg_ret := ret, lg_reader := reading rest, lg_node := t,
    lg_hashes := hs, lg_provided := made\<rparr>))"
proof -
  have codes: "UCCN_TRACKED_ARRAY \<noteq> UCCN_NODE_NAME" "UCCN_TRACKED_ARRAY \<noteq> UCCN_PROVIDED_ARRAY"
    by (simp_all add: config_simps)
  have hashes: "for_loop read_hash_body 0 (length hs) (False, reading (enc_items (map Item_U32 hs) @ rest), []) =
      Inr (False, reading rest, hs)"
    using read_hashes_ok [OF assms(2), of "[]" 0 rest] assms(5) by simp
  show ?thesis using assms(1,6,8) small_count [OF assms(5)] codes hashes
    by (simp add: link_group_body_def assms(3,4,7) expect_u8_roundtrip expect_array_max del: enc_item.simps)
qed

lemma link_group_provided:
  assumes "peer < length (peers (lg_node g))" and "0 \<notin> set hs" and "lg_hashes g = []" and "lg_tracked g = []"
    and "length hs \<le> CONFIG_UCCN_MAX_NUM_RESOURCES"
    and "provided_content_hash (peers (lg_node g) ! peer) \<noteq> content_hash hs"
    and "lg_reader g = reading (enc_item (Item_U8 UCCN_PROVIDED_ARRAY) @
      enc_item (Item_Array (word_of_nat (length hs))) @ enc_items (map Item_U32 hs) @ rest)"
    and "relink uccn_unlink_trackers uccn_link_trackers (\<lambda>p. p\<lparr>provided_content_hash := content_hash hs\<rparr>)
      peer hs (length hs) (lg_node g) [] = Inr (ret, t, made, False)"
  shows "link_group_body peer i g = Inr (Continue (g\<lparr>lg_ret := ret, lg_reader := reading rest, lg_node := t,
    lg_hashes := hs, lg_tracked := made\<rparr>))"
proof -
  have codes: "UCCN_PROVIDED_ARRAY \<noteq> UCCN_NODE_NAME" by (simp add: config_simps)
  have hashes: "for_loop read_hash_body 0 (length hs) (False, reading (enc_items (map Item_U32 hs) @ rest), []) =
      Inr (False, reading rest, hs)"
    using read_hashes_ok [OF assms(2), of "[]" 0 rest] assms(5) by simp
  show ?thesis using assms(1,6,8) small_count [OF assms(5)] codes hashes
    by (simp add: link_group_body_def assms(3,4,7) expect_u8_roundtrip expect_array_max del: enc_item.simps)
qed

lemma process_link_packet:
  assumes "registered s" and "peer < num_peers s" and "length name < 64" and "0 \<notin> set name"
    and "b_contents incoming = link_packet name code hs"
    and body: "\<And>g. g = \<lparr>lg_ret = 0, lg_reader = reading (enc_item (Item_U8 code) @
        enc_item (Item_Array (word_of_nat (length hs))) @ enc_items (map Item_U32 hs)),
        lg_node = named peer name s, lg_hashes = [], lg_provided = [], lg_tracked = [], lg_returned = False\<rparr> \<Longrightarrow>
      link_group_body peer 1 g = Inr (Continue (g\<lparr>lg_ret := ret, lg_reader := reading [], lg_node := t,
        lg_hashes := hs, lg_provided := pr, lg_tracked := tr\<rparr>))"
    and "c_string (node_name t) = Inr me" and "length (node_name t) = 64"
    and "length (enc_items (reply_items me tr pr)) \<le> b_size (outgoing_buffer s)"
  shows "uccn_process_packet peer incoming s = Inr (ret, t\<lparr>outgoing_buffer := b_written
    (fold write_item (reply_items me tr pr) (mpack_writer_init (b_size (outgoing_buffer s)))) (outgoing_buffer t)\<rparr>)"
proof -
  let ?tail = "enc_item (Item_U8 code) @ enc_item (Item_Array (word_of_nat (length hs))) @ enc_items (map Item_U32 hs)"
  let ?names = "enc_item (Item_U8 UCCN_NODE_NAME) @ enc_item (Item_Str name) @ ?tail"
  let ?w = "fold write_item (reply_items me tr pr) (mpack_writer_init (b_size (outgoing_buffer s)))"
  let ?g = "\<lparr>lg_ret = 0, lg_reader = reading ?names, lg_node = s, lg_hashes = [], lg_provided = [],
      lg_tracked = [], lg_returned = False\<rparr>"
  have bytes: "mpack_reader_init_data (b_contents incoming) = reading (enc_item (Item_Map 1) @
      enc_item (Item_U8 UCCN_LINK_GROUP) @ enc_item (Item_Map 2) @ ?names)"
    by (simp add: assms(5) link_packet_def link_items_def mpack_reader_init_data_def reading_def del: enc_item.simps)
  have first: "link_group_body peer 0 ?g =
      Inr (Continue (?g\<lparr>lg_reader := reading ?tail, lg_node := named peer name s\<rparr>))"
    using link_group_name [of ?g peer name ?tail 0] assms(1-4) by simp
  have loop: "for_loop (link_group_body peer) 0 2 ?g = Inr (?g\<lparr>lg_ret := ret, lg_reader := reading [], lg_node := t,
      lg_hashes := hs, lg_provided := pr, lg_tracked := tr\<rparr>)"
    using first body by (simp add: for_loop_step del: enc_item.simps)
  have two: "unat (2 :: u32) = 2" by simp
  have group: "uccn_process_link_group peer (reading (enc_item (Item_Map 2) @ ?names))
      (mpack_writer_init (b_size (outgoing_buffer s))) s = Inr (ret, reading [], ?w, t)"
    using loop two assms(7,8)
    by (simp add: uccn_process_link_group_def expect_map_max UCCN_MAX_NUM_LINK_DATA_def link_reply_items
        del: enc_item.simps)
  have fits: "w_error ?w = mpack_ok"
    using items.fold_ok_iff [of "mpack_writer_init (b_size (outgoing_buffer s))" "reply_items me tr pr"] assms(9)
    by (simp add: enc_items_def)
  have code: "UCCN_LINK_GROUP \<noteq> UCCN_CONTENT_GROUP" by (simp add: config_simps)
  have one: "unat (1 :: u32) = 1" by simp
  show ?thesis
    using group fits one code
    by (simp add: uccn_process_packet_def bytes expect_map_max UCCN_MAX_NUM_GROUPS_def for_loop_step
        process_packet_body_def expect_u8_roundtrip mpack_writer_destroy_def mpack_reader_destroy_def
        del: enc_item.simps)
      (simp add: reading_def)
qed

section \<open>The handshake\<close>

lemma registered_named:
  assumes "registered s" and "peer < num_peers s" and "length name < 64"
  shows "keeps s (named peer name s)"
proof -
  have "length (p_name (peers s ! peer)) = 64"
    using assms(1) peer_bound [OF assms(1,2)] by (simp add: registered_def wf_node_def wf_names_nth config_simps)
  then show ?thesis unfolding named_def using assms
    by (intro keeps_peer_update) (simp_all add: config_simps)
qed

text \<open>A string in a peer's name field.\<close>

lemma c_string_named:
  "peer < length (peers s) \<Longrightarrow> 0 \<notin> set name \<Longrightarrow> c_string (p_name (peers (named peer name s) ! peer)) = Inr name"
  by (simp add: named_def c_string_terminated)

lemma length_reply:
  assumes "length name < 64" and "length hs \<le> 10"
  shows "length (enc_items (reply_items name [] hs)) \<le> 130" "length (enc_items (reply_items name hs [])) \<le> 130"
proof -
  have "enc_items (reply_items name [] hs) = (if hs = [] then [] else link_packet name UCCN_PROVIDED_ARRAY (rev hs))"
    "enc_items (reply_items name hs []) = (if hs = [] then [] else link_packet name UCCN_TRACKED_ARRAY (rev hs))"
    by (simp_all add: reply_items_def link_packet_def link_items_def one_add_one del: enc_item.simps)
  then show "length (enc_items (reply_items name [] hs)) \<le> 130" "length (enc_items (reply_items name hs [])) \<le> 130"
    using length_link_packet [OF assms(1), of "rev hs"] assms(2) by simp_all
qed

lemma reply_packet:
  "enc_items (reply_items name [] hs) = (if hs = [] then [] else link_packet name UCCN_PROVIDED_ARRAY (rev hs))"
  "enc_items (reply_items name hs []) = (if hs = [] then [] else link_packet name UCCN_TRACKED_ARRAY (rev hs))"
  by (simp_all add: reply_items_def link_packet_def link_items_def one_add_one del: enc_item.simps)

lemma but_links_peer:
  assumes "map but_links ps = (map but_links qs)[k := but_links (f p)]" and "k < length qs"
    and "but_links p = but_links (qs ! k)"
    and "\<And>q r. but_links q = but_links r \<Longrightarrow> but_links (f q) = but_links (f r)"
  shows "but_links (ps ! k) = but_links (f (qs ! k))"
proof -
  have "length ps = length qs" using assms(1) by (metis length_list_update length_map)
  then have "but_links (ps ! k) = map but_links ps ! k" using assms(2) by simp
  also have "\<dots> = but_links (f p)" using assms(1,2) by simp
  also have "\<dots> = but_links (f (qs ! k))" by (rule assms(4) [OF assms(3)])
  finally show ?thesis .
qed

lemma but_links_fields:
  "but_links p = but_links q \<Longrightarrow> p_name p = p_name q \<and> tracked_content_hash p = tracked_content_hash q \<and>
   provided_content_hash p = provided_content_hash q"
  by (cases p; cases q) (simp add: but_links_def)

lemma but_links_checksum:
  "but_links q = but_links r \<Longrightarrow> but_links (q\<lparr>tracked_content_hash := h\<rparr>) = but_links (r\<lparr>tracked_content_hash := h\<rparr>)"
  "but_links q = but_links r \<Longrightarrow> but_links (q\<lparr>provided_content_hash := h\<rparr>) = but_links (r\<lparr>provided_content_hash := h\<rparr>)"
  by (cases q; cases r; simp add: but_links_def)+

text \<open>
  Processing a discovery packet. Exactly the providers of the tracked hashes are linked to the
  sender afterwards, the other peers' links stay, the sender's name and checksum are noted, and the
  reply in the outgoing buffer lists the hashes that the node provides, last one first.
\<close>

lemma process_discovery:
  assumes "registered s" and "peer < num_peers s" and "length name < 64" and "0 \<notin> set name"
    and "distinct hs" and "0 \<notin> set hs" and "length hs \<le> 10"
    and "b_contents incoming = link_packet name UCCN_TRACKED_ARRAY hs"
    and "tracked_content_hash (peers s ! peer) \<noteq> content_hash hs"
    and "\<forall>i<num_providers s. is_full (providers s ! i) \<longrightarrow> has_link peer (providers s ! i)"
    and "c_string (node_name s) = Inr me"
  defines "made \<equiv> filter (matched s (num_providers s) (providers s)) hs"
  shows "wpf {} (uccn_process_packet peer incoming s) (\<lambda>(ret, s'). ret \<ge> 0 \<and>
    tracked_content_hash (peers s' ! peer) = content_hash hs \<and>
    c_string (p_name (peers s' ! peer)) = Inr name \<and>
    (\<forall>i<num_providers s. \<forall>k. has_link k (providers s' ! i) \<longleftrightarrow>
      (if k = peer then res_hash (resource_of s (providers s ! i)) \<in> set hs else has_link k (providers s ! i))) \<and>
    b_contents (outgoing_buffer s') =
      (if made = [] then [] else link_packet me UCCN_PROVIDED_ARRAY (rev made)))"
proof -
  let ?s = "named peer name s"
  have wf: "wf_node s" using assms(1) by (simp add: registered_def)
  have k: "peer < length (peers s)" "peer < CONFIG_UCCN_MAX_NUM_PEERS" using peer_bound [OF assms(1,2)] by simp_all
  have s: "registered ?s" using keepsD [OF registered_named [OF assms(1-3)]] by (rule conjunct1)
  then have wf': "wf_node ?s" by (simp add: registered_def)
  have same: "providers ?s = providers s" "num_providers ?s = num_providers s" "node_name ?s = node_name s"
      "outgoing_buffer ?s = outgoing_buffer s"
    by (simp_all add: named_def)
  have hash: "has_hash ?s h ep = has_hash s h ep" for h and ep :: provider
    by (simp add: has_hash_def resource_of_def named_def)
  have room: "\<And>i. i < num_providers ?s \<Longrightarrow> is_full (providers ?s ! i) \<Longrightarrow> has_link peer (providers ?s ! i)"
    using assms(10) by (simp add: same)
  have len: "length hs \<le> CONFIG_UCCN_MAX_NUM_RESOURCES" using assms(7) by (simp add: config_simps)
  have matched: "matched ?s (num_providers s) (providers s) = matched s (num_providers s) (providers s)"
    by (simp add: fun_eq_iff matched_def hash same)
  obtain ret t p where relink: "relink uccn_unlink_providers uccn_link_providers
        (\<lambda>p. p\<lparr>tracked_content_hash := content_hash hs\<rparr>) peer hs (length hs) ?s [] = Inr (ret, t, made, False)"
      "ret \<ge> 0" "map but_links (peers t) = (map but_links (peers ?s))
        [peer := but_links (p\<lparr>tracked_content_hash := content_hash hs\<rparr>)]"
      "but_links p = but_links (peers ?s ! peer)" "node_name t = node_name s"
      "\<forall>i<num_providers s. \<forall>k. has_link k (providers t ! i) \<longleftrightarrow>
        (if k = peer then \<exists>h\<in>set hs. has_hash ?s h (providers s ! i) else has_link k (providers s ! i))"
    using provider_array.relink_ok [OF wf' k(2) room assms(5) len,
        of "\<lambda>p. p\<lparr>tracked_content_hash := content_hash hs\<rparr>", unfolded matched same]
    unfolding made_def by blast
  have name: "length (node_name t) = 64" "length me < 64"
    using wf c_string_eq_Inr [OF assms(11)] relink(5) by (simp_all add: wf_node_def config_simps)
  have few: "length made \<le> 10" unfolding made_def using length_filter_le assms(7) by (rule le_trans)
  have size: "b_size (outgoing_buffer s) = 512" using wf by (simp add: wf_node_def wf_buffer_def b_size_def config_simps)
  have fits: "length (enc_items (reply_items me [] made)) \<le> b_size (outgoing_buffer s)"
    using length_reply(1) [OF name(2) few] size by simp
  let ?w = "fold write_item (reply_items me [] made) (mpack_writer_init (b_size (outgoing_buffer s)))"
  have run: "uccn_process_packet peer incoming s = Inr (ret, t\<lparr>outgoing_buffer := b_written ?w (outgoing_buffer t)\<rparr>)"
  proof (rule process_link_packet [OF assms(1-4,8)])
    fix g :: "'a link_group"
    assume g: "g = \<lparr>lg_ret = 0, lg_reader = reading (enc_item (Item_U8 UCCN_TRACKED_ARRAY) @
        enc_item (Item_Array (word_of_nat (length hs))) @ enc_items (map Item_U32 hs)),
        lg_node = ?s, lg_hashes = [], lg_provided = [], lg_tracked = [], lg_returned = False\<rparr>"
    have "link_group_body peer 1 g = Inr (Continue (g\<lparr>lg_ret := ret, lg_reader := reading [], lg_node := t,
        lg_hashes := hs, lg_provided := made\<rparr>))"
      using link_group_tracked [of peer g hs "[]" ret t made 1] k(1) assms(6,9) len relink(1)
      by (simp add: g named_def)
    then show "link_group_body peer 1 g = Inr (Continue (g\<lparr>lg_ret := ret, lg_reader := reading [], lg_node := t,
        lg_hashes := hs, lg_provided := made, lg_tracked := []\<rparr>))"
      by (simp add: g)
  qed (use fits name relink(5) assms(11) in simp_all)
  have ok: "w_error ?w = mpack_ok"
    using items.fold_ok_iff [of "mpack_writer_init (b_size (outgoing_buffer s))" "reply_items me [] made"] fits
    by (simp add: enc_items_def)
  have reply: "b_contents (b_written ?w (outgoing_buffer t)) =
      (if made = [] then [] else link_packet me UCCN_PROVIDED_ARRAY (rev made))"
    using b_contents_written(1) [OF ok, of "outgoing_buffer t"] reply_packet(1) by (simp add: enc_items_def)
  have "but_links (peers t ! peer) = but_links ((peers ?s ! peer)\<lparr>tracked_content_hash := content_hash hs\<rparr>)"
    by (rule but_links_peer [where f = "\<lambda>p. p\<lparr>tracked_content_hash := content_hash hs\<rparr>",
          OF relink(3) _ relink(4) but_links_checksum(1)]) (simp_all add: k named_def)
  from but_links_fields [OF this] c_string_named [OF k(1) assms(4)]
  have fields: "tracked_content_hash (peers t ! peer) = content_hash hs" "c_string (p_name (peers t ! peer)) = Inr name"
    by simp_all
  have "(\<exists>h\<in>set hs. has_hash ?s h (providers s ! i)) \<longleftrightarrow> res_hash (resource_of s (providers s ! i)) \<in> set hs" for i
    unfolding hash by (auto simp: has_hash_def)
  then show ?thesis using relink(2,6) reply fields by (simp add: run)
qed

text \<open>
  Processing a reply. Exactly the trackers of the provided hashes are linked to the sender
  afterwards, the other peers' links stay, the sender's name and checksum are noted, and the answer
  in the outgoing buffer lists the hashes that made links, last one first.
\<close>

lemma process_reply:
  assumes "registered s" and "peer < num_peers s" and "length name < 64" and "0 \<notin> set name"
    and "distinct hs" and "0 \<notin> set hs" and "length hs \<le> 10"
    and "b_contents incoming = link_packet name UCCN_PROVIDED_ARRAY hs"
    and "provided_content_hash (peers s ! peer) \<noteq> content_hash hs"
    and "\<forall>i<num_trackers s. is_full (trackers s ! i) \<longrightarrow> has_link peer (trackers s ! i)"
    and "c_string (node_name s) = Inr me"
  defines "made \<equiv> filter (matched s (num_trackers s) (trackers s)) hs"
  shows "wpf {} (uccn_process_packet peer incoming s) (\<lambda>(ret, s'). ret \<ge> 0 \<and>
    provided_content_hash (peers s' ! peer) = content_hash hs \<and>
    c_string (p_name (peers s' ! peer)) = Inr name \<and>
    (\<forall>i<num_trackers s. \<forall>k. has_link k (trackers s' ! i) \<longleftrightarrow>
      (if k = peer then res_hash (resource_of s (trackers s ! i)) \<in> set hs else has_link k (trackers s ! i))) \<and>
    b_contents (outgoing_buffer s') =
      (if made = [] then [] else link_packet me UCCN_TRACKED_ARRAY (rev made)))"
proof -
  let ?s = "named peer name s"
  have wf: "wf_node s" using assms(1) by (simp add: registered_def)
  have k: "peer < length (peers s)" "peer < CONFIG_UCCN_MAX_NUM_PEERS" using peer_bound [OF assms(1,2)] by simp_all
  have s: "registered ?s" using keepsD [OF registered_named [OF assms(1-3)]] by (rule conjunct1)
  then have wf': "wf_node ?s" by (simp add: registered_def)
  have same: "trackers ?s = trackers s" "num_trackers ?s = num_trackers s" "node_name ?s = node_name s"
      "outgoing_buffer ?s = outgoing_buffer s"
    by (simp_all add: named_def)
  have hash: "has_hash ?s h ep = has_hash s h ep" for h and ep :: tracker
    by (simp add: has_hash_def resource_of_def named_def)
  have room: "\<And>i. i < num_trackers ?s \<Longrightarrow> is_full (trackers ?s ! i) \<Longrightarrow> has_link peer (trackers ?s ! i)"
    using assms(10) by (simp add: same)
  have len: "length hs \<le> CONFIG_UCCN_MAX_NUM_RESOURCES" using assms(7) by (simp add: config_simps)
  have matched: "matched ?s (num_trackers s) (trackers s) = matched s (num_trackers s) (trackers s)"
    by (simp add: fun_eq_iff matched_def hash same)
  obtain ret t p where relink: "relink uccn_unlink_trackers uccn_link_trackers
        (\<lambda>p. p\<lparr>provided_content_hash := content_hash hs\<rparr>) peer hs (length hs) ?s [] = Inr (ret, t, made, False)"
      "ret \<ge> 0" "map but_links (peers t) = (map but_links (peers ?s))
        [peer := but_links (p\<lparr>provided_content_hash := content_hash hs\<rparr>)]"
      "but_links p = but_links (peers ?s ! peer)" "node_name t = node_name s"
      "\<forall>i<num_trackers s. \<forall>k. has_link k (trackers t ! i) \<longleftrightarrow>
        (if k = peer then \<exists>h\<in>set hs. has_hash ?s h (trackers s ! i) else has_link k (trackers s ! i))"
    using tracker_array.relink_ok [OF wf' k(2) room assms(5) len,
        of "\<lambda>p. p\<lparr>provided_content_hash := content_hash hs\<rparr>", unfolded matched same]
    unfolding made_def by blast
  have name: "length (node_name t) = 64" "length me < 64"
    using wf c_string_eq_Inr [OF assms(11)] relink(5) by (simp_all add: wf_node_def config_simps)
  have few: "length made \<le> 10" unfolding made_def using length_filter_le assms(7) by (rule le_trans)
  have size: "b_size (outgoing_buffer s) = 512" using wf by (simp add: wf_node_def wf_buffer_def b_size_def config_simps)
  have fits: "length (enc_items (reply_items me made [])) \<le> b_size (outgoing_buffer s)"
    using length_reply(2) [OF name(2) few] size by simp
  let ?w = "fold write_item (reply_items me made []) (mpack_writer_init (b_size (outgoing_buffer s)))"
  have run: "uccn_process_packet peer incoming s = Inr (ret, t\<lparr>outgoing_buffer := b_written ?w (outgoing_buffer t)\<rparr>)"
  proof (rule process_link_packet [OF assms(1-4,8)])
    fix g :: "'a link_group"
    assume g: "g = \<lparr>lg_ret = 0, lg_reader = reading (enc_item (Item_U8 UCCN_PROVIDED_ARRAY) @
        enc_item (Item_Array (word_of_nat (length hs))) @ enc_items (map Item_U32 hs)),
        lg_node = ?s, lg_hashes = [], lg_provided = [], lg_tracked = [], lg_returned = False\<rparr>"
    have "link_group_body peer 1 g = Inr (Continue (g\<lparr>lg_ret := ret, lg_reader := reading [], lg_node := t,
        lg_hashes := hs, lg_tracked := made\<rparr>))"
      using link_group_provided [of peer g hs "[]" ret t made 1] k(1) assms(6,9) len relink(1)
      by (simp add: g named_def)
    then show "link_group_body peer 1 g = Inr (Continue (g\<lparr>lg_ret := ret, lg_reader := reading [], lg_node := t,
        lg_hashes := hs, lg_provided := [], lg_tracked := made\<rparr>))"
      by (simp add: g)
  qed (use fits name relink(5) assms(11) in simp_all)
  have ok: "w_error ?w = mpack_ok"
    using items.fold_ok_iff [of "mpack_writer_init (b_size (outgoing_buffer s))" "reply_items me made []"] fits
    by (simp add: enc_items_def)
  have reply: "b_contents (b_written ?w (outgoing_buffer t)) =
      (if made = [] then [] else link_packet me UCCN_TRACKED_ARRAY (rev made))"
    using b_contents_written(1) [OF ok, of "outgoing_buffer t"] reply_packet(2) by (simp add: enc_items_def)
  have "but_links (peers t ! peer) = but_links ((peers ?s ! peer)\<lparr>provided_content_hash := content_hash hs\<rparr>)"
    by (rule but_links_peer [where f = "\<lambda>p. p\<lparr>provided_content_hash := content_hash hs\<rparr>",
          OF relink(3) _ relink(4) but_links_checksum(2)]) (simp_all add: k named_def)
  from but_links_fields [OF this] c_string_named [OF k(1) assms(4)]
  have fields: "provided_content_hash (peers t ! peer) = content_hash hs" "c_string (p_name (peers t ! peer)) = Inr name"
    by simp_all
  have "(\<exists>h\<in>set hs. has_hash ?s h (trackers s ! i)) \<longleftrightarrow> res_hash (resource_of s (trackers s ! i)) \<in> set hs" for i
    unfolding hash by (auto simp: has_hash_def)
  then show ?thesis using relink(2,6) reply fields by (simp add: run)
qed

lemma distinct_idle_hashes:
  assumes "registered s"
  shows "distinct (idle_hashes s)"
proof -
  have "distinct (map (\<lambda>t. res_hash (resource_of s t)) (take (num_trackers s) (trackers s)))"
    using assms by (simp add: registered_def hash_table_def)
  then show ?thesis unfolding idle_hashes_def by (rule distinct_map_filter)
qed

lemma length_idle_hashes: "wf_node s \<Longrightarrow> length (idle_hashes s) \<le> 10"
proof -
  assume wf: "wf_node s"
  have "length (idle_hashes s) \<le> length (take (num_trackers s) (trackers s))"
    unfolding idle_hashes_def length_map by (rule length_filter_le)
  also have "\<dots> \<le> 10" using wf_node_counts(1) [OF wf] by (simp add: config_simps)
  finally show ?thesis .
qed

lemma idle_hashes_iff:
  assumes "registered s" and "i < num_trackers s"
  shows "res_hash (resource_of s (trackers s ! i)) \<in> set (idle_hashes s) \<longleftrightarrow> ep_num_peers (trackers s ! i) = 0"
proof -
  have n: "num_trackers s \<le> length (trackers s)" and table: "hash_table s (num_trackers s) (trackers s)"
    using assms(1) by (simp_all add: registered_def wf_node_def wf_endpoints_def)
  have mem: "t \<in> set (take (num_trackers s) (trackers s)) \<longleftrightarrow> (\<exists>j<num_trackers s. t = trackers s ! j)" for t
    using n by (auto simp: in_set_conv_nth)
  show ?thesis
    using table assms(2) unfolding hash_table_nth [OF n] idle_hashes_def
    by (auto simp: image_iff mem)
qed

text \<open>
  One exchange between the node \<open>sa\<close>, which knows the other as peer \<open>a\<close>, and \<open>sb\<close>, which knows
  the first as peer \<open>b\<close>: the first's discovery packet, and the second's reply to it.
\<close>

definition exchange :: "nat \<Rightarrow> nat \<Rightarrow> 'c sys \<Rightarrow> 'd sys \<Rightarrow> ('c sys \<times> 'd sys) result" where
  "exchange a b sa sb =
     rbind (uccn_prepare_discovery_packet sa (outgoing_buffer sa)) (\<lambda>(_, packet).
     rbind (uccn_process_packet b packet sb) (\<lambda>(_, sb).
     rbind (uccn_process_packet a (outgoing_buffer sb) sa) (\<lambda>(_, sa). Inr (sa, sb))))"

text \<open>
  C9: The discovery handshake. After one node's discovery packet has been processed by a second
  node and the second node's reply by the first, the first node's trackers that had no peer are
  linked to the second node exactly when it has a provider of their resource, and the second
  node's providers are linked to the first node exactly for those trackers.
\<close>

theorem discovery_handshake:
  assumes "registered sa" and "registered sb" and "a < num_peers sa" and "b < num_peers sb"
    and "0 \<notin> set (idle_hashes sa)"
    and "tracked_content_hash (peers sb ! b) \<noteq> content_hash (idle_hashes sa)"
    and "\<forall>i<num_providers sb. is_full (providers sb ! i) \<longrightarrow> has_link b (providers sb ! i)"
    and "\<forall>i<num_trackers sa. is_full (trackers sa ! i) \<longrightarrow> has_link a (trackers sa ! i)"
  defines "common \<equiv> filter (matched sb (num_providers sb) (providers sb)) (idle_hashes sa)"
  assumes "common \<noteq> []" and "provided_content_hash (peers sa ! a) \<noteq> content_hash (rev common)"
  shows "wpf {} (exchange a b sa sb) (\<lambda>(sa', sb').
    (\<forall>i<num_trackers sa. has_link a (trackers sa' ! i) \<longleftrightarrow> ep_num_peers (trackers sa ! i) = 0 \<and>
      matched sb (num_providers sb) (providers sb) (res_hash (resource_of sa (trackers sa ! i)))) \<and>
    (\<forall>j<num_providers sb. has_link b (providers sb' ! j) \<longleftrightarrow>
      res_hash (resource_of sb (providers sb ! j)) \<in> set (idle_hashes sa)))"
proof -
  have wf: "wf_node sa" "wf_node sb" using assms(1,2) by (simp_all add: registered_def)
  obtain na where na: "c_string (node_name sa) = Inr na" "length na < 64" "0 \<notin> set na"
    using node_name_string [OF wf(1)] .
  obtain nb where nb: "c_string (node_name sb) = Inr nb" "length nb < 64" "0 \<notin> set nb"
    using node_name_string [OF wf(2)] .
  have "b_size (outgoing_buffer sa) = CONFIG_UCCN_OUTGOING_BUFFER_SIZE"
    using wf(1) by (simp add: wf_node_def wf_buffer_def b_size_def)
  then obtain packet where run: "uccn_prepare_discovery_packet sa (outgoing_buffer sa) = Inr (0, packet)"
    and packet: "b_contents packet = link_packet na UCCN_TRACKED_ARRAY (idle_hashes sa)"
    using discovery_packet_contents [OF wf(1) na(1)] by blast
  from process_discovery [OF assms(2,4) na(2,3) distinct_idle_hashes [OF assms(1)] assms(5)
      length_idle_hashes [OF wf(1)] packet assms(6,7) nb(1)] assms(10)
  obtain r1 sb' where run': "uccn_process_packet b packet sb = Inr (r1, sb')"
    and b: "\<forall>i<num_providers sb. \<forall>k. has_link k (providers sb' ! i) \<longleftrightarrow>
      (if k = b then res_hash (resource_of sb (providers sb ! i)) \<in> set (idle_hashes sa)
       else has_link k (providers sb ! i))"
    and reply: "b_contents (outgoing_buffer sb') = link_packet nb UCCN_PROVIDED_ARRAY (rev common)"
    by (auto simp: common_def wpf_total)
  have common: "set common \<subseteq> set (idle_hashes sa)" "distinct common" "length common \<le> 10"
    unfolding common_def using distinct_idle_hashes [OF assms(1)] length_idle_hashes [OF wf(1)]
    by (auto intro: le_trans [OF length_filter_le])
  have nonzero: "0 \<notin> set common" using common(1) assms(5) by blast
  from process_reply [OF assms(1,3) nb(2,3) _ _ _ reply assms(11,8) na(1)] common(2,3) nonzero
  obtain r2 sa' where run'': "uccn_process_packet a (outgoing_buffer sb') sa = Inr (r2, sa')"
    and a: "\<forall>i<num_trackers sa. has_link a (trackers sa' ! i) \<longleftrightarrow>
      res_hash (resource_of sa (trackers sa ! i)) \<in> set common"
    by (auto simp: wpf_total)
  have "res_hash (resource_of sa (trackers sa ! i)) \<in> set common \<longleftrightarrow> ep_num_peers (trackers sa ! i) = 0 \<and>
      matched sb (num_providers sb) (providers sb) (res_hash (resource_of sa (trackers sa ! i)))"
    if "i < num_trackers sa" for i
    using idle_hashes_iff [OF assms(1) that] by (auto simp: common_def)
  then show ?thesis using a b by (simp add: exchange_def run run' run'')
qed

section \<open>Content packets\<close>

lemma process_content_packet:
  assumes "registered s" and "hash \<noteq> 0" and "bs \<noteq> []" and "length bs < 2 ^ 32"
    and "b_contents incoming = content_packet hash bs"
    and "uccn_process_content_blob peer hash (raw_buffer bs) s = Inr (ret, t)"
  shows "uccn_process_packet peer incoming s =
    Inr (ret, t\<lparr>outgoing_buffer := (outgoing_buffer t)\<lparr>b_length := 0\<rparr>\<rparr>)"
proof -
  let ?tail = "enc_item (Item_U32 hash) @ enc_item (Item_Bin bs)"
  have bytes: "mpack_reader_init_data (b_contents incoming) = reading (enc_item (Item_Map 1) @
      enc_item (Item_U8 UCCN_CONTENT_GROUP) @ enc_item (Item_Map 1) @ ?tail)"
    by (simp add: assms(5) content_packet_def content_items_def mpack_reader_init_data_def reading_def
        del: enc_item.simps)
  have one: "unat (1 :: u32) = 1" by simp
  have count: "unat (word_of_nat (length bs) :: u32) = length bs" using assms(4) by (rule unat_length_u32)
  have nonzero: "(word_of_nat (length bs) :: u32) \<noteq> 0" using assms(3) count by (metis length_0_conv unat_0)
  have bin: "mpack_expect_bin (reading (enc_item (Item_Bin bs))) = (word_of_nat (length bs), reading bs)"
    using expect_bin_roundtrip [OF assms(4), of "[]"] by simp
  have inplace: "mpack_read_bytes_inplace (reading bs) (length bs) = (Some bs, reading [])"
    by (simp add: mpack_read_bytes_inplace_def reading_def)
  have body: "content_group_body peer 0 (0, reading ?tail, s) =
      Inr (if ret \<noteq> 0 then Break (ret, reading [], t) else Continue (ret, reading [], t))"
    using assms(2,6) nonzero count inplace
    by (simp add: content_group_body_def expect_u32_roundtrip bin del: enc_item.simps)
  have group: "uccn_process_content_group peer (reading (enc_item (Item_Map 1) @ ?tail)) s = Inr (ret, reading [], t)"
    using body one
    by (simp add: uccn_process_content_group_def expect_map_roundtrip for_loop_step del: enc_item.simps)
  show ?thesis using group one
    by (simp add: uccn_process_packet_def bytes expect_map_max UCCN_MAX_NUM_GROUPS_def for_loop_step
        process_packet_body_def expect_u8_roundtrip mpack_reader_destroy_def del: enc_item.simps)
      (simp add: reading_def)
qed

lemma content_run:
  assumes "registered s" and "peer < num_peers s" and "hash \<noteq> 0" and "bs \<noteq> []" and "length bs < 2 ^ 32"
    and "b_contents incoming = content_packet hash bs"
    and "i < num_trackers s" and "res_hash (resource_of s (trackers s ! i)) = hash"
    and "res_unpack (resource_of s (trackers s ! i)) (raw_buffer bs) None = Inr (ret, content)" and "0 \<le> c_int ret"
  shows "wpf {} (uccn_process_packet peer incoming s) (\<lambda>(ret, s').
    trace s' = trace s @ [Tracked i (tr_track (trackers s ! i)) (tr_arg (trackers s ! i)) content] \<and>
    ret = (if is_full (trackers s ! i) then -1 else if has_link peer (trackers s ! i) then 0 else 1) \<and>
    has_link peer (trackers s' ! i) = (\<not> is_full (trackers s ! i) \<or> has_link peer (trackers s ! i)))"
proof -
  let ?t = "trackers s ! i"
  have wf: "wf_node s" and table: "hash_table s (num_trackers s) (trackers s)"
    using assms(1) by (simp_all add: registered_def)
  have n: "num_trackers s \<le> length (trackers s)" and t: "wf_endpoint ?t" and i: "i < length (trackers s)"
    and ps: "wf_peers (peers s)"
    using wf assms(7) by (auto simp: wf_node_def wf_endpoints_def)
  have max: "peer < CONFIG_UCCN_MAX_NUM_PEERS" using peer_bound [OF assms(1,2)] by simp
  let ?f = "\<lambda>j t. if res_hash (resource_of s t) = hash then Some j else None"
  have scan: "scan ?f (num_trackers s) (trackers s) = Inr (Some i)"
    using n
  proof (cases rule: scan_cases [where f = ?f])
    case none
    then show ?thesis using none(2) [OF assms(7)] assms(8) by simp
  next
    case (first j r)
    then have "r = j" "res_hash (resource_of s (trackers s ! j)) = hash" by (auto split: if_splits)
    then have "j = i" using table first(2) assms(7,8) unfolding hash_table_nth [OF n] by metis
    then show ?thesis using first \<open>r = j\<close> by simp
  qed
  let ?e = "Tracked i (tr_track ?t) (tr_arg ?t) content"
  have blob: "uccn_process_content_blob peer hash (raw_buffer bs) s =
      rbind (uccn_link ?t peer (peers s)) (\<lambda>(ret, t, ps).
        Inr (ret, s\<lparr>trace := trace s @ [?e], trackers := (trackers s)[i := t], peers := ps\<rparr>))"
    using i assms(9,10) by (simp add: uccn_process_content_blob_def scan)
  obtain ret' t' ps' where link: "uccn_link ?t peer (peers s) = Inr (ret', t', ps')"
    and ret': "ret' = (if is_full ?t then -1 else if has_link peer ?t then 0 else 1)"
    and t': "has_link peer t' = (\<not> is_full ?t \<or> has_link peer ?t)"
  proof (cases "is_full ?t")
    case True
    then show thesis using that uccn_link_full [of ?t peer "peers s"] by (simp add: is_full_def)
  next
    case False
    then have room: "ep_num_peers ?t < CONFIG_UCCN_MAX_NUM_PEERS" by (simp add: is_full_def)
    show thesis
    proof (cases "has_link peer ?t")
      case True
      then show thesis using that False uccn_link_known [OF t room, of peer "peers s"] by (simp add: has_link_def)
    next
      case new: False
      then show thesis using that False uccn_link_new [OF t ps room max] has_link_link_slot [OF t False, of peer peer]
        by (simp add: has_link_def)
    qed
  qed
  have run: "uccn_process_content_blob peer hash (raw_buffer bs) s =
      Inr (ret', s\<lparr>trace := trace s @ [?e], trackers := (trackers s)[i := t'], peers := ps'\<rparr>)"
    by (simp add: blob link)
  show ?thesis
    unfolding process_content_packet [OF assms(1,3-6) run] using ret' t' i by simp
qed

text \<open>
  C10: A content packet for a tracked resource calls the tracker's callback once, with the content
  unpacked from the bytes, and links the tracker to the sender; -1 is answered when the tracker has
  no room for another peer, 1 for a new link and 0 for a known one.
\<close>

theorem content_tracked:
  assumes "registered s" and "peer < num_peers s" and "hash \<noteq> 0" and "bs \<noteq> []" and "length bs < 2 ^ 32"
    and "b_contents incoming = content_packet hash bs"
    and "i < num_trackers s" and "res_hash (resource_of s (trackers s ! i)) = hash"
    and "res_unpack (resource_of s (trackers s ! i)) (raw_buffer bs) None = Inr (ret, content)" and "0 \<le> c_int ret"
  shows "wpf {} (uccn_process_packet peer incoming s) (\<lambda>(ret, s').
    trace s' = trace s @ [Tracked i (tr_track (trackers s ! i)) (tr_arg (trackers s ! i)) content] \<and>
    ret = (if is_full (trackers s ! i) then -1 else if has_link peer (trackers s ! i) then 0 else 1) \<and>
    has_link peer (trackers s' ! i) = (\<not> is_full (trackers s ! i) \<or> has_link peer (trackers s ! i)))"
  by (rule content_run [OF assms])

end
