(* ===== verification/Liveliness.thy ===== *)
theory Liveliness
  imports Delivery
begin

text \<open>
  What a spinning node does besides waiting: \<open>uccn_assert_liveliness\<close>, \<open>uccn_discover_peers\<close>,
  \<open>uccn_process_incoming\<close> with its unicast and broadcast variants, and \<open>uccn_probe_endpoints\<close> of
  \<open>src/uccn.c\<close>. A pointer that may be null and is written through is an \<open>option\<close> that is
  \<open>None\<close> for a null pointer.
\<close>

section \<open>Asserting liveliness\<close>

definition assert_body :: "timespec \<Rightarrow> bytes \<Rightarrow> nat \<Rightarrow> int \<times> timespec option \<times> 'c sys \<Rightarrow>
    (int \<times> timespec option \<times> 'c sys) ctl result" where
  "assert_body current_time packet i = (\<lambda>(ret, next_deadline, s).
     rbind (arr_get (peers s) i) (\<lambda>peer.
     if timespec_cmp current_time (next_local_deadline peer) \<ge> 0 then
       let (nbytes, s) = sys_sendto (socket s) (p_address peer) packet s in
       rbind (c_assert (nbytes < 0 \<or> nbytes = int (length packet))) (\<lambda>_.
       if nbytes < 0 then Inr (Break (nbytes, next_deadline, s))
       else
         let d = (if TIMESPEC_ISZERO (next_local_deadline peer) then current_time else next_local_deadline peer);
             d = timespec_add d g_uccn_liveliness_assert_timeout
         in Inr (Continue (ret, earlier next_deadline d,
              s\<lparr>peers := (peers s)[i := peer\<lparr>next_local_deadline := d\<rparr>]\<rparr>)))
     else Inr (Continue (ret, earlier next_deadline (next_local_deadline peer), s))))"

definition uccn_assert_liveliness ::
    "timespec option \<Rightarrow> 'c sys \<Rightarrow> (int \<times> timespec option \<times> 'c sys) result" where
  "uccn_assert_liveliness next_deadline s =
     (let (ret, packet) = uccn_prepare_keepalive_packet (outgoing_buffer s);
          s = s\<lparr>outgoing_buffer := packet\<rparr>
      in
      if ret < 0 then Inr (ret, next_deadline, s)
      else
        let (ret, current_time, s) = sys_clock s in
        if ret \<noteq> 0 then Inr (ret, next_deadline, s)
        else
          let next_deadline = map_option
            (\<lambda>_. timespec_add current_time g_uccn_liveliness_assert_timeout) next_deadline
          in for_loop (assert_body current_time (b_contents packet)) 0 (num_peers s) (ret, next_deadline, s))"

section \<open>Discovering peers\<close>

definition uccn_discover_peers :: "'c sys \<Rightarrow> (int \<times> 'c sys) result" where
  "uccn_discover_peers s =
     rbind (uccn_prepare_discovery_packet s (outgoing_buffer s)) (\<lambda>(ret, packet).
     let s = s\<lparr>outgoing_buffer := packet\<rparr> in
     if ret < 0 then Inr (ret, s)
     else
       let (nbytes, s) = sys_sendto (socket s) (broadcast_address s) (b_contents packet) s in
       rbind (c_assert (nbytes < 0 \<or> nbytes = int (b_length packet))) (\<lambda>_.
       Inr (if nbytes < 0 then nbytes else ret, s)))"

section \<open>Incoming packets\<close>

definition uccn_process_incoming :: "sockaddr_in \<Rightarrow> buffer \<Rightarrow> 'c sys \<Rightarrow> (int \<times> 'c sys) result" where
  "uccn_process_incoming origin incoming_packet s =
     rbind (uccn_register_peer origin s) (\<lambda>(peer, s).
     case peer of None \<Rightarrow> Inr (-1, s)
     | Some k \<Rightarrow>
         rbind (uccn_process_packet k incoming_packet s) (\<lambda>(ret, s).
         if ret < 0 then Inr (ret, s)
         else if b_length (outgoing_buffer s) > 0 then
           rbind (arr_get (peers s) k) (\<lambda>p.
           let outgoing_packet = outgoing_buffer s;
               (nbytes, s) = sys_sendto (socket s) (p_address p) (b_contents outgoing_packet) s
           in
           rbind (c_assert (nbytes < 0 \<or> nbytes = int (b_length outgoing_packet))) (\<lambda>_.
           Inr (if nbytes < 0 then nbytes else 0, s)))
         else Inr (0, s)))"

definition uccn_process_incoming_unicast :: "'c sys \<Rightarrow> (int \<times> 'c sys) result" where
  "uccn_process_incoming_unicast s =
     (case sys_recvfrom (socket s) s of
        (Recv_Error e, s) \<Rightarrow> Inr (e, s)
      | (Recv addr d, s) \<Rightarrow>
          let s = s\<lparr>incoming_buffer := (incoming_buffer s)\<lparr>b_length := length d\<rparr>\<rparr> in
          if same_sockaddr_in addr (address s) then Inr (-1, s)
          else uccn_process_incoming addr (incoming_buffer s) s)"

definition uccn_process_incoming_broadcast :: "'c sys \<Rightarrow> (int \<times> 'c sys) result" where
  "uccn_process_incoming_broadcast s =
     (case sys_recvfrom (broadcast_socket s) s of
        (Recv_Error e, s) \<Rightarrow> Inr (e, s)
      | (Recv addr d, s) \<Rightarrow>
          let s = s\<lparr>incoming_buffer := (incoming_buffer s)\<lparr>b_length := length d\<rparr>\<rparr> in
          if same_sockaddr_in addr (address s) then Inr (0, s)
          else uccn_process_incoming addr (incoming_buffer s) s)"

section \<open>Probing endpoints\<close>

definition mark_body :: "timespec \<Rightarrow> nat \<Rightarrow> peer list \<Rightarrow> peer list ctl result" where
  "mark_body current_time i ps = rbind (arr_get ps i) (\<lambda>p.
     Inr (Continue (ps[i := p\<lparr>alive := (timespec_cmp (next_remote_deadline p) current_time \<ge> 0)\<rparr>])))"

definition prune_body :: "peer list \<Rightarrow> nat \<Rightarrow> nat option \<times> 'e endpoint_scheme list \<Rightarrow>
    (nat option \<times> 'e endpoint_scheme list) ctl result" where
  "prune_body ps i = (\<lambda>(num_active, eps).
     rbind (arr_get eps i) (\<lambda>ep.
     rbind (uccn_unlink_dead_peers ep ps) (\<lambda>ep.
     Inr (Continue (if ep_num_peers ep > 0 then map_option Suc num_active else num_active, eps[i := ep])))))"

text \<open>
  The last loop takes its index back after a removal (\<open>--node->num_peers, --i\<close> and then \<open>++i\<close>),
  so a removal keeps the index.
\<close>

function remove_peers_from :: "nat \<Rightarrow> timespec option \<Rightarrow> nat \<Rightarrow> peer list \<Rightarrow>
    (timespec option \<times> nat \<times> peer list) result" where
  "remove_peers_from i next_probe_time n ps =
     (if i < n then
        rbind (arr_get ps i) (\<lambda>p.
        if \<not> alive p \<or> num_links p = 0 then
          rbind (shift_down i n ps) (\<lambda>ps. remove_peers_from i next_probe_time (n - 1) ps)
        else remove_peers_from (i + 1) (earlier next_probe_time (next_remote_deadline p)) n ps)
      else Inr (next_probe_time, n, ps))"
  by pat_completeness auto
termination
  by (relation "measure (\<lambda>(i, d, n, ps). n - i)") auto

declare remove_peers_from.simps [simp del]

definition uccn_probe_endpoints :: "nat option \<Rightarrow> nat option \<Rightarrow> timespec option \<Rightarrow> 'c sys \<Rightarrow>
    (int \<times> nat option \<times> nat option \<times> timespec option \<times> 'c sys) result" where
  "uccn_probe_endpoints num_active_trackers num_active_providers next_probe_time s =
     (let num_active_trackers = map_option (\<lambda>_. 0) num_active_trackers;
          num_active_providers = map_option (\<lambda>_. 0) num_active_providers;
          (ret, current_time, s) = sys_clock s
      in
      if ret \<noteq> 0 then Inr (ret, num_active_trackers, num_active_providers, next_probe_time, s)
      else
        rbind (for_loop (mark_body current_time) 0 (num_peers s) (peers s)) (\<lambda>ps.
        let s = s\<lparr>peers := ps\<rparr> in
        rbind (for_loop (prune_body (peers s)) 0 (num_trackers s) (num_active_trackers, trackers s))
          (\<lambda>(num_active_trackers, ts).
        let s = s\<lparr>trackers := ts\<rparr> in
        rbind (for_loop (prune_body (peers s)) 0 (num_providers s) (num_active_providers, providers s))
          (\<lambda>(num_active_providers, prs).
        let s = s\<lparr>providers := prs\<rparr>;
            next_probe_time = map_option
              (\<lambda>_. timespec_add current_time g_uccn_endpoint_probe_timeout) next_probe_time
        in
        rbind (remove_peers_from 0 next_probe_time (num_peers s) (peers s)) (\<lambda>(next_probe_time, n, ps).
        Inr (ret, num_active_trackers, num_active_providers, next_probe_time,
          s\<lparr>peers := ps, num_peers := n\<rparr>))))))"

section \<open>What the operations keep\<close>

lemma assert_loop_keeps:
  fixes s :: "'c sys"
  assumes "num_peers s \<le> length (peers s)"
  shows "wpf {Assert_Failed} (for_loop (assert_body t packet) 0 (num_peers s) (ret, d, s)) (\<lambda>(ret, d, u). sends_only s u)"
proof (rule wpf_for_loop [where P = "\<lambda>i x. sends_only s (snd (snd x))"])
  fix i and x :: "int \<times> timespec option \<times> 'c sys"
  assume i: "i < num_peers s" and x: "sends_only s (snd (snd x))"
  obtain r d u where xe: "x = (r, d, u)" by (cases x)
  have u: "sends_only s u" using x by (simp add: xe)
  have k: "i < length (peers u)" using sends_only_fields(10) [OF u] i assms by simp
  obtain n v where send: "sys_sendto (socket u) (p_address (peers u ! i)) packet u = (n, v)" by fastforce
  have v: "sends_only s v" using u sends_only_sendto [OF send] by (rule sends_only_trans)
  have "peers v = peers u" by (rule peers_sendto [OF send])
  then have "sends_only s (v\<lparr>peers := (peers v)[i := (peers u ! i)\<lparr>next_local_deadline := e\<rparr>]\<rparr>)" for e
    using sends_only_trans [OF v sends_only_deadline [of i v e]] k by simp
  then show "wpf {Assert_Failed} (assert_body t packet i x) (\<lambda>c. case c of Continue t' \<Rightarrow> sends_only s (snd (snd t'))
      | Break t' \<Rightarrow> case t' of (ret, d, u) \<Rightarrow> sends_only s u)"
    using k u v by (simp add: xe assert_body_def send c_assert_def Let_def)
qed auto

lemma registered_clock: "registered s \<Longrightarrow> sys_clock s = (ret, t, s') \<Longrightarrow> registered s' \<and> accounted s' = accounted s"
  by (auto simp: sys_clock_def Let_def registered_buffers split: prod.splits)

lemma b_size_outgoing: "registered s \<Longrightarrow> b_size (outgoing_buffer s) = 512"
  by (simp add: registered_def wf_node_def wf_buffer_def b_size_def config_simps)

lemma keepalive_stored:
  assumes "registered s" and "uccn_prepare_keepalive_packet (outgoing_buffer s) = (ret, packet)"
  shows "ret = 0" and "b_contents packet = [0xc0]" and "wf_buffer CONFIG_UCCN_OUTGOING_BUFFER_SIZE packet"
    and "b_length packet = 1"
proof -
  have "b_size (outgoing_buffer s) > 0" using b_size_outgoing [OF assms(1)] by simp
  note k = keepalive_contents [OF this]
  show "ret = 0" "b_contents packet = [0xc0]" using k(1,2) by (simp_all add: assms(2))
  have p: "packet = b_written (fold write_item [Item_Nil] (mpack_writer_init (b_size (outgoing_buffer s)))) (outgoing_buffer s)"
    using assms(2) by (simp add: uccn_prepare_keepalive_packet_def Let_def)
  show wf: "wf_buffer CONFIG_UCCN_OUTGOING_BUFFER_SIZE packet"
    unfolding p using assms(1)
    by (intro wf_buffer_written(1) [OF written_wf written_size]) (simp add: registered_def wf_node_def)
  have "length (b_contents packet) = b_length packet"
    using wf by (simp add: b_contents_def wf_buffer_def)
  then show "b_length packet = 1" using \<open>b_contents packet = [0xc0]\<close> by simp
qed

text \<open>Asserting liveliness keeps the node in order; only a short send can break it off.\<close>

lemma uccn_assert_liveliness_keeps:
  assumes "registered s"
  shows "wpf {Assert_Failed} (uccn_assert_liveliness d s) (\<lambda>(ret, d', s'). registered s' \<and>
    num_peers s' = num_peers s \<and> mutex_locked s' = mutex_locked s \<and> (accounted s \<longrightarrow> accounted s'))"
proof -
  obtain ret packet where p: "uccn_prepare_keepalive_packet (outgoing_buffer s) = (ret, packet)" by fastforce
  let ?s = "s\<lparr>outgoing_buffer := packet\<rparr>"
  obtain ret' t u where clock: "sys_clock ?s = (ret', t, u)" by (cases "sys_clock ?s") auto
  have s: "registered ?s" using assms keepalive_stored(3) [OF assms p] by (rule registered_buffers(1))
  have u: "registered u" "accounted u = accounted s" using registered_clock [OF s clock] by simp_all
  have same: "num_peers u = num_peers s" "mutex_locked u = mutex_locked s"
    using sends_only_fields [OF sends_only_clock [OF clock]] by simp_all
  have "num_peers u \<le> length (peers u)" using u(1) by (simp add: registered_def wf_node_def wf_peers_def)
  then have "wpf {Assert_Failed} (for_loop (assert_body t (b_contents packet)) 0 (num_peers u) (r, d', u))
      (\<lambda>(ret, d, v). registered v \<and> num_peers v = num_peers s \<and> mutex_locked v = mutex_locked s \<and>
        (accounted s \<longrightarrow> accounted v))" for r d'
    using registered_sends_only [OF u(1)] accounted_sends_only [of u] u same
    by (intro wpf_conseq [OF assert_loop_keeps]) (auto simp: sends_only_fields registered_def)
  then show ?thesis
    using u same keepalive_stored(1) [OF assms p]
    by (simp add: uccn_assert_liveliness_def p clock Let_def)
qed

text \<open>Looking for peers keeps the node in order.\<close>

lemma uccn_discover_peers_keeps:
  assumes "registered s"
  shows "wpf {Assert_Failed} (uccn_discover_peers s) (\<lambda>(ret, s'). registered s' \<and>
    num_peers s' = num_peers s \<and> mutex_locked s' = mutex_locked s \<and> (accounted s \<longrightarrow> accounted s'))"
proof -
  have wf: "wf_node s" using assms by (simp add: registered_def)
  obtain name where name: "c_string (node_name s) = Inr name" using node_name_string [OF wf] by blast
  have size: "b_size (outgoing_buffer s) = CONFIG_UCCN_OUTGOING_BUFFER_SIZE"
    using b_size_outgoing [OF assms] by (simp add: config_simps)
  obtain packet where p: "uccn_prepare_discovery_packet s (outgoing_buffer s) = Inr (0, packet)"
      "b_size packet = b_size (outgoing_buffer s)" "b_length packet \<le> 130"
    using discovery_packet_contents [OF wf name size] by blast
  let ?s = "s\<lparr>outgoing_buffer := packet\<rparr>"
  have "wf_buffer CONFIG_UCCN_OUTGOING_BUFFER_SIZE packet"
    using p(2,3) size by (simp add: wf_buffer_def b_size_def config_simps)
  with assms have s: "registered ?s" by (rule registered_buffers(1))
  obtain n u where send: "sys_sendto (socket ?s) (broadcast_address ?s) (b_contents packet) ?s = (n, u)" by fastforce
  have u: "sends_only ?s u" by (rule sends_only_sendto [OF send])
  then show ?thesis
    using registered_sends_only [OF s u] accounted_sends_only [OF _ u] s p(1) send sends_only_fields [OF u]
    by (simp add: uccn_discover_peers_def c_assert_def registered_def)
qed

text \<open>
  Whatever arrives, from whomever, processing it keeps the node in order; besides what a
  packet can do (see \<open>uccn_process_packet\<close>), only a short send of the answer breaks it off.
\<close>

lemma uccn_process_incoming_keeps:
  assumes "registered s" and "unpack_safe F (resources s)" and "Out_Of_Bounds \<in> F" and "Assert_Failed \<in> F"
  shows "wpf F (uccn_process_incoming origin incoming s) (\<lambda>(ret, s'). registered s' \<and>
    (accounted s \<longrightarrow> accounted s'))"
proof -
  let ?Q = "\<lambda>(ret, s'). registered s' \<and> (accounted s \<longrightarrow> accounted s')"
  have reg: "wpf F (uccn_register_peer origin s) (\<lambda>(k, u). registered u \<and> (accounted s \<longrightarrow> accounted u) \<and>
      resources u = resources s \<and> (case k of None \<Rightarrow> True | Some k \<Rightarrow> k < num_peers u))"
    by (rule wpf_mono [OF uccn_register_peer_keeps [OF assms(1)]]) (auto split: option.splits)
  show ?thesis
    unfolding uccn_process_incoming_def wpf_rbind
  proof (rule wpf_conseq [OF reg], clarify)
    fix k u
    assume u: "registered u" "accounted s \<longrightarrow> accounted u" "resources u = resources s"
      and k: "case k of None \<Rightarrow> True | Some k \<Rightarrow> k < num_peers u"
    show "wpf F (case k of None \<Rightarrow> Inr (-1, u) | Some k \<Rightarrow>
        rbind (uccn_process_packet k incoming u) (\<lambda>(ret, s). if ret < 0 then Inr (ret, s)
          else if b_length (outgoing_buffer s) > 0 then
            rbind (arr_get (peers s) k) (\<lambda>p. let outgoing_packet = outgoing_buffer s;
              (nbytes, s) = sys_sendto (socket s) (p_address p) (b_contents outgoing_packet) s in
              rbind (c_assert (nbytes < 0 \<or> nbytes = int (b_length outgoing_packet))) (\<lambda>_.
              Inr (if nbytes < 0 then nbytes else 0, s)))
          else Inr (0, s))) ?Q"
    proof (cases k)
      case None
      then show ?thesis using u by simp
    next
      case (Some j)
      have packet: "wpf F (uccn_process_packet j incoming u) (\<lambda>(ret, v). registered v \<and>
          num_peers v = num_peers u \<and> mutex_locked v = mutex_locked u \<and> (accounted u \<longrightarrow> accounted v))"
        using u(1,3) k Some assms by (intro uccn_process_packet_keeps) simp_all
      show ?thesis unfolding Some option.case wpf_rbind
      proof (rule wpf_conseq [OF packet], clarify)
        fix ret v assume v: "registered v" "num_peers v = num_peers u" "accounted u \<longrightarrow> accounted v"
        have j: "j < length (peers v)" using k Some v by (simp add: peer_bound)
        obtain n w where send: "sys_sendto (socket v) (p_address (peers v ! j)) (b_contents (outgoing_buffer v)) v = (n, w)"
          by fastforce
        have w: "sends_only v w" by (rule sends_only_sendto [OF send])
        show "wpf F (if ret < 0 then Inr (ret, v)
          else if b_length (outgoing_buffer v) > 0 then
            rbind (arr_get (peers v) j) (\<lambda>p. let outgoing_packet = outgoing_buffer v;
              (nbytes, s) = sys_sendto (socket v) (p_address p) (b_contents outgoing_packet) v in
              rbind (c_assert (nbytes < 0 \<or> nbytes = int (b_length outgoing_packet))) (\<lambda>_.
              Inr (if nbytes < 0 then nbytes else 0, s)))
          else Inr (0, v)) ?Q"
          using u v j send registered_sends_only [OF v(1) w] accounted_sends_only [OF _ w] assms(4)
          by (simp add: c_assert_def registered_def)
      qed
    qed
  qed
qed

section \<open>Keepalives\<close>

definition due :: "timespec \<Rightarrow> peer \<Rightarrow> bool" where
  "due t p \<longleftrightarrow> timespec_cmp t (next_local_deadline p) \<ge> 0"

definition reasserted :: "timespec \<Rightarrow> peer \<Rightarrow> peer" where
  "reasserted t p = (if due t p then p\<lparr>next_local_deadline := timespec_add
     (if TIMESPEC_ISZERO (next_local_deadline p) then t else next_local_deadline p)
     g_uccn_liveliness_assert_timeout\<rparr> else p)"

text \<open>The network delivers everything.\<close>

definition delivers :: "(nat \<Rightarrow> nat \<Rightarrow> int) \<Rightarrow> bool" where
  "delivers send \<longleftrightarrow> (\<forall>i len. send i len = int len)"

lemma sendto_delivers:
  "delivers (sendto s) \<Longrightarrow> sys_sendto fd addr packet s = (int (length packet),
     s\<lparr>sendto_calls := sendto_calls s + 1, trace := trace s @ [Sent fd addr packet]\<rparr>)"
  by (simp add: sys_sendto_def delivers_def)

lemma assert_loop:
  fixes s :: "'c sys"
  assumes "num_peers s \<le> length (peers s)" and "delivers (sendto s)"
  shows "wpf {} (for_loop (assert_body t packet) 0 (num_peers s) (0, Some d, s)) (\<lambda>(ret, d', u). ret = 0 \<and>
    peers u = map (reasserted t) (take (num_peers s) (peers s)) @ drop (num_peers s) (peers s) \<and>
    d' = fold (\<lambda>t d. earlier d t) (map (\<lambda>p. next_local_deadline (reasserted t p)) (take (num_peers s) (peers s))) (Some d) \<and>
    trace u = trace s @ map (\<lambda>p. Sent (socket s) (p_address p) packet) (filter (due t) (take (num_peers s) (peers s))))"
proof (rule wpf_for_loop [where P = "\<lambda>i (ret, d', u). ret = 0 \<and> socket u = socket s \<and> sendto u = sendto s \<and>
    peers u = map (reasserted t) (take i (peers s)) @ drop i (peers s) \<and>
    d' = fold (\<lambda>t d. earlier d t) (map (\<lambda>p. next_local_deadline (reasserted t p)) (take i (peers s))) (Some d) \<and>
    trace u = trace s @ map (\<lambda>p. Sent (socket s) (p_address p) packet) (filter (due t) (take i (peers s)))"])
  fix i and x :: "int \<times> timespec option \<times> 'c sys"
  assume i: "i < num_peers s" and P: "case x of (ret, d', u) \<Rightarrow> ret = 0 \<and> socket u = socket s \<and> sendto u = sendto s \<and>
    peers u = map (reasserted t) (take i (peers s)) @ drop i (peers s) \<and>
    d' = fold (\<lambda>t d. earlier d t) (map (\<lambda>p. next_local_deadline (reasserted t p)) (take i (peers s))) (Some d) \<and>
    trace u = trace s @ map (\<lambda>p. Sent (socket s) (p_address p) packet) (filter (due t) (take i (peers s)))"
  obtain ret d' u where x: "x = (ret, d', u)" by (cases x)
  have u: "ret = 0" "socket u = socket s" "sendto u = sendto s"
    "peers u = map (reasserted t) (take i (peers s)) @ drop i (peers s)"
    "d' = fold (\<lambda>t d. earlier d t) (map (\<lambda>p. next_local_deadline (reasserted t p)) (take i (peers s))) (Some d)"
    "trace u = trace s @ map (\<lambda>p. Sent (socket s) (p_address p) packet) (filter (due t) (take i (peers s)))"
    using P by (simp_all add: x)
  have len: "i < length (peers s)" using i assms(1) by simp
  have p: "i < length (peers u)" "peers u ! i = peers s ! i" using len by (simp_all add: u(4) nth_append)
  have split: "drop i (peers s) = peers s ! i # drop (Suc i) (peers s)" using len by (simp add: Cons_nth_drop_Suc)
  have set: "(peers u)[i := reasserted t (peers s ! i)] = map (reasserted t) (take (Suc i) (peers s)) @ drop (Suc i) (peers s)"
    using len by (simp add: u(4) split list_update_append take_Suc_conv_app_nth)
  have send: "delivers (sendto u)" using assms(2) u(3) by simp
  have keep: "map (reasserted t) (take (Suc i) (peers s)) @ drop (Suc i) (peers s) =
      map (reasserted t) (take i (peers s)) @ drop i (peers s)" if "\<not> due t (peers s ! i)"
    using that len by (simp add: split take_Suc_conv_app_nth reasserted_def)
  show "wpf {} (assert_body t packet i x) (\<lambda>c. case c of
      Continue x \<Rightarrow> (case x of (ret, d', u) \<Rightarrow> ret = 0 \<and> socket u = socket s \<and> sendto u = sendto s \<and>
        peers u = map (reasserted t) (take (Suc i) (peers s)) @ drop (Suc i) (peers s) \<and>
        d' = fold (\<lambda>t d. earlier d t) (map (\<lambda>p. next_local_deadline (reasserted t p)) (take (Suc i) (peers s))) (Some d) \<and>
        trace u = trace s @ map (\<lambda>p. Sent (socket s) (p_address p) packet) (filter (due t) (take (Suc i) (peers s))))
    | Break x \<Rightarrow> (case x of (ret, d', u) \<Rightarrow> ret = 0 \<and>
        peers u = map (reasserted t) (take (num_peers s) (peers s)) @ drop (num_peers s) (peers s) \<and>
        d' = fold (\<lambda>t d. earlier d t) (map (\<lambda>p. next_local_deadline (reasserted t p)) (take (num_peers s) (peers s))) (Some d) \<and>
        trace u = trace s @ map (\<lambda>p. Sent (socket s) (p_address p) packet) (filter (due t) (take (num_peers s) (peers s)))))"
  proof (cases "due t (peers s ! i)")
    case True
    then show ?thesis using p u len set
      by (simp add: x assert_body_def due_def sendto_delivers [OF send] Let_def take_Suc_conv_app_nth reasserted_def)
  next
    case False
    then show ?thesis using p u len keep
      by (simp add: x assert_body_def due_def take_Suc_conv_app_nth reasserted_def)
  qed
qed auto

lemma assert_liveliness_run:
  assumes "registered s" and "delivers (sendto s)" and "clock_gettime s (clock_calls s) = (0, t)"
    and "ps = take (num_peers s) (peers s)"
  shows "wpf {} (uccn_assert_liveliness (Some d) s) (\<lambda>(ret, d', s'). ret = 0 \<and>
    trace s' = trace s @ map (\<lambda>p. Sent (socket s) (p_address p) [0xc0]) (filter (due t) ps) \<and>
    take (num_peers s) (peers s') = map (reasserted t) ps \<and>
    (\<exists>e. d' = Some e \<and> timespec_cmp e (timespec_add t g_uccn_liveliness_assert_timeout) \<le> 0 \<and>
      (\<forall>p\<in>set ps. timespec_cmp e (next_local_deadline (reasserted t p)) \<le> 0)))"
proof -
  obtain ret packet where p: "uccn_prepare_keepalive_packet (outgoing_buffer s) = (ret, packet)" by fastforce
  note k = keepalive_stored [OF assms(1) p]
  let ?s = "s\<lparr>outgoing_buffer := packet, clock_calls := clock_calls s + 1\<rparr>"
  let ?d = "timespec_add t g_uccn_liveliness_assert_timeout"
  let ?ds = "map (\<lambda>p. next_local_deadline (reasserted t p)) ps"
  have clock: "sys_clock (s\<lparr>outgoing_buffer := packet\<rparr>) = (0, t, ?s)" using assms(3) by (simp add: sys_clock_def)
  have n: "num_peers s \<le> length (peers s)" using assms(1) by (simp add: registered_def wf_node_def wf_peers_def)
  obtain e where e: "fold (\<lambda>t d. earlier d t) ?ds (Some ?d) = Some e" "timespec_cmp e ?d \<le> 0"
      "\<forall>t\<in>set ?ds. timespec_cmp e t \<le> 0"
    using deadlines.fold_pick [of ?ds ?d] by blast
  have "wpf {} (for_loop (assert_body t [0xc0]) 0 (num_peers ?s) (0, Some ?d, ?s)) (\<lambda>(ret, d', u). ret = 0 \<and>
      peers u = map (reasserted t) (take (num_peers ?s) (peers ?s)) @ drop (num_peers ?s) (peers ?s) \<and>
      d' = fold (\<lambda>t d. earlier d t) (map (\<lambda>p. next_local_deadline (reasserted t p)) (take (num_peers ?s) (peers ?s))) (Some ?d) \<and>
      trace u = trace ?s @ map (\<lambda>p. Sent (socket ?s) (p_address p) [0xc0]) (filter (due t) (take (num_peers ?s) (peers ?s))))"
    using n assms(2) by (intro assert_loop) simp_all
  then have "wpf {} (for_loop (assert_body t [0xc0]) 0 (num_peers s) (0, Some ?d, ?s)) (\<lambda>(ret, d', s'). ret = 0 \<and>
    trace s' = trace s @ map (\<lambda>p. Sent (socket s) (p_address p) [0xc0]) (filter (due t) ps) \<and>
    take (num_peers s) (peers s') = map (reasserted t) ps \<and>
    (\<exists>e. d' = Some e \<and> timespec_cmp e ?d \<le> 0 \<and>
      (\<forall>p\<in>set ps. timespec_cmp e (next_local_deadline (reasserted t p)) \<le> 0)))"
    using e n by (auto simp: assms(4) [symmetric] elim!: wpf_conseq) (simp_all add: assms(4))
  then show ?thesis by (simp add: uccn_assert_liveliness_def p k(1,2) clock)
qed


section \<open>Answers to incoming packets\<close>

text \<open>
  A node whose table of peers is full refuses every packet, also those of the peers it knows.
\<close>

theorem incoming_table_full:
  assumes "num_peers s = CONFIG_UCCN_MAX_NUM_PEERS"
  shows "uccn_process_incoming origin incoming s = Inr (-1, s)"
  using assms by (simp add: uccn_process_incoming_def uccn_register_peer_def)

text \<open>
  A keepalive packet is answered with whatever packet the node sent last: it leaves the outgoing
  buffer as it is. Two nodes whose last packets were keepalives answer each other for ever.
\<close>

theorem keepalive_echo:
  assumes "registered s" and "num_peers s < CONFIG_UCCN_MAX_NUM_PEERS" and "delivers (sendto s)"
    and "clock_gettime s (clock_calls s) = (0, t)" and "b_length (outgoing_buffer s) > 0"
    and "b_contents incoming = [0xc0]"
  shows "wpf {} (uccn_process_incoming origin incoming s) (\<lambda>(ret, s'). ret = 0 \<and>
    trace s' = trace s @ [Sent (socket s) origin (b_contents (outgoing_buffer s))] \<and>
    outgoing_buffer s' = outgoing_buffer s)"
proof -
  have wf: "wf_node s" using assms(1) by (simp add: registered_def)
  let ?s = "s\<lparr>clock_calls := clock_calls s + 1\<rparr>"
  have clock: "sys_clock s = (0, t, ?s)" using assms(4) by (simp add: sys_clock_def)
  have keepalive: "uccn_process_packet k incoming u = Inr (0, u)" for k and u :: "'a sys"
    using keepalive_packet [OF assms(6)] .
  have out: "length (b_contents (outgoing_buffer s)) = b_length (outgoing_buffer s)"
    using wf by (simp add: wf_node_def wf_buffer_def b_contents_def)
  have len: "num_peers s < length (peers s)" using wf assms(2) by (simp add: wf_node_def wf_peers_def)
  have "(0 :: int) \<ge> 0" by simp
  with wf assms(2) clock show ?thesis
  proof (cases rule: uccn_register_peer_cases [where addr = origin])
    case (known i)
    let ?u = "?s\<lparr>peers := (peers s)[i := (peers s ! i)\<lparr>next_remote_deadline :=
      timespec_add t g_uccn_liveliness_timeout\<rparr>]\<rparr>"
    have "delivers (sendto ?u)" using assms(3) by simp
    then show ?thesis using known(1,2,4) keepalive assms(5) out len
      by (simp add: uccn_process_incoming_def sendto_delivers)
  next
    case new
    let ?u = "?s\<lparr>peers := (peers s)[num_peers s := new_peer origin (timespec_add t g_uccn_liveliness_timeout)],
      num_peers := num_peers s + 1\<rparr>"
    have "delivers (sendto ?u)" using assms(3) by simp
    then show ?thesis using new(2) keepalive assms(5) out len
      by (simp add: uccn_process_incoming_def sendto_delivers new_peer_def)
  qed
qed

section \<open>Probing\<close>

definition mark :: "timespec \<Rightarrow> peer \<Rightarrow> peer" where
  "mark t p = p\<lparr>alive := (timespec_cmp (next_remote_deadline p) t \<ge> 0)\<rparr>"

definition marked :: "timespec \<Rightarrow> nat \<Rightarrow> peer list \<Rightarrow> peer list" where
  "marked t n ps = map (mark t) (take n ps) @ drop n ps"

lemma length_marked [simp]: "length (marked t n ps) = length ps"
  by (simp add: marked_def)

lemma mark_loop:
  assumes "n \<le> length ps"
  shows "for_loop (mark_body t) 0 n ps = Inr (marked t n ps)"
proof -
  have "wpf {} (for_loop (mark_body t) 0 n ps) (\<lambda>qs. qs = marked t n ps)"
  proof (rule wpf_for_loop [where P = "\<lambda>i qs. qs = marked t i ps"])
    fix i qs assume i: "i < n" and qs: "qs = marked t i ps"
    have split: "drop i ps = ps ! i # drop (Suc i) ps" using i assms by (simp add: Cons_nth_drop_Suc)
    have "qs ! i = ps ! i" "i < length qs" using i assms by (simp_all add: qs marked_def nth_append)
    moreover have "qs[i := mark t (ps ! i)] = marked t (Suc i) ps"
      using i assms by (simp add: qs marked_def split list_update_append take_Suc_conv_app_nth)
    ultimately show "wpf {} (mark_body t i qs) (\<lambda>c. case c of Continue t' \<Rightarrow> t' = marked t (Suc i) ps
        | Break t' \<Rightarrow> t' = marked t n ps)"
      by (simp add: mark_body_def mark_def)
  qed (simp_all add: marked_def)
  then show ?thesis by (auto simp: wpf_total)
qed

text \<open>The endpoints after the links to dead peers are gone.\<close>

definition pruned :: "peer list \<Rightarrow> nat \<Rightarrow> 'e endpoint_scheme list \<Rightarrow> 'e endpoint_scheme list \<Rightarrow> bool" where
  "pruned ps n eps eps' \<longleftrightarrow> wf_endpoints n eps' \<and> same_endpoints eps eps' \<and>
     (\<forall>i<n. linked (eps' ! i) = filter (alive_in ps) (linked (eps ! i)))"

lemma prune_loop:
  fixes eps :: "'e endpoint_scheme list"
  assumes "wf_endpoints n eps" and "wf_peers ps"
  shows "wpf {} (for_loop (prune_body ps) 0 n (num, eps)) (\<lambda>(num', eps'). pruned ps n eps eps' \<and>
    num' = map_option (\<lambda>m. m + length (filter (\<lambda>ep. ep_num_peers ep > 0) (take n eps'))) num)"
proof (rule wpf_for_loop [where P = "\<lambda>i (num', eps'). wf_endpoints n eps' \<and> same_endpoints eps eps' \<and>
    drop i eps' = drop i eps \<and> (\<forall>j<i. linked (eps' ! j) = filter (alive_in ps) (linked (eps ! j))) \<and>
    num' = map_option (\<lambda>m. m + length (filter (\<lambda>ep. ep_num_peers ep > 0) (take i eps'))) num"])
  show "case (num, eps) of (num', eps') \<Rightarrow> wf_endpoints n eps' \<and> same_endpoints eps eps' \<and>
    drop 0 eps' = drop 0 eps \<and> (\<forall>j<0. linked (eps' ! j) = filter (alive_in ps) (linked (eps ! j))) \<and>
    num' = map_option (\<lambda>m. m + length (filter (\<lambda>ep. ep_num_peers ep > 0) (take 0 eps'))) num"
    using assms(1) by (simp add: option.map_ident)
next
  fix i and x :: "nat option \<times> 'e endpoint_scheme list"
  assume i: "i < n" and P: "case x of (num', eps') \<Rightarrow> wf_endpoints n eps' \<and> same_endpoints eps eps' \<and>
    drop i eps' = drop i eps \<and> (\<forall>j<i. linked (eps' ! j) = filter (alive_in ps) (linked (eps ! j))) \<and>
    num' = map_option (\<lambda>m. m + length (filter (\<lambda>ep. ep_num_peers ep > 0) (take i eps'))) num"
  obtain num' eps' where x: "x = (num', eps')" by (cases x)
  have e: "wf_endpoints n eps'" "same_endpoints eps eps'" "drop i eps' = drop i eps"
    "\<forall>j<i. linked (eps' ! j) = filter (alive_in ps) (linked (eps ! j))"
    "num' = map_option (\<lambda>m. m + length (filter (\<lambda>ep. ep_num_peers ep > 0) (take i eps'))) num"
    using P by (simp_all add: x)
  have len: "i < length eps'" "length eps' = length eps"
    using i e(1,2) by (auto simp: wf_endpoints_def same_endpoints_def dest: map_eq_imp_length_eq)
  have here: "eps' ! i = eps ! i" using e(3) len by (metis hd_drop_conv_nth)
  have wf: "wf_endpoint (eps' ! i)" using e(1) i by (simp add: wf_endpoints_def)
  obtain a m where dead: "uccn_unlink_dead_peers (eps' ! i) ps = Inr ((eps' ! i)\<lparr>ep_peers := a, ep_num_peers := m\<rparr>)"
      "wf_endpoint ((eps' ! i)\<lparr>ep_peers := a, ep_num_peers := m\<rparr>)"
      "linked ((eps' ! i)\<lparr>ep_peers := a, ep_num_peers := m\<rparr>) = filter (alive_in ps) (linked (eps' ! i))"
    using uccn_unlink_dead_peers_ok [OF wf assms(2)] by blast
  let ?ep = "(eps' ! i)\<lparr>ep_peers := a, ep_num_peers := m\<rparr>"
  have "wf_endpoints n (eps'[i := ?ep])"
    by (rule wf_endpoints_set [OF e(1) i dead(2)])
  moreover have "same_endpoints eps (eps'[i := ?ep])"
    using e(2) len by (simp add: same_endpoints_def map_update_same)
  moreover have "drop (Suc i) (eps'[i := ?ep]) = drop (Suc i) eps"
    using e(3) len by simp (metis Cons_nth_drop_Suc drop_Suc tl_drop)
  moreover have "take (Suc i) (eps'[i := ?ep]) = take i eps' @ [?ep]"
    using len by (simp add: take_update_append)
  moreover have "\<forall>j<Suc i. linked (eps'[i := ?ep] ! j) = filter (alive_in ps) (linked (eps ! j))"
    using e(4) dead(3) len here by (auto simp: less_Suc_eq nth_list_update)
  ultimately show "wpf {} (prune_body ps i x) (\<lambda>c. case c of
      Continue y \<Rightarrow> (case y of (num', eps') \<Rightarrow> wf_endpoints n eps' \<and> same_endpoints eps eps' \<and>
        drop (Suc i) eps' = drop (Suc i) eps \<and>
        (\<forall>j<Suc i. linked (eps' ! j) = filter (alive_in ps) (linked (eps ! j))) \<and>
        num' = map_option (\<lambda>m. m + length (filter (\<lambda>ep. ep_num_peers ep > 0) (take (Suc i) eps'))) num)
    | Break y \<Rightarrow> (case y of (num', eps') \<Rightarrow> pruned ps n eps eps' \<and>
        num' = map_option (\<lambda>m. m + length (filter (\<lambda>ep. ep_num_peers ep > 0) (take n eps'))) num))"
    using len dead(1) e(5) by (cases num) (simp_all add: x prune_body_def)
qed (auto simp: pruned_def)

definition kept :: "peer \<Rightarrow> bool" where
  "kept p \<longleftrightarrow> alive p \<and> num_links p \<noteq> 0"

lemma remove_peers_ok:
  "i \<le> n \<Longrightarrow> n \<le> length ps \<Longrightarrow>
   \<exists>ps'. remove_peers_from i d n ps = Inr (fold (\<lambda>t d. earlier d t)
       (map next_remote_deadline (filter kept (drop i (take n ps)))) d,
     i + length (filter kept (drop i (take n ps))), ps') \<and>
   length ps' = length ps \<and> set ps' \<subseteq> set ps \<and>
   take (i + length (filter kept (drop i (take n ps)))) ps' = take i ps @ filter kept (drop i (take n ps))"
proof (induction i d n ps rule: remove_peers_from.induct)
  case (1 i d n ps)
  show ?case
  proof (cases "i < n")
    case False
    then show ?thesis using 1(3,4) by (subst remove_peers_from.simps) simp
  next
    case True
    have get: "arr_get ps i = Inr (ps ! i)" using True 1(4) by simp
    have split: "drop i (take n ps) = ps ! i # drop (Suc i) (take n ps)"
      using True 1(4) by (simp add: Cons_nth_drop_Suc [symmetric])
    show ?thesis
    proof (cases "kept (ps ! i)")
      case k: True
      then have cond: "\<not> (\<not> alive (ps ! i) \<or> num_links (ps ! i) = 0)" by (simp add: kept_def)
      have step: "remove_peers_from i d n ps =
          remove_peers_from (i + 1) (earlier d (next_remote_deadline (ps ! i))) n ps"
        using True get cond by (simp add: remove_peers_from.simps [of i d n ps])
      have "take (Suc i) ps = take i ps @ [ps ! i]" using True 1(4) by (simp add: take_Suc_conv_app_nth)
      then show ?thesis
        using 1(2) [OF True get cond] True 1(4) k by (simp add: step split)
    next
      case dead: False
      then have cond: "\<not> alive (ps ! i) \<or> num_links (ps ! i) = 0" by (simp add: kept_def)
      have shift: "shift_down i n ps = Inr (shifted i n ps)" using True 1(4) by (rule shift_down_ok)
      have step: "remove_peers_from i d n ps = remove_peers_from i d (n - 1) (shifted i n ps)"
        using True get cond shift by (simp add: remove_peers_from.simps [of i d n ps])
      have take: "take (n - 1) (shifted i n ps) = take i ps @ drop (i + 1) (take n ps)"
        using True 1(4) by (rule take_shifted)
      have drop: "drop i (take (n - 1) (shifted i n ps)) = drop (Suc i) (take n ps)"
        unfolding take using True 1(4) by simp
      have pre: "take i (shifted i n ps) = take i ps"
        using True 1(4) by (simp add: shifted_def)
      have sub: "set (shifted i n ps) \<subseteq> set ps"
        unfolding shifted_def using set_take_subset set_drop_subset in_set_dropD in_set_takeD by fastforce
      have "i \<le> n - 1" "n - 1 \<le> length (shifted i n ps)" using True 1(4) by simp_all
      from 1(1) [OF True get cond shift this] show ?thesis
        using dead sub True 1(4) unfolding step drop pre split by auto
    qed
  qed
qed

text \<open>The peers that a probe keeps, and the run of a probe.\<close>

definition survivors :: "timespec \<Rightarrow> 'c sys \<Rightarrow> peer list" where
  "survivors t s = filter kept (map (mark t) (take (num_peers s) (peers s)))"

lemma probe_run:
  fixes s :: "'c sys"
  assumes "registered s" and "clock_gettime s (clock_calls s) = (0, t)"
  defines "ms \<equiv> marked t (num_peers s) (peers s)"
  shows "\<exists>ts prs ps'. uccn_probe_endpoints nt np nd s = Inr (0,
      map_option (\<lambda>_. length (filter (\<lambda>ep. ep_num_peers ep > 0) (take (num_trackers s) ts))) nt,
      map_option (\<lambda>_. length (filter (\<lambda>ep. ep_num_peers ep > 0) (take (num_providers s) prs))) np,
      fold (\<lambda>t d. earlier d t) (map next_remote_deadline (survivors t s))
        (map_option (\<lambda>_. timespec_add t g_uccn_endpoint_probe_timeout) nd),
      s\<lparr>clock_calls := clock_calls s + 1, trackers := ts, providers := prs, peers := ps',
        num_peers := length (survivors t s)\<rparr>) \<and>
    pruned ms (num_trackers s) (trackers s) ts \<and> pruned ms (num_providers s) (providers s) prs \<and>
    length ps' = length (peers s) \<and> set ps' \<subseteq> set ms \<and> take (length (survivors t s)) ps' = survivors t s"
proof -
  have wf: "wf_node s" using assms(1) by (simp add: registered_def)
  have n: "num_peers s \<le> length (peers s)" using wf by (simp add: wf_node_def wf_peers_def)
  have ms: "wf_peers ms" using wf by (simp add: ms_def wf_node_def wf_peers_def)
  let ?s = "s\<lparr>clock_calls := clock_calls s + 1\<rparr>"
  have clock: "sys_clock s = (0, t, ?s)" using assms(2) by (simp add: sys_clock_def)
  obtain nt' ts where ts: "for_loop (prune_body ms) 0 (num_trackers s) (map_option (\<lambda>_. 0) nt, trackers s) = Inr (nt', ts)"
      "pruned ms (num_trackers s) (trackers s) ts"
      "nt' = map_option (\<lambda>_. length (filter (\<lambda>ep. ep_num_peers ep > 0) (take (num_trackers s) ts))) nt"
    using prune_loop [OF wf_nodeD(4) [OF wf] ms, of "map_option (\<lambda>_. 0) nt"]
    by (auto simp: wpf_total option.map_comp comp_def)
  obtain np' prs where prs: "for_loop (prune_body ms) 0 (num_providers s) (map_option (\<lambda>_. 0) np, providers s) = Inr (np', prs)"
      "pruned ms (num_providers s) (providers s) prs"
      "np' = map_option (\<lambda>_. length (filter (\<lambda>ep. ep_num_peers ep > 0) (take (num_providers s) prs))) np"
    using prune_loop [OF wf_nodeD(5) [OF wf] ms, of "map_option (\<lambda>_. 0) np"]
    by (auto simp: wpf_total option.map_comp comp_def)
  let ?d = "map_option (\<lambda>_. timespec_add t g_uccn_endpoint_probe_timeout) nd"
  have surv: "filter kept (drop 0 (take (num_peers s) ms)) = survivors t s"
    using n by (simp add: ms_def marked_def survivors_def)
  have "num_peers s \<le> length ms" using n by (simp add: ms_def)
  from remove_peers_ok [OF _ this, of 0 ?d]
  obtain ps' where ps': "remove_peers_from 0 ?d (num_peers s) ms =
      Inr (fold (\<lambda>t d. earlier d t) (map next_remote_deadline (survivors t s)) ?d, length (survivors t s), ps')"
      "length ps' = length ms" "set ps' \<subseteq> set ms" "take (length (survivors t s)) ps' = survivors t s"
    unfolding surv by auto
  have "uccn_probe_endpoints nt np nd s = Inr (0, nt', np',
      fold (\<lambda>t d. earlier d t) (map next_remote_deadline (survivors t s)) ?d,
      s\<lparr>clock_calls := clock_calls s + 1, trackers := ts, providers := prs, peers := ps',
        num_peers := length (survivors t s)\<rparr>)"
    using ts(1) prs(1) ps'(1) mark_loop [OF n]
    by (simp add: uccn_probe_endpoints_def clock Let_def ms_def)
  moreover have "length ps' = length (peers s)" using ps'(2) by (simp add: ms_def)
  ultimately show ?thesis using ts prs ps' by blast
qed

lemma pruned_registered:
  "pruned ms n eps eps' \<Longrightarrow> hash_table s n eps' = hash_table s n eps \<and> wf_endpoints n eps' \<and> length eps' = length eps"
  by (auto simp: pruned_def same_endpoints_def hash_table_cong [of s s eps' eps] dest: map_eq_imp_length_eq)

lemma mark_fields [simp]: "p_address (mark t p) = p_address p" "p_name (mark t p) = p_name p"
  "next_remote_deadline (mark t p) = next_remote_deadline p" "num_links (mark t p) = num_links p"
  by (simp_all add: mark_def)

text \<open>Probing always ends and keeps the node's memory and tables.\<close>

lemma uccn_probe_endpoints_keeps:
  assumes "registered s"
  shows "wpf {} (uccn_probe_endpoints nt np nd s) (\<lambda>(ret, nt', np', nd', s'). registered s' \<and>
    num_trackers s' = num_trackers s \<and> resources s' = resources s \<and> mutex_locked s' = mutex_locked s)"
proof -
  obtain ret t where c: "clock_gettime s (clock_calls s) = (ret, t)" by fastforce
  have wf: "wf_node s" using assms by (simp add: registered_def)
  show ?thesis
  proof (cases "ret = 0")
    case False
    then show ?thesis using c assms by (simp add: uccn_probe_endpoints_def sys_clock_def registered_buffers)
  next
    case True
    let ?ms = "marked t (num_peers s) (peers s)"
    obtain ts prs ps' where run: "uccn_probe_endpoints nt np nd s = Inr (0,
        map_option (\<lambda>_. length (filter (\<lambda>ep. ep_num_peers ep > 0) (take (num_trackers s) ts))) nt,
        map_option (\<lambda>_. length (filter (\<lambda>ep. ep_num_peers ep > 0) (take (num_providers s) prs))) np,
        fold (\<lambda>t d. earlier d t) (map next_remote_deadline (survivors t s))
          (map_option (\<lambda>_. timespec_add t g_uccn_endpoint_probe_timeout) nd),
        s\<lparr>clock_calls := clock_calls s + 1, trackers := ts, providers := prs, peers := ps',
          num_peers := length (survivors t s)\<rparr>)"
      and p: "pruned ?ms (num_trackers s) (trackers s) ts" "pruned ?ms (num_providers s) (providers s) prs"
        "length ps' = length (peers s)" "set ps' \<subseteq> set ?ms" "take (length (survivors t s)) ps' = survivors t s"
      using probe_run [OF assms, of t nt np nd] c True by auto
    let ?s = "s\<lparr>clock_calls := clock_calls s + 1, trackers := ts, providers := prs, peers := ps',
        num_peers := length (survivors t s)\<rparr>"
    have few: "length (survivors t s) \<le> CONFIG_UCCN_MAX_NUM_PEERS"
    proof -
      have "length (survivors t s) \<le> length (map (mark t) (take (num_peers s) (peers s)))"
        unfolding survivors_def by (rule length_filter_le)
      then show ?thesis using wf by (simp add: wf_node_def)
    qed
    have "wf_names ?ms"
      using wf set_take_subset [of "num_peers s" "peers s"] set_drop_subset [of "num_peers s" "peers s"]
      by (auto simp: wf_node_def wf_names_def marked_def)
    then have "wf_names ps'" using p(4) by (auto simp: wf_names_def)
    then have "wf_node ?s"
      using wf few pruned_registered [OF p(1), of s] pruned_registered [OF p(2), of s] p(3)
      by (simp add: wf_node_def wf_peers_def)
    moreover have "distinct (map p_address (survivors t s))"
    proof -
      have "distinct (map p_address (map (mark t) (take (num_peers s) (peers s))))"
        using assms by (simp add: registered_def comp_def)
      then show ?thesis unfolding survivors_def by (rule distinct_map_filter)
    qed
    ultimately have "registered ?s"
      using assms pruned_registered [OF p(1), of s] pruned_registered [OF p(2), of s] p(5) by (simp add: registered_def)
    then show ?thesis by (simp add: run)
  qed
qed

text \<open>
  C14: A probe removes exactly the peers whose remote deadline has passed or that nothing is linked
  to, in place, and unlinks the dead ones from every endpoint; the next probe is due half a second
  from now or at the earliest deadline of the peers that stay.
\<close>

theorem uccn_probe_endpoints_prunes:
  assumes "registered s" and "clock_gettime s (clock_calls s) = (0, t)"
  shows "wpf {} (uccn_probe_endpoints (Some a) (Some b) (Some c) s) (\<lambda>(ret, a', b', c', s'). ret = 0 \<and>
    take (num_peers s') (peers s') = survivors t s \<and>
    (\<forall>i<num_trackers s. linked (trackers s' ! i) =
      filter (alive_in (marked t (num_peers s) (peers s))) (linked (trackers s ! i))) \<and>
    (\<forall>i<num_providers s. linked (providers s' ! i) =
      filter (alive_in (marked t (num_peers s) (peers s))) (linked (providers s ! i))) \<and>
    a' = Some (length (filter (\<lambda>ep. ep_num_peers ep > 0) (take (num_trackers s) (trackers s')))) \<and>
    (\<exists>d. c' = Some d \<and> timespec_cmp d (timespec_add t g_uccn_endpoint_probe_timeout) \<le> 0 \<and>
      (\<forall>p\<in>set (survivors t s). timespec_cmp d (next_remote_deadline p) \<le> 0) \<and>
      (d = timespec_add t g_uccn_endpoint_probe_timeout \<or> (\<exists>p\<in>set (survivors t s). d = next_remote_deadline p))))"
proof -
  let ?ds = "map next_remote_deadline (survivors t s)"
  obtain d where d: "fold (\<lambda>t d. earlier d t) ?ds (Some (timespec_add t g_uccn_endpoint_probe_timeout)) = Some d"
      "timespec_cmp d (timespec_add t g_uccn_endpoint_probe_timeout) \<le> 0" "\<forall>x\<in>set ?ds. timespec_cmp d x \<le> 0"
      "d = timespec_add t g_uccn_endpoint_probe_timeout \<or> d \<in> set ?ds"
    using deadlines.fold_pick [of ?ds "timespec_add t g_uccn_endpoint_probe_timeout"] by blast
  show ?thesis
    using probe_run [OF assms, of "Some a" "Some b" "Some c"] d
    by (auto simp: pruned_def)
qed

text \<open>
  A probe that removes a peer in front of another one moves that one to a lower slot, while
  the endpoints keep their pointers: the last peer's links point past the registered peers.
\<close>

theorem uccn_probe_endpoints_stale_links:
  assumes "registered s" and "clock_gettime s (clock_calls s) = (0, t)" and "num_peers s = Suc k"
    and "timespec_cmp (next_remote_deadline (peers s ! k)) t \<ge> 0" and "i < num_trackers s"
    and "has_link k (trackers s ! i)" and "j < k" and "timespec_cmp (next_remote_deadline (peers s ! j)) t < 0"
  shows "wpf {} (uccn_probe_endpoints (Some a) (Some b) (Some c) s) (\<lambda>(ret, a', b', c', s').
    num_peers s' \<le> k \<and> has_link k (trackers s' ! i))"
proof -
  have len: "k < length (peers s)" using assms(1,3) by (simp add: registered_def wf_node_def wf_peers_def)
  let ?ms = "map (mark t) (take (num_peers s) (peers s))"
  have "\<not> kept (?ms ! j)" using assms(3,7,8) len by (simp add: kept_def mark_def)
  moreover have "?ms ! j \<in> set ?ms" using assms(3,7) len by (intro nth_mem) simp
  ultimately have "length (survivors t s) < length ?ms" unfolding survivors_def by (rule length_filter_less [rotated])
  then have few: "length (survivors t s) \<le> k" using assms(3) len by simp
  have "alive_in (marked t (num_peers s) (peers s)) (Some k)"
    using assms(3,4) len by (simp add: alive_in_def marked_def nth_append mark_def)
  then show ?thesis
    using probe_run [OF assms(1,2), of "Some a" "Some b" "Some c"] few assms(5,6)
    by (auto simp: pruned_def has_link_def)
qed

end
