(* ===== verification/Node_Init.thy ===== *)
theory Node_Init
  imports Registry
begin

text \<open>
  The life of a node: \<open>uccn_node_init\<close>, \<open>uccn_node_fini\<close> and \<open>uccn_stop\<close> of \<open>src/uccn.c\<close>. Every
  system call of the initialisation is made at most once, so that their answers are the fields of a
  record; closing a descriptor is an event. The node's memory is what the caller passes, with any
  contents in the fields that the initialisation does not write.
\<close>

section \<open>The operations\<close>

record uccn_network_s =
  inetaddr :: u32
  netmask :: u32

record init_answers =
  an_socket :: int
  an_bind :: int
  an_broadcast :: int
  an_getsockname :: "int \<times> sockaddr_in"
  an_broadcast_socket :: int
  an_reuse :: int
  an_broadcast_bind :: int
  an_broadcast_broadcast :: int
  an_mutex :: int
  an_pipe :: "int \<times> int \<times> int"
  an_getfl :: "int \<Rightarrow> int"
  an_setfl :: "int \<Rightarrow> int \<Rightarrow> int"
  an_capacity :: nat

text \<open>What \<open>memset(..., 0, ...)\<close> leaves in the arrays; the null pointers of a slot are \<open>None\<close> and 0.\<close>

definition zero_peer :: peer where
  "zero_peer = \<lparr>p_address = \<lparr>sin_addr = 0, sin_port = 0\<rparr>, p_location = replicate LOCATION_SIZE 0,
     p_name = replicate CONFIG_UCCN_MAX_NODE_NAME_SIZE 0, alive = False,
     next_remote_deadline = TIMESPEC_ZERO, next_local_deadline = TIMESPEC_ZERO,
     provided_content_hash = 0, tracked_content_hash = 0, num_links = 0\<rparr>"

definition zero_tracker :: tracker where
  "zero_tracker = \<lparr>ep_resource = 0, ep_peers = replicate CONFIG_UCCN_MAX_NUM_PEERS None,
     ep_num_peers = 0, tr_track = 0, tr_arg = 0\<rparr>"

definition zero_provider :: provider where
  "zero_provider = \<lparr>ep_resource = 0, ep_peers = replicate CONFIG_UCCN_MAX_NUM_PEERS None, ep_num_peers = 0\<rparr>"

definition close_fds :: "int list \<Rightarrow> 'c sys \<Rightarrow> 'c sys" where
  "close_fds fds s = s\<lparr>trace := trace s @ map Closed fds\<rparr>"

text \<open>The label \<open>fail\<close>: whether a \<open>close\<close> fails is only logged.\<close>

definition init_fail :: "int \<Rightarrow> 'c sys \<Rightarrow> int \<times> 'c sys" where
  "init_fail ret s = (ret, close_fds (filter (\<lambda>fd. fd \<ge> 0) [socket s, broadcast_socket s]) s)"

definition init_fields :: "uccn_network_s \<Rightarrow> bytes \<Rightarrow> 'c sys \<Rightarrow> 'c sys" where
  "init_fields network name s = s\<lparr>
     broadcast_address :=
       \<lparr>sin_addr = inetaddr network OR NOT (netmask network), sin_port = CONFIG_UCCN_PORT\<rparr>,
     node_name := c_strncpy CONFIG_UCCN_MAX_NODE_NAME_SIZE name,
     node_location := format_location (sin_addr (address s)) CONFIG_UCCN_PORT,
     incoming_buffer := stack_buffer_init (b_data (incoming_buffer s)),
     outgoing_buffer := stack_buffer_init (b_data (outgoing_buffer s)),
     content_buffer := stack_buffer_init (b_data (content_buffer s)),
     peers := replicate CONFIG_UCCN_MAX_NUM_PEERS zero_peer,
     trackers := replicate CONFIG_UCCN_MAX_NUM_TRACKERS zero_tracker,
     providers := replicate CONFIG_UCCN_MAX_NUM_PROVIDERS zero_provider,
     num_peers := 0, num_providers := 0, num_trackers := 0\<rparr>"

definition init_sync :: "init_answers \<Rightarrow> 'c sys \<Rightarrow> int \<times> 'c sys" where
  "init_sync an s =
     (if an_mutex an < 0 then init_fail (an_mutex an) s
      else
        let (ret, ev) = eventfd_init (an_pipe an) (an_getfl an) (an_setfl an) (stop_event s);
            s = s\<lparr>mutex_locked := False, stop_event := ev,
              stop_pipe := \<lparr>pipe_pending = 0, pipe_capacity = an_capacity an\<rparr>\<rparr>
        in if ret < 0 then init_fail ret s else (0, s))"

definition uccn_node_init :: "init_answers \<Rightarrow> uccn_network_s \<Rightarrow> bytes \<Rightarrow> 'c sys \<Rightarrow> int \<times> 'c sys" where
  "uccn_node_init an network name s =
     (let s = s\<lparr>broadcast_socket := -1, socket := an_socket an\<rparr> in
      if socket s < 0 then init_fail (socket s) s
      else if an_bind an < 0 then init_fail (an_bind an) s
      else if an_broadcast an < 0 then init_fail (an_broadcast an) s
      else
        let (ret, addr) = an_getsockname an in
        if ret < 0 then init_fail ret s
        else
          let s = s\<lparr>address := addr, broadcast_socket := an_broadcast_socket an\<rparr> in
          if broadcast_socket s < 0 then init_fail (broadcast_socket s) s
          else if an_reuse an < 0 then init_fail (an_reuse an) s
          else if an_broadcast_bind an < 0 then init_fail (an_broadcast_bind an) s
          else if an_broadcast_broadcast an < 0 then init_fail (an_broadcast_broadcast an) s
          else init_sync an (init_fields network name s))"

text \<open>The answers of \<open>close\<close> and of \<open>pthread_mutex_destroy\<close> are parameters.\<close>

definition uccn_node_fini :: "(int \<Rightarrow> int) \<Rightarrow> int \<Rightarrow> 'c sys \<Rightarrow> int \<times> 'c sys" where
  "uccn_node_fini close destroy s =
     (let ret = 0;
          iret = close (socket s);
          ret = (if iret < 0 then iret else ret);
          iret = close (broadcast_socket s);
          ret = (if iret < 0 then iret else ret);
          iret = destroy;
          ret = (if iret < 0 then iret else ret);
          iret = eventfd_fini close (stop_event s);
          ret = (if iret < 0 then iret else ret)
      in (ret, close_fds [socket s, broadcast_socket s, fd_read (stop_event s), fd_write (stop_event s)] s))"

definition uccn_stop :: "'c sys \<Rightarrow> int \<times> 'c sys" where
  "uccn_stop s = (let (ret, p) = eventfd_set (stop_pipe s) in (ret, s\<lparr>stop_pipe := p\<rparr>))"

section \<open>Memory of a node\<close>

text \<open>The sizes that the declaration of \<open>struct uccn_node_s\<close> gives its buffers.\<close>

definition node_memory :: "'c sys \<Rightarrow> bool" where
  "node_memory s \<longleftrightarrow>
     length (b_data (incoming_buffer s)) = CONFIG_UCCN_INCOMING_BUFFER_SIZE \<and>
     length (b_data (outgoing_buffer s)) = CONFIG_UCCN_OUTGOING_BUFFER_SIZE \<and>
     length (b_data (content_buffer s)) = CONFIG_UCCN_MAX_CONTENT_SIZE"

lemma wf_zero_endpoints [simp]:
  "wf_endpoints 0 (replicate n zero_tracker)" "wf_endpoints 0 (replicate n zero_provider)"
  by (simp_all add: wf_endpoints_def zero_tracker_def zero_provider_def)

lemma zero_in_strncpy: "length name < n \<Longrightarrow> 0 \<in> set (c_strncpy n name)"
  by (cases "n - length name") (simp_all add: c_strncpy_def)

lemma init_fields_registered:
  assumes "node_memory s" and "length name < CONFIG_UCCN_MAX_NODE_NAME_SIZE"
  shows "registered (init_fields network name s)" "accounted (init_fields network name s)"
  using assms
  by (simp_all add: registered_def wf_node_def init_fields_def node_memory_def wf_buffer_def stack_buffer_init_def
      wf_peers_def wf_names_def zero_peer_def hash_table_def accounted_def links_of_def count_links_def
      zero_in_strncpy)

definition sync_done :: "eventfd_s \<Rightarrow> pipe_s \<Rightarrow> 'c sys \<Rightarrow> 'c sys" where
  "sync_done ev p s = s\<lparr>mutex_locked := False, stop_event := ev, stop_pipe := p\<rparr>"

lemma registered_sync [simp]:
  "registered (sync_done ev p s) = registered s" "accounted (sync_done ev p s) = accounted s"
  by (simp_all add: sync_done_def registered_def wf_node_def accounted_def links_of_def hash_table_def
      resource_of_def)

text \<open>The run of an initialisation that succeeds.\<close>

lemma node_init_done:
  assumes "uccn_node_init an network name s = (ret, s')" and "ret \<ge> 0"
  obtains addr ev where "ret = 0" and "an_socket an \<ge> 0" and "an_broadcast_socket an \<ge> 0"
    and "s' = sync_done ev \<lparr>pipe_pending = 0, pipe_capacity = an_capacity an\<rparr> (init_fields network name
      (s\<lparr>broadcast_socket := an_broadcast_socket an, socket := an_socket an, address := addr\<rparr>))"
proof -
  obtain r addr where gs: "an_getsockname an = (r, addr)" by (cases "an_getsockname an")
  obtain r' ev where ev: "eventfd_init (an_pipe an) (an_getfl an) (an_setfl an) (stop_event s) = (r', ev)"
    by (cases "eventfd_init (an_pipe an) (an_getfl an) (an_setfl an) (stop_event s)")
  show thesis
    by (rule that [of ev addr])
      (use assms gs ev in \<open>auto simp: uccn_node_init_def init_sync_def init_fail_def Let_def sync_done_def init_fields_def
        split: if_splits\<close>)
qed

text \<open>
  C25: A node whose initialisation returns 0 is in order: empty tables, books that balance, an
  unlocked mutex, a stop event that is not set, and the name it was given, provided the name is
  shorter than the field for it.
\<close>

theorem uccn_node_init_registered:
  assumes "node_memory s" and "0 \<notin> set name" and "length name < CONFIG_UCCN_MAX_NODE_NAME_SIZE"
    and "uccn_node_init an network name s = (ret, s')" and "ret \<ge> 0"
  shows "ret = 0 \<and> registered s' \<and> accounted s' \<and> \<not> mutex_locked s' \<and> \<not> readable (stop_pipe s') \<and>
    num_peers s' = 0 \<and> num_trackers s' = 0 \<and> num_providers s' = 0 \<and>
    c_string (node_name s') = Inr name \<and> trace s' = trace s \<and> socket s' \<ge> 0 \<and> broadcast_socket s' \<ge> 0"
proof -
  obtain addr ev where run: "ret = 0" "an_socket an \<ge> 0" "an_broadcast_socket an \<ge> 0"
      "s' = sync_done ev \<lparr>pipe_pending = 0, pipe_capacity = an_capacity an\<rparr> (init_fields network name
        (s\<lparr>broadcast_socket := an_broadcast_socket an, socket := an_socket an, address := addr\<rparr>))"
    by (rule node_init_done [OF assms(4,5)])
  let ?s = "s\<lparr>broadcast_socket := an_broadcast_socket an, socket := an_socket an, address := addr\<rparr>"
  have "node_memory ?s" using assms(1) by (simp add: node_memory_def)
  note init_fields_registered [OF this assms(3), of network]
  then have "registered s'" "accounted s'" by (simp_all add: run(4))
  then show ?thesis using run(1-3) c_string_c_strncpy [OF assms(2,3)]
    by (simp add: run(4)) (simp add: sync_done_def init_fields_def readable_def)
qed


text \<open>
  Finishing closes both sockets and both ends of the pipe whatever fails on the way; it answers
  0 exactly when nothing has failed.
\<close>

theorem uccn_node_fini_closes:
  assumes "\<And>fd. close fd = 0 \<or> close fd = -1" and "destroy \<ge> 0"
  shows "trace (snd (uccn_node_fini close destroy s)) = trace s @
      map Closed [socket s, broadcast_socket s, fd_read (stop_event s), fd_write (stop_event s)] \<and>
    (fst (uccn_node_fini close destroy s) = 0 \<longleftrightarrow>
      close (socket s) = 0 \<and> close (broadcast_socket s) = 0 \<and>
      close (fd_read (stop_event s)) = 0 \<and> close (fd_write (stop_event s)) = 0)"
  using assms(1) [of "socket s"] assms(1) [of "broadcast_socket s"] assms(1) [of "fd_read (stop_event s)"]
    assms(1) [of "fd_write (stop_event s)"] assms(2)
  by (auto simp: uccn_node_fini_def eventfd_fini_def close_fds_def Let_def)

end
