(* ===== verification/Upoll.thy ===== *)
theory Upoll
  imports Timespec
begin

text \<open>
  The poller of \<open>src/utilities/upoll.c\<close>: an array of callbacks with a period each. A callback and
  its argument are numbers; the calls made are a list of such pairs, in order. Null pointers for the
  array or the result are \<open>None\<close>.
\<close>

record upoll_s =
  up_arg :: nat
  up_poll :: nat
  polling_period :: timespec
  next_poll_time :: timespec

definition upoll_body :: "timespec \<Rightarrow> nat \<Rightarrow> upoll_s list \<times> timespec \<times> (nat \<times> nat) list \<Rightarrow>
    (upoll_s list \<times> timespec \<times> (nat \<times> nat) list) ctl result" where
  "upoll_body current_time i = (\<lambda>(upolls, next, calls).
     rbind (arr_get upolls i) (\<lambda>u.
     let (u, calls) =
           (if timespec_cmp current_time (next_poll_time u) \<ge> 0 then
              let t = (if TIMESPEC_ISZERO (next_poll_time u) then current_time else next_poll_time u)
              in (u\<lparr>next_poll_time := timespec_add t (polling_period u)\<rparr>, calls @ [(up_poll u, up_arg u)])
            else (u, calls));
         next = (if timespec_cmp next (next_poll_time u) > 0 then next_poll_time u else next)
     in Inr (Continue (upolls[i := u], next, calls))))"

definition upoll :: "int \<times> timespec \<Rightarrow> upoll_s list option \<Rightarrow> nat \<Rightarrow> timespec option \<Rightarrow>
    (int \<times> upoll_s list option \<times> timespec option \<times> (nat \<times> nat) list) result" where
  "upoll clock upolls npolls next =
     (if npolls > 0 then
        case (upolls, next) of
          (Some us, Some d) \<Rightarrow>
            let (ret, current_time) = clock in
            if ret \<noteq> 0 then Inr (ret, upolls, next, [])
            else rbind (for_loop (upoll_body current_time) 0 npolls (us, TIMESPEC_INF_INIT, [])) (\<lambda>(us, d, calls).
              Inr (ret, Some us, Some d, calls))
        | _ \<Rightarrow> Inl Assert_Failed
      else Inr (0, upolls, next, []))"

section \<open>What a poll does\<close>

definition poll_due :: "timespec \<Rightarrow> upoll_s \<Rightarrow> bool" where
  "poll_due t u \<longleftrightarrow> timespec_cmp t (next_poll_time u) \<ge> 0"

definition polled :: "timespec \<Rightarrow> upoll_s \<Rightarrow> upoll_s" where
  "polled t u = (if poll_due t u then u\<lparr>next_poll_time := timespec_add
     (if TIMESPEC_ISZERO (next_poll_time u) then t else next_poll_time u) (polling_period u)\<rparr> else u)"

lemma upoll_loop:
  "wpf {} (for_loop (upoll_body t) 0 (length us) (us, d, [])) (\<lambda>(us', d', calls).
     us' = map (polled t) us \<and>
     Some d' = fold (\<lambda>t d. earlier d t) (map (\<lambda>u. next_poll_time (polled t u)) us) (Some d) \<and>
     calls = map (\<lambda>u. (up_poll u, up_arg u)) (filter (poll_due t) us))"
proof (rule wpf_for_loop [where P = "\<lambda>i (us', d', calls).
    us' = map (polled t) (take i us) @ drop i us \<and>
    Some d' = fold (\<lambda>t d. earlier d t) (map (\<lambda>u. next_poll_time (polled t u)) (take i us)) (Some d) \<and>
    calls = map (\<lambda>u. (up_poll u, up_arg u)) (filter (poll_due t) (take i us))"])
  fix i and x :: "upoll_s list \<times> timespec \<times> (nat \<times> nat) list"
  assume i: "i < length us" and P: "case x of (us', d', calls) \<Rightarrow>
    us' = map (polled t) (take i us) @ drop i us \<and>
    Some d' = fold (\<lambda>t d. earlier d t) (map (\<lambda>u. next_poll_time (polled t u)) (take i us)) (Some d) \<and>
    calls = map (\<lambda>u. (up_poll u, up_arg u)) (filter (poll_due t) (take i us))"
  obtain us' d' calls where x: "x = (us', d', calls)" by (cases x)
  have u: "us' = map (polled t) (take i us) @ drop i us"
    "Some d' = fold (\<lambda>t d. earlier d t) (map (\<lambda>u. next_poll_time (polled t u)) (take i us)) (Some d)"
    "calls = map (\<lambda>u. (up_poll u, up_arg u)) (filter (poll_due t) (take i us))"
    using P by (simp_all add: x)
  have split: "drop i us = us ! i # drop (Suc i) us" using i by (simp add: Cons_nth_drop_Suc)
  have "us' ! i = us ! i" "i < length us'" using i by (simp_all add: u(1) nth_append)
  moreover have "us'[i := polled t (us ! i)] = map (polled t) (take (Suc i) us) @ drop (Suc i) us"
    using i by (simp add: u(1) split list_update_append take_Suc_conv_app_nth)
  ultimately have "upoll_body t i x = Inr (Continue (map (polled t) (take (Suc i) us) @ drop (Suc i) us,
      the (earlier (Some d') (next_poll_time (polled t (us ! i)))),
      calls @ (if poll_due t (us ! i) then [(up_poll (us ! i), up_arg (us ! i))] else [])))"
    by (cases "poll_due t (us ! i)") (simp_all add: x upoll_body_def poll_due_def polled_def earlier_def Let_def)
  moreover have "Some (the (earlier (Some d') (next_poll_time (polled t (us ! i))))) =
      fold (\<lambda>t d. earlier d t) (map (\<lambda>u. next_poll_time (polled t u)) (take (Suc i) us)) (Some d)"
    using i by (simp add: take_Suc_conv_app_nth u(2) [symmetric]) (simp add: earlier_def)
  ultimately show "wpf {} (upoll_body t i x) (\<lambda>c. case c of
      Continue y \<Rightarrow> (case y of (us', d', calls) \<Rightarrow>
        us' = map (polled t) (take (Suc i) us) @ drop (Suc i) us \<and>
        Some d' = fold (\<lambda>t d. earlier d t) (map (\<lambda>u. next_poll_time (polled t u)) (take (Suc i) us)) (Some d) \<and>
        calls = map (\<lambda>u. (up_poll u, up_arg u)) (filter (poll_due t) (take (Suc i) us)))
    | Break y \<Rightarrow> (case y of (us', d', calls) \<Rightarrow> us' = map (polled t) us \<and>
        Some d' = fold (\<lambda>t d. earlier d t) (map (\<lambda>u. next_poll_time (polled t u)) us) (Some d) \<and>
        calls = map (\<lambda>u. (up_poll u, up_arg u)) (filter (poll_due t) us)))"
    using i by (simp add: u(3) take_Suc_conv_app_nth)
qed auto

text \<open>
  C33: A poll calls exactly the callbacks whose time has come, in their order, moves those on by
  their period, and answers the earliest time of the next call.
\<close>

theorem upoll_calls_due:
  assumes "us \<noteq> []"
  shows "wpf {} (upoll (0, t) (Some us) (length us) (Some d)) (\<lambda>(ret, us', d', calls). ret = 0 \<and>
    us' = Some (map (polled t) us) \<and>
    calls = map (\<lambda>u. (up_poll u, up_arg u)) (filter (poll_due t) us) \<and>
    (\<exists>e. d' = Some e \<and> (\<forall>u\<in>set us. timespec_cmp e (next_poll_time (polled t u)) \<le> 0) \<and>
      (e = TIMESPEC_INF_INIT \<or> (\<exists>u\<in>set us. e = next_poll_time (polled t u)))))"
proof -
  let ?ds = "map (\<lambda>u. next_poll_time (polled t u)) us"
  obtain e where e: "fold (\<lambda>t d. earlier d t) ?ds (Some TIMESPEC_INF_INIT) = Some e"
      "\<forall>x\<in>set ?ds. timespec_cmp e x \<le> 0" "e = TIMESPEC_INF_INIT \<or> e \<in> set ?ds"
    using deadlines.fold_pick [of ?ds TIMESPEC_INF_INIT] by blast
  show ?thesis using assms e
    by (auto simp: upoll_def intro!: wpf_conseq [OF upoll_loop])
qed

end
