(* ===== verification/Scenario.thy ===== *)
theory Scenario
  imports Liveliness Node_Init Upoll
begin

text \<open>
  Concrete nodes, on which the theorems of the components are applied: raw resources whose hash is
  their number plus one, a clock that stands at ten seconds, and a network that delivers everything.
\<close>

section \<open>Concrete nodes\<close>

definition demo_resource :: "nat \<Rightarrow> buffer resource" where
  "demo_resource i = \<lparr>res_path = replicate CONFIG_UCCN_MAX_RESOURCE_PATH_SIZE 0,
     res_hash = word_of_nat (Suc i),
     res_unpack = passthrough_unpack (\<lambda>b. b), res_pack = passthrough_pack (\<lambda>b. b)\<rparr>"

definition at :: "int \<Rightarrow> timespec" where
  "at sec = \<lparr>tv_sec = sec, tv_nsec = 0\<rparr>"

definition demo_peer :: "u16 \<Rightarrow> int \<Rightarrow> int \<Rightarrow> u64 \<Rightarrow> peer" where
  "demo_peer port remote local links = zero_peer\<lparr>p_address := \<lparr>sin_addr = 0xC0A80002, sin_port = port\<rparr>,
     alive := True, next_remote_deadline := at remote, next_local_deadline := at local, num_links := links\<rparr>"

definition demo_slots :: "nat list \<Rightarrow> nat option list" where
  "demo_slots ks = map Some ks @ replicate (CONFIG_UCCN_MAX_NUM_PEERS - length ks) None"

definition demo_tracker :: "nat \<Rightarrow> nat list \<Rightarrow> tracker" where
  "demo_tracker r ks = \<lparr>ep_resource = r, ep_peers = demo_slots ks, ep_num_peers = length ks,
     tr_track = 100 + r, tr_arg = 200 + r\<rparr>"

definition demo_provider :: "nat \<Rightarrow> nat list \<Rightarrow> provider" where
  "demo_provider r ks = \<lparr>ep_resource = r, ep_peers = demo_slots ks, ep_num_peers = length ks\<rparr>"

definition demo_buffer :: "nat \<Rightarrow> buffer" where
  "demo_buffer sz = \<lparr>b_data = replicate sz 0, b_length = 0\<rparr>"

definition demo_node :: "peer list \<Rightarrow> tracker list \<Rightarrow> provider list \<Rightarrow> buffer sys" where
  "demo_node ps ts prs = \<lparr>
     socket = 5, address = \<lparr>sin_addr = 0xC0A80001, sin_port = 40000\<rparr>,
     broadcast_socket = 6, broadcast_address = \<lparr>sin_addr = 0xC0A800FF, sin_port = CONFIG_UCCN_PORT\<rparr>,
     node_location = [], node_name = c_strncpy CONFIG_UCCN_MAX_NODE_NAME_SIZE [110],
     incoming_buffer = demo_buffer CONFIG_UCCN_INCOMING_BUFFER_SIZE,
     outgoing_buffer = demo_buffer CONFIG_UCCN_OUTGOING_BUFFER_SIZE,
     content_buffer = demo_buffer CONFIG_UCCN_MAX_CONTENT_SIZE,
     peers = ps @ replicate (CONFIG_UCCN_MAX_NUM_PEERS - length ps) zero_peer, num_peers = length ps,
     trackers = ts @ replicate (CONFIG_UCCN_MAX_NUM_TRACKERS - length ts) zero_tracker, num_trackers = length ts,
     providers = prs @ replicate (CONFIG_UCCN_MAX_NUM_PROVIDERS - length prs) zero_provider,
     num_providers = length prs, mutex_locked = False, stop_event = \<lparr>fd_read = 7, fd_write = 8\<rparr>,
     resources = demo_resource, clock_gettime = (\<lambda>_. (0, at 10)), clock_calls = 0,
     sendto = (\<lambda>_ len. int len), sendto_calls = 0, recvfrom = (\<lambda>_ _. Recv_Error (-1)), recvfrom_calls = 0,
     stop_pipe = \<lparr>pipe_pending = 0, pipe_capacity = 65536\<rparr>,
     pselect = (\<lambda>_ _. Selected 0 False False), pselect_calls = 0, trace = []\<rparr>"

lemma demo_fields [simp]:
  "socket (demo_node ps ts prs) = 5"
  "outgoing_buffer (demo_node ps ts prs) = demo_buffer CONFIG_UCCN_OUTGOING_BUFFER_SIZE"
  "content_buffer (demo_node ps ts prs) = demo_buffer CONFIG_UCCN_MAX_CONTENT_SIZE"
  "peers (demo_node ps ts prs) = ps @ replicate (CONFIG_UCCN_MAX_NUM_PEERS - length ps) zero_peer"
  "num_peers (demo_node ps ts prs) = length ps"
  "trackers (demo_node ps ts prs) = ts @ replicate (CONFIG_UCCN_MAX_NUM_TRACKERS - length ts) zero_tracker"
  "num_trackers (demo_node ps ts prs) = length ts"
  "providers (demo_node ps ts prs) = prs @ replicate (CONFIG_UCCN_MAX_NUM_PROVIDERS - length prs) zero_provider"
  "num_providers (demo_node ps ts prs) = length prs"
  "mutex_locked (demo_node ps ts prs) = False" "trace (demo_node ps ts prs) = []"
  "resources (demo_node ps ts prs) = demo_resource"
  "clock_gettime (demo_node ps ts prs) = (\<lambda>_. (0, at 10))" "clock_calls (demo_node ps ts prs) = 0"
  "sendto (demo_node ps ts prs) = (\<lambda>_ len. int len)" "sendto_calls (demo_node ps ts prs) = 0"
  by (simp_all add: demo_node_def)

lemma demo_network [simp]: "delivers (\<lambda>_ len. int len)" "datagrams (\<lambda>_ len. int len)" "clock_works (\<lambda>_. (0, t))"
  by (simp_all add: delivers_def datagrams_def clock_works_def)

lemma demo_hash [simp]: "res_hash (demo_resource i) = word_of_nat (Suc i)"
  by (simp add: demo_resource_def)

lemma demo_pack [simp]: "res_pack (demo_resource i) (Some c) blob = Inr (int (b_length c), blob, Some c)"
  by (simp add: demo_resource_def passthrough_pack_def content_passthrough_def)

lemma demo_unpack [simp]: "res_unpack (demo_resource i) blob c = Inr (int (b_length blob), Some blob)"
  by (simp add: demo_resource_def passthrough_unpack_def content_passthrough_def)

text \<open>The endpoints of a demonstration: distinct resources, distinct peers.\<close>

definition demo_slots_ok :: "nat list \<Rightarrow> bool" where
  "demo_slots_ok ks \<longleftrightarrow> length ks \<le> 5 \<and> distinct ks \<and> (\<forall>k\<in>set ks. k < 5)"

lemma demo_endpoint [simp]:
  "demo_slots_ok ks \<Longrightarrow> wf_endpoint (demo_tracker r ks)" "demo_slots_ok ks \<Longrightarrow> wf_endpoint (demo_provider r ks)"
  "linked (demo_tracker r ks) = map Some ks" "linked (demo_provider r ks) = map Some ks"
  "ep_num_peers (demo_tracker r ks) = length ks" "ep_num_peers (demo_provider r ks) = length ks"
  "ep_resource (demo_tracker r ks) = r" "ep_resource (demo_provider r ks) = r"
  "tr_track (demo_tracker r ks) = 100 + r" "tr_arg (demo_tracker r ks) = 200 + r"
  by (auto simp: demo_tracker_def demo_provider_def wf_endpoint_def linked_def demo_slots_def demo_slots_ok_def
      config_simps distinct_map)

lemma wf_endpoint_slots: "wf_endpoint ep \<Longrightarrow> length (ep_peers ep) = CONFIG_UCCN_MAX_NUM_PEERS"
  by (simp add: wf_endpoint_def)

lemma length_zero_slots [simp]:
  "length (ep_peers zero_tracker) = CONFIG_UCCN_MAX_NUM_PEERS"
  "length (ep_peers zero_provider) = CONFIG_UCCN_MAX_NUM_PEERS"
  by (simp_all add: zero_tracker_def zero_provider_def)

lemma wf_endpoints_demo:
  assumes "list_all wf_endpoint eps" and "length (ep_peers z) = CONFIG_UCCN_MAX_NUM_PEERS"
  shows "wf_endpoints (length eps) (eps @ replicate n z)"
  using assms by (auto simp: wf_endpoints_def nth_append list_all_length wf_endpoint_slots)

lemma demo_registered:
  assumes "length ps \<le> 5" and "list_all (\<lambda>p. length (p_name p) = 64) ps" and "distinct (map p_address ps)"
    and "length ts \<le> 10" and "list_all wf_endpoint ts" and "distinct (map (\<lambda>t. word_of_nat (Suc (ep_resource t)) :: u32) ts)"
    and "length prs \<le> 10" and "list_all wf_endpoint prs" and "distinct (map (\<lambda>t. word_of_nat (Suc (ep_resource t)) :: u32) prs)"
  shows "registered (demo_node ps ts prs)"
proof -
  have "wf_node (demo_node ps ts prs)"
    using assms wf_endpoints_demo [OF assms(5)] wf_endpoints_demo [OF assms(8)]
    by (auto simp: wf_node_def wf_buffer_def wf_peers_def wf_names_def list_all_iff config_simps demo_buffer_def
        zero_peer_def demo_node_def zero_in_strncpy)
  then show ?thesis using assms
    by (simp add: registered_def hash_table_def resource_of_def)
qed

lemma demo_peer_fields [simp]:
  "length (p_name (demo_peer port remote local links)) = 64"
  "p_address (demo_peer port remote local links) = \<lparr>sin_addr = 0xC0A80002, sin_port = port\<rparr>"
  "next_remote_deadline (demo_peer port remote local links) = at remote"
  "next_local_deadline (demo_peer port remote local links) = at local"
  by (simp_all add: demo_peer_def zero_peer_def config_simps)

lemma at_simps [simp]:
  "0 \<le> a \<Longrightarrow> 0 \<le> b \<Longrightarrow> timespec_cmp (at a) (at b) = sgn (a - b)"
  "TIMESPEC_ISZERO (at a) \<longleftrightarrow> a = 0"
  by (auto simp: timespec_cmp_def at_def TIMESPEC_ISZERO_def sgn_if)

lemma at_normal [simp]: "0 \<le> a \<Longrightarrow> normal (at a)" "nanos (at a) = a * 1000000000"
  by (simp_all add: normal_def nanos_def at_def)

text \<open>
  A node with two peers, one of them overdue: it tracks resources 0 and 1 and provides resource 2.
  The second node provides what the first one tracks.
\<close>

definition demo_a :: "buffer sys" where
  "demo_a = demo_node [demo_peer 1 9 5 1, demo_peer 2 12 11 2]
     [demo_tracker 0 [0, 1], demo_tracker 1 []] [demo_provider 2 [1]]"

definition demo_b :: "buffer sys" where
  "demo_b = demo_node [demo_peer 3 12 11 0] [] [demo_provider 1 [], demo_provider 3 []]"

lemma registered_demo [simp]: "registered demo_a" "registered demo_b"
  by (auto simp: demo_a_def demo_b_def demo_slots_ok_def intro!: demo_registered)

lemma wf_demo [simp]: "wf_node demo_a" "wf_node demo_b"
  using registered_demo by (simp_all add: registered_def)

end
