(* ===== verification/Applications.thy ===== *)
theory Applications
  imports Scenario
begin

text \<open>The theorems of the components at the concrete nodes of \<open>Scenario\<close>.\<close>

section \<open>Links\<close>

definition demo_peers :: "peer list" where
  "demo_peers = map (\<lambda>i. (demo_peer i 12 11 1)\<lparr>alive := (i \<noteq> 2)\<rparr>) [0, 1, 2, 3, 4]"

lemma demo_peers_simps [simp]: "wf_peers demo_peers" "alive_in demo_peers (Some 2) = False" "alive_in demo_peers (Some 4)"
  by (simp_all add: demo_peers_def wf_peers_def config_simps alive_in_def demo_peer_def)

lemma demo_tracker_5 [simp]: "wf_endpoint (demo_tracker 5 [2, 4])"
  by (simp add: demo_slots_ok_def)

theorem uccn_link_refines_witness:
  "wpf {} (uccn_link (demo_tracker 5 [2, 4]) 3 demo_peers) (\<lambda>(ret, ep', ps'). wf_endpoint ep' \<and>
    ret = 1 \<and> linked ep' = [Some 2, Some 4, Some 3] \<and> ps' = bump_links 1 3 demo_peers)"
  using uccn_link_refines [of "demo_tracker 5 [2, 4]" demo_peers 3] by (simp add: config_simps)

section \<open>Registration and posting\<close>

lemma demo_node_eqs:
  "num_peers demo_a = 2" "num_peers demo_b = 1" "num_trackers demo_a = 2" "num_trackers demo_b = 0"
  "num_providers demo_a = 1" "num_providers demo_b = 2" "\<not> mutex_locked demo_a" "\<not> mutex_locked demo_b"
  "peers demo_a ! 0 = demo_peer 1 9 5 1" "peers demo_a ! 1 = demo_peer 2 12 11 2" "peers demo_b ! 0 = demo_peer 3 12 11 0"
  "trackers demo_a ! 0 = demo_tracker 0 [0, 1]" "trackers demo_a ! 1 = demo_tracker 1 []"
  "providers demo_a ! 0 = demo_provider 2 [1]" "providers demo_b ! 0 = demo_provider 1 []"
  "providers demo_b ! 1 = demo_provider 3 []"
  "resources demo_a = demo_resource" "resources demo_b = demo_resource"
  "sendto demo_a = (\<lambda>_ len. int len)" "clock_gettime demo_a = (\<lambda>_. (0, at 10))"
  "content_buffer demo_a = demo_buffer CONFIG_UCCN_MAX_CONTENT_SIZE"
  "outgoing_buffer demo_a = demo_buffer CONFIG_UCCN_OUTGOING_BUFFER_SIZE"
  "length (trackers demo_a) = 10" "length (providers demo_a) = 10" "length (peers demo_a) = 5"
  "take 2 (peers demo_a) = [demo_peer 1 9 5 1, demo_peer 2 12 11 2]"
  by (simp_all add: demo_a_def demo_b_def config_simps numeral_2_eq_2)

lemma accounted_demo [simp]: "accounted demo_a"
  by (auto simp: accounted_def links_of_def count_links_def has_link_def demo_a_def demo_peer_def
      numeral_2_eq_2 less_Suc_eq)

theorem linking_keeps_accounts_witness:
  "wpf {} (uccn_link_trackers 0 2 demo_a) (\<lambda>(ret, s'). wf_node s' \<and> accounted s')"
  using linking_keeps_accounts [of demo_a 0 2] by (simp add: demo_node_eqs)

lemmas demo_node_Suc = demo_node_eqs [unfolded One_nat_def]

theorem linking_is_exact_witness:
  "wpf {} (uccn_link_trackers 0 2 demo_a) (\<lambda>(ret, s'). ret \<ge> 0 \<longrightarrow> has_link 0 (trackers s' ! 1))"
  using linking_is_exact [of demo_a 0 1 2 0]
  by (simp add: demo_node_Suc config_simps has_hash_def resource_of_def)

theorem uccn_track_refines_witness:
  "\<exists>t s'. uccn_track 5 7 8 demo_a = Inr (t, s') \<and> (case t of
      Some i \<Rightarrow> tracker_map s' = (tracker_map demo_a)(5 \<mapsto> (7, 8)) \<and> i < num_trackers s' \<and>
        ep_resource (trackers s' ! i) = 5
    | None \<Rightarrow> s' = demo_a \<and> 5 \<notin> dom (tracker_map demo_a) \<and>
        (\<exists>q \<in> dom (tracker_map demo_a). res_hash (resources demo_a q) = res_hash (resources demo_a 5)))"
proof -
  have "\<exists>t s'. uccn_track 5 7 8 demo_a = Inr (t, s')"
    by (simp add: uccn_track_def mutex_lock_def find_resource_def scan_def lookup_at_def for_loop_step
        resource_of_def demo_node_eqs)
  then show ?thesis using uccn_track_refines [of demo_a 5 7 8] by (auto simp: demo_node_eqs)
qed

text \<open>A resource whose hash is that of another one: numbers are hashed modulo \<open>2 ^ 32\<close>.\<close>

theorem uccn_advertise_collision_deadlocks_witness:
  "\<exists>s'. uccn_advertise (2 + 2 ^ 32) demo_a = Inr (None, s') \<and>
    uccn_advertise 0 s' = Inl Deadlock \<and> uccn_track 0 1 2 s' = Inl Deadlock"
proof -
  have "\<exists>s'. uccn_advertise (2 + 2 ^ 32) demo_a = Inr (None, s')"
    by (simp add: uccn_advertise_def mutex_lock_def find_resource_def scan_def lookup_at_def for_loop_step
        resource_of_def demo_node_eqs)
  then show ?thesis
    using uccn_advertise_collision_deadlocks [of demo_a "2 + 2 ^ 32" _ 0 1 2] by (auto simp: demo_node_eqs)
qed

definition demo_content :: buffer where
  "demo_content = raw_buffer [1, 2, 3]"

lemma demo_content_simps [simp]:
  "b_length demo_content = 3" "b_size demo_content = 3" "b_contents demo_content = [1, 2, 3]"
  by (simp_all add: demo_content_def raw_buffer_def b_size_def b_contents_def)

lemma linked_peers_demo [simp]:
  "linked_peers (demo_provider r ks) = ks" "linked_peers (demo_tracker r ks) = ks"
  by (simp_all add: linked_peers_def)

theorem uccn_post_delivers_witness:
  "wpf {} (uccn_post 0 (Some demo_content) demo_a) (\<lambda>(ret, s').
    trace s' = trace demo_a @ deliveries demo_a (content_packet 3 [1, 2, 3]) [1] \<and> \<not> mutex_locked s' \<and>
    ret = (if deliveries demo_a (content_packet 3 [1, 2, 3]) [1] = [] then 0 else 1))"
  using uccn_post_delivers [of demo_a 0 "Some demo_content" 3 "Some (demo_buffer 256)" demo_content]
  by (simp add: demo_node_eqs resource_of_def config_simps)

theorem uccn_post_too_big_witness:
  "\<exists>s'. uccn_post 0 (Some (raw_buffer (replicate 512 1))) demo_a = Inr (-1, s') \<and>
    trace s' = trace demo_a \<and> peers s' = peers demo_a \<and> \<not> mutex_locked s'"
proof (rule uccn_post_too_big [where ret = 512 and packed = "Some (demo_buffer 256)"])
  show "512 < length (content_packet (res_hash (resource_of demo_a (providers demo_a ! 0)))
      (b_contents (raw_buffer (replicate 512 1))))"
    by (simp add: content_packet_def content_items_def mpack_encode_bin16_def)
qed (simp_all add: demo_node_eqs resource_of_def config_simps raw_buffer_def b_size_def)

definition demo_broken_clock :: "buffer sys" where
  "demo_broken_clock = demo_a\<lparr>clock_gettime := (\<lambda>_. (-1, at 0))\<rparr>"

lemma wf_broken_clock [simp]: "wf_node demo_broken_clock"
  using wf_demo(1) by (simp add: demo_broken_clock_def wf_node_def)

theorem uccn_post_clock_failure_locks_witness:
  "\<exists>s'. uccn_post 0 (Some demo_content) demo_broken_clock = Inr (-1, s') \<and> mutex_locked s' \<and>
    uccn_post 0 (Some demo_content) s' = Inl Deadlock"
proof (rule uccn_post_clock_failure_locks [where blob = demo_content and ret = 3 and packed = "Some (demo_buffer 256)"])
  show "wf_node demo_broken_clock" by simp
qed (simp_all add: demo_broken_clock_def demo_node_eqs resource_of_def config_simps)

section \<open>Packets\<close>

theorem incoming_table_full_witness:
  "uccn_process_incoming \<lparr>sin_addr = 1, sin_port = 2\<rparr> (raw_buffer [0xc0])
     (demo_node (map (\<lambda>i. demo_peer i 12 11 0) [1, 2, 3, 4, 5]) [] []) =
   Inr (-1, demo_node (map (\<lambda>i. demo_peer i 12 11 0) [1, 2, 3, 4, 5]) [] [])"
  by (rule incoming_table_full) (simp add: config_simps)

theorem content_tracked_witness:
  "wpf {} (uccn_process_packet 0 (raw_buffer (content_packet 2 [9])) demo_a) (\<lambda>(ret, s').
    trace s' = trace demo_a @ [Tracked 1 101 201 (Some (raw_buffer [9]))] \<and> ret = 1 \<and>
    has_link 0 (trackers s' ! 1))"
proof -
  have "\<not> is_full (demo_tracker 1 [])" "\<not> has_link 0 (demo_tracker 1 [])"
    by (simp_all add: is_full_def has_link_def config_simps)
  then show ?thesis
    using content_tracked [of demo_a 0 2 "[9]" "raw_buffer (content_packet 2 [9])" 1 1 "Some (raw_buffer [9])"]
    by (simp add: demo_node_Suc resource_of_def raw_buffer_def b_contents_def)
qed

lemma idle_hashes_demo [simp]: "idle_hashes demo_a = [2]"
  by (simp add: idle_hashes_def resource_of_def demo_a_def)

lemma content_hash_demo: "content_hash [2] \<noteq> 0"
proof
  assume "content_hash [2] = 0"
  then have "(crc_bit ^^ 32) 2 = (crc_bit ^^ 32) 0" by (simp add: content_hash_foldl hash_step_bits)
  then have "(2 :: u32) = 0" by (rule crc_bits_inject)
  then show False by simp
qed

text \<open>Tracker 1 of the first node finds the provider of resource 1 at the second.\<close>

theorem discovery_handshake_witness:
  "wpf {} (exchange 0 0 demo_a demo_b) (\<lambda>(sa', sb').
    (\<forall>i<2. has_link 0 (trackers sa' ! i) \<longleftrightarrow> i = 1) \<and> (\<forall>j<2. has_link 0 (providers sb' ! j) \<longleftrightarrow> j = 0))"
proof -
  have two: "(\<forall>i<2. P i) \<longleftrightarrow> P 0 \<and> P (1 :: nat)" for P by (auto simp: numeral_2_eq_2 less_Suc_eq)
  have matched: "matched demo_b 2 (providers demo_b) h \<longleftrightarrow> h = 2 \<or> h = 4" for h
    by (auto simp: matched_def has_hash_def resource_of_def demo_node_Suc numeral_2_eq_2 less_Suc_eq)
  have room: "\<not> is_full (providers demo_b ! i)" if "i < 2" for i
    using that by (auto simp: less_2_cases_iff demo_node_Suc is_full_def config_simps)
  have room': "\<not> is_full (trackers demo_a ! i)" if "i < 2" for i
    using that by (auto simp: less_2_cases_iff demo_node_Suc is_full_def config_simps)
  have zero: "tracked_content_hash (demo_peer 3 12 11 0) = 0" "provided_content_hash (demo_peer 1 9 5 1) = 0"
    by (simp_all add: demo_peer_def zero_peer_def)
  show ?thesis
    using discovery_handshake [of demo_a demo_b 0 0] content_hash_demo
    by (simp add: demo_node_Suc matched room room' zero two resource_of_def)
qed

section \<open>Liveliness\<close>


definition demo_sent :: "buffer sys" where
  "demo_sent = demo_a\<lparr>outgoing_buffer := \<lparr>b_data = 0xc0 # replicate 511 0, b_length = 1\<rparr>\<rparr>"

lemma registered_demo_sent [simp]: "registered demo_sent"
  unfolding demo_sent_def
  by (rule registered_buffers(1) [OF registered_demo(1)]) (simp add: wf_buffer_def config_simps)

theorem keepalive_echo_witness:
  "wpf {} (uccn_process_incoming \<lparr>sin_addr = 1, sin_port = 2\<rparr> (raw_buffer [0xc0]) demo_sent) (\<lambda>(ret, s'). ret = 0 \<and>
    trace s' = trace demo_sent @ [Sent (socket demo_sent) \<lparr>sin_addr = 1, sin_port = 2\<rparr> (b_contents (outgoing_buffer demo_sent))] \<and>
    outgoing_buffer s' = outgoing_buffer demo_sent)"
proof (rule keepalive_echo)
  show "b_length (outgoing_buffer demo_sent) > 0"
    by (simp add: demo_sent_def)
  show "registered demo_sent" by simp
qed (simp_all add: demo_sent_def demo_node_eqs config_simps)

theorem uccn_probe_endpoints_prunes_witness:
  "wpf {} (uccn_probe_endpoints (Some 0) (Some 0) (Some (at 0)) demo_a) (\<lambda>(ret, a', b', c', s'). ret = 0 \<and>
    take (num_peers s') (peers s') = survivors (at 10) demo_a \<and>
    (\<forall>i<2. linked (trackers s' ! i) =
      filter (alive_in (marked (at 10) 2 (peers demo_a))) (linked (trackers demo_a ! i))) \<and>
    (\<forall>i<1. linked (providers s' ! i) =
      filter (alive_in (marked (at 10) 2 (peers demo_a))) (linked (providers demo_a ! i))) \<and>
    a' = Some (length (filter (\<lambda>ep. ep_num_peers ep > 0) (take 2 (trackers s')))) \<and>
    (\<exists>d. c' = Some d \<and> timespec_cmp d (timespec_add (at 10) g_uccn_endpoint_probe_timeout) \<le> 0 \<and>
      (\<forall>p\<in>set (survivors (at 10) demo_a). timespec_cmp d (next_remote_deadline p) \<le> 0) \<and>
      (d = timespec_add (at 10) g_uccn_endpoint_probe_timeout \<or>
        (\<exists>p\<in>set (survivors (at 10) demo_a). d = next_remote_deadline p))))"
  using uccn_probe_endpoints_prunes [of demo_a "at 10" 0 0 "at 0"]
  by (simp only: demo_node_eqs registered_demo simp_thms)

theorem uccn_probe_endpoints_stale_links_witness:
  "wpf {} (uccn_probe_endpoints (Some 0) (Some 0) (Some (at 0)) demo_a) (\<lambda>(ret, a', b', c', s').
    num_peers s' \<le> 1 \<and> has_link 1 (trackers s' ! 0))"
  by (rule uccn_probe_endpoints_stale_links [where t = "at 10" and j = 0])
    (simp_all add: demo_node_Suc has_link_def)

section \<open>The poller\<close>

definition demo_polls :: "upoll_s list" where
  "demo_polls = [\<lparr>up_arg = 1, up_poll = 2, polling_period = at 3, next_poll_time = at 0\<rparr>,
     \<lparr>up_arg = 4, up_poll = 5, polling_period = at 6, next_poll_time = at 20\<rparr>]"

theorem upoll_calls_due_witness:
  "wpf {} (upoll (0, at 10) (Some demo_polls) (length demo_polls) (Some (at 0))) (\<lambda>(ret, us', d', calls). ret = 0 \<and>
    us' = Some (map (polled (at 10)) demo_polls) \<and>
    calls = map (\<lambda>u. (up_poll u, up_arg u)) (filter (poll_due (at 10)) demo_polls) \<and>
    (\<exists>e. d' = Some e \<and> (\<forall>u\<in>set demo_polls. timespec_cmp e (next_poll_time (polled (at 10) u)) \<le> 0) \<and>
      (e = TIMESPEC_INF_INIT \<or> (\<exists>u\<in>set demo_polls. e = next_poll_time (polled (at 10) u)))))"
  by (rule upoll_calls_due) (simp add: demo_polls_def)

section \<open>Initialisation\<close>

definition demo_answers :: init_answers where
  "demo_answers = \<lparr>an_socket = 5, an_bind = 0, an_broadcast = 0,
     an_getsockname = (0, \<lparr>sin_addr = 0xC0A80001, sin_port = 40000\<rparr>), an_broadcast_socket = 6, an_reuse = 0,
     an_broadcast_bind = 0, an_broadcast_broadcast = 0, an_mutex = 0, an_pipe = (0, 7, 8),
     an_getfl = (\<lambda>_. 1), an_setfl = (\<lambda>_ _. 0), an_capacity = 65536\<rparr>"

definition demo_network :: uccn_network_s where
  "demo_network = \<lparr>inetaddr = 0xC0A80001, netmask = 0xFFFFFF00\<rparr>"

theorem uccn_node_init_registered_witness:
  "\<exists>s'. uccn_node_init demo_answers demo_network [110] demo_a = (0, s') \<and> registered s' \<and> accounted s' \<and>
    num_trackers s' = 0 \<and> c_string (node_name s') = Inr [110]"
proof -
  obtain ret s' where run: "uccn_node_init demo_answers demo_network [110] demo_a = (ret, s')"
    by (cases "uccn_node_init demo_answers demo_network [110] demo_a")
  moreover have "ret = 0"
    using run by (simp add: uccn_node_init_def demo_answers_def init_sync_def eventfd_init_def Let_def
        init_fields_def)
  moreover have "node_memory demo_a"
    by (simp add: node_memory_def demo_a_def demo_node_def demo_buffer_def)
  ultimately show ?thesis
    using uccn_node_init_registered [of demo_a "[110]" demo_answers demo_network ret s'] by (simp add: config_simps)
qed


theorem uccn_node_fini_closes_witness:
  "trace (snd (uccn_node_fini (\<lambda>fd. if fd = 6 then -1 else 0) 0 demo_a)) = trace demo_a @ map Closed [5, 6, 7, 8]"
  using uccn_node_fini_closes [of "\<lambda>fd. if fd = 6 then -1 else 0" 0 demo_a]
  by (simp add: demo_a_def demo_node_def)

end
