(* ===== verification/Frame.thy ===== *)
theory Frame
  imports Liveliness
begin

text \<open>
  What the operations between two waits of a spinning node leave alone: the environment, the mutex,
  the stop event and the tables' sizes; the clock is only ever read on. This holds on every run that
  returns, without any assumption on the node. What it takes of the processing of packets is proved
  for any relation with the properties of a \<open>packet_frame\<close>, and holds for two: \<open>frame\<close>, and the
  packets sent.
\<close>

definition frame :: "'c sys \<Rightarrow> 'c sys \<Rightarrow> bool" where
  "frame s t \<longleftrightarrow> clock_gettime t = clock_gettime s \<and> sendto t = sendto s \<and> recvfrom t = recvfrom s \<and>
     pselect t = pselect s \<and> pselect_calls t = pselect_calls s \<and> clock_calls s \<le> clock_calls t \<and>
     stop_event t = stop_event s \<and> stop_pipe t = stop_pipe s \<and> mutex_locked t = mutex_locked s \<and>
     resources t = resources s \<and> socket t = socket s \<and> broadcast_socket t = broadcast_socket s \<and>
     address t = address s \<and> broadcast_address t = broadcast_address s \<and> content_buffer t = content_buffer s \<and>
     num_trackers t = num_trackers s \<and> num_providers t = num_providers s \<and>
     node_name t = node_name s"

lemma frame_refl [simp]: "frame s s"
  by (simp add: frame_def)

lemma frame_trans: "frame s t \<Longrightarrow> frame t u \<Longrightarrow> frame s u"
  by (simp add: frame_def)

lemma frame_updates [simp]:
  "frame s (t\<lparr>peers := ps\<rparr>) = frame s t" "frame s (t\<lparr>num_peers := n\<rparr>) = frame s t"
  "frame s (t\<lparr>trackers := ts\<rparr>) = frame s t" "frame s (t\<lparr>providers := prs\<rparr>) = frame s t"
  "frame s (t\<lparr>incoming_buffer := b\<rparr>) = frame s t" "frame s (t\<lparr>outgoing_buffer := b\<rparr>) = frame s t"
  "frame s (t\<lparr>trace := es\<rparr>) = frame s t" "frame s (t\<lparr>sendto_calls := n\<rparr>) = frame s t"
  "frame s (t\<lparr>recvfrom_calls := n\<rparr>) = frame s t"
  by (simp_all add: frame_def)

lemma frame_fields:
  assumes "frame s t"
  shows "clock_gettime t = clock_gettime s" "pselect t = pselect s" "pselect_calls t = pselect_calls s"
    "clock_calls s \<le> clock_calls t" "stop_pipe t = stop_pipe s" "mutex_locked t = mutex_locked s"
    "resources t = resources s" "num_trackers t = num_trackers s" "sendto t = sendto s"
    "address t = address s" "broadcast_address t = broadcast_address s" "socket t = socket s"
    "num_providers t = num_providers s" "content_buffer t = content_buffer s"
    "node_name t = node_name s"
  using assms by (simp_all add: frame_def)

lemma wpf_UNIV_True [simp]: "wpf UNIV m (\<lambda>_. True)"
  by (cases m) simp_all

lemma wpf_UNIV_const: "P \<Longrightarrow> wpf UNIV m (\<lambda>_. P)"
  by (cases m) simp_all

lemma wpf_UNIV_arr_get: "wpf UNIV (arr_get a i) Q \<longleftrightarrow> (i < length a \<longrightarrow> Q (a ! i))"
  by (simp add: arr_get_def)

lemma wpf_UNIV_I: "(\<And>x. m = Inr x \<Longrightarrow> Q x) \<Longrightarrow> wpf UNIV m Q"
  by (cases m) simp_all

lemma frame_clock: "sys_clock s = (ret, t, s') \<Longrightarrow> frame s s'"
  by (auto simp: sys_clock_def frame_def Let_def split: prod.splits)

lemma frame_sendto: "sys_sendto fd addr packet s = (n, s') \<Longrightarrow> frame s s'"
  by (auto simp: sys_sendto_def frame_def Let_def split: if_splits)

lemma frame_recvfrom: "sys_recvfrom fd s = (r, s') \<Longrightarrow> frame s s'"
  by (auto simp: sys_recvfrom_def frame_def Let_def split: received.splits)

section \<open>Links and packets\<close>

text \<open>
  A relation between the node before and after a step that allows for every change that links and
  contents make: to the peers, the endpoints and the outgoing buffer, and to the trace by callbacks.
\<close>

locale packet_frame =
  fixes R :: "'c sys \<Rightarrow> 'c sys \<Rightarrow> bool"
  assumes refl [simp]: "R s s"
    and trans: "R s t \<Longrightarrow> R t u \<Longrightarrow> R s u"
    and peers [simp]: "R s (t\<lparr>peers := ps\<rparr>) = R s t"
    and trackers [simp]: "R s (t\<lparr>trackers := ts\<rparr>) = R s t"
    and providers [simp]: "R s (t\<lparr>providers := prs\<rparr>) = R s t"
    and outgoing [simp]: "R s (t\<lparr>outgoing_buffer := b\<rparr>) = R s t"
    and tracked [simp]: "R s (t\<lparr>trace := trace t @ [Tracked i f x c]\<rparr>) = R s t"
begin

lemma R_for_loop:
  assumes "\<And>i x. R s (get x) \<Longrightarrow> wpf UNIV (body i x) (\<lambda>c. case c of Continue y \<Rightarrow> R s (get y) | Break y \<Rightarrow> R s (get y))"
    and "R s (get x0)"
  shows "wpf UNIV (for_loop body i n x0) (\<lambda>x. R s (get x))"
proof (cases "i \<le> n")
  case True
  then show ?thesis using assms by (intro wpf_for_loop [where P = "\<lambda>_ x. R s (get x)"])
qed (use assms(2) in simp)

lemma R_links [intro]:
  "wpf UNIV (uccn_link_trackers peer hash s) (\<lambda>(r, t). R s t)"
  "wpf UNIV (uccn_link_providers peer hash s) (\<lambda>(r, t). R s t)"
  "wpf UNIV (uccn_unlink_trackers peer s) (\<lambda>(r, t). R s t)"
  "wpf UNIV (uccn_unlink_providers peer s) (\<lambda>(r, t). R s t)"
  by (simp_all add: uccn_link_trackers_def uccn_link_providers_def uccn_unlink_trackers_def
      uccn_unlink_providers_def split_def)

lemma R_set_peer: "wpf UNIV (set_peer k f s) (R s)"
  by (simp add: set_peer_def wpf_UNIV_arr_get)

lemma R_content_blob: "wpf UNIV (uccn_process_content_blob peer hash blob s) (\<lambda>(r, t). R s t)"
  by (rule wpf_UNIV_I)
    (auto simp: uccn_process_content_blob_def rbind_eq_Inr Let_def split: option.splits if_splits)

lemma R_content_group: "wpf UNIV (uccn_process_content_group peer r s) (\<lambda>(ret, r, t). R s t)"
proof -
  have body: "wpf UNIV (content_group_body peer i x) (\<lambda>c. case c of Continue y \<Rightarrow> R s (snd (snd y)) | Break y \<Rightarrow> R s (snd (snd y)))"
    if "R s (snd (snd x))" for i x
    using trans [OF that] R_content_blob [of peer _ _ "snd (snd x)"]
    by (auto simp: content_group_body_def Let_def split: prod.splits option.splits
        intro!: wpf_conseq [OF R_content_blob])
  then show ?thesis
    using R_for_loop [of s "\<lambda>x. snd (snd x)", OF body]
    by (auto simp: uccn_process_content_group_def Let_def split_def)
qed

lemma R_relink:
  assumes "\<And>t. wpf UNIV (unlink peer t) (\<lambda>(r, u). R t u)"
    and "\<And>h t. wpf UNIV (link peer h t) (\<lambda>(r, u). R t u)"
  shows "wpf UNIV (relink unlink link f peer hashes n s made) (\<lambda>(ret, t, made, failed). R s t)"
proof -
  have body: "wpf UNIV (relink_body link peer hashes i x) (\<lambda>c. case c of
      Continue y \<Rightarrow> R s (fst (snd y)) | Break y \<Rightarrow> R s (fst (snd y)))"
    if "R s (fst (snd x))" for i and x :: "int \<times> 'c sys \<times> u32 list \<times> bool"
  proof -
    obtain ret t made failed where x: "x = (ret, t, made, failed)" by (cases x)
    have link: "wpf UNIV (link peer h t) (\<lambda>(r, u). R s u)" for h
      using that x by (auto intro!: wpf_conseq [OF assms(2)] dest: trans)
    then show ?thesis
      by (auto simp: x relink_body_def wpf_UNIV_arr_get push_def intro!: wpf_conseq [OF link])
  qed
  have loop: "wpf UNIV (for_loop (relink_body link peer hashes) 0 n (ret, t, made, False)) (\<lambda>(ret, t, made, failed). R s t)"
    if "R s t" for ret t
    using R_for_loop [of s "\<lambda>x. fst (snd x)", OF body] that by (simp add: split_def)
  have set: "wpf UNIV (set_peer peer f t) (R s)" if "R s t" for t
    using that by (auto intro!: wpf_conseq [OF R_set_peer] dest: trans)
  show ?thesis
    unfolding relink_def wpf_rbind
    by (rule wpf_conseq [OF assms(1)]) (auto intro!: wpf_conseq [OF loop] wpf_conseq [OF set])
qed

lemma R_link_group_body:
  assumes "R s (lg_node g)"
  shows "wpf UNIV (link_group_body peer i g) (\<lambda>c. case c of
    Continue g' \<Rightarrow> R s (lg_node g') | Break g' \<Rightarrow> R s (lg_node g'))"
proof -
  have t: "wpf UNIV (relink uccn_unlink_trackers uccn_link_trackers f peer hashes n (lg_node g) made)
      (\<lambda>(ret, t, made, failed). R s t)" for f hashes n made
    using assms by (auto intro!: wpf_conseq [OF R_relink] dest: trans)
  have p: "wpf UNIV (relink uccn_unlink_providers uccn_link_providers f peer hashes n (lg_node g) made)
      (\<lambda>(ret, t, made, failed). R s t)" for f hashes n made
    using assms by (auto intro!: wpf_conseq [OF R_relink] dest: trans)
  show ?thesis
    using assms
    by (auto simp: link_group_body_def Let_def wpf_UNIV_arr_get split: prod.splits
        intro!: wpf_conseq [OF wpf_UNIV_True] wpf_conseq [OF t] wpf_conseq [OF p])
qed

lemma R_link_group: "wpf UNIV (uccn_process_link_group peer r w s) (\<lambda>(ret, r, w, t). R s t)"
proof -
  have loop: "wpf UNIV (for_loop (link_group_body peer) 0 n g) (\<lambda>g. R s (lg_node g))" if "lg_node g = s" for n g
    using R_for_loop [of s lg_node, OF R_link_group_body] that by simp
  show ?thesis
    by (auto simp: uccn_process_link_group_def Let_def split: prod.splits
        intro!: wpf_conseq [OF loop] wpf_UNIV_const)
qed

lemma R_process_packet: "wpf UNIV (uccn_process_packet peer incoming s) (\<lambda>(ret, t). R s t)"
proof -
  have body: "wpf UNIV (process_packet_body peer i x) (\<lambda>c. case c of
      Continue y \<Rightarrow> R s (snd (snd y)) | Break y \<Rightarrow> R s (snd (snd y)))"
    if "R s (snd (snd x))" for i and x :: "int \<times> mpack_reader \<times> 'c sys"
  proof -
    obtain ret r t where x: "x = (ret, r, t)" by (cases x)
    have c: "wpf UNIV (uccn_process_content_group peer r' t) (\<lambda>(ret, r, u). R s u)" for r'
      using that x by (auto intro!: wpf_conseq [OF R_content_group] dest: trans)
    have l: "wpf UNIV (uccn_process_link_group peer r' w t) (\<lambda>(ret, r, w, u). R s u)" for r' w
      using that x by (auto intro!: wpf_conseq [OF R_link_group] dest: trans)
    show ?thesis using that
      by (auto simp: x process_packet_body_def Let_def split: prod.splits
          intro!: wpf_conseq [OF c] wpf_conseq [OF l])
  qed
  show ?thesis
    using R_for_loop [of s "\<lambda>x. snd (snd x)", OF body]
    by (auto simp: uccn_process_packet_def Let_def split_def)
qed

end

interpretation framed: packet_frame frame
  by unfold_locales (auto intro: frame_trans)

lemmas frame_for_loop = framed.R_for_loop
lemmas frame_process_packet = framed.R_process_packet

text \<open>Nothing is sent while a packet is processed: the answer is left in the outgoing buffer.\<close>

definition sends :: "'c sys \<Rightarrow> 'c event list" where
  "sends s = filter (\<lambda>e. case e of Sent _ _ _ \<Rightarrow> True | _ \<Rightarrow> False) (trace s)"

definition silent :: "'c sys \<Rightarrow> 'c sys \<Rightarrow> bool" where
  "silent s t \<longleftrightarrow> sends t = sends s"

interpretation silent: packet_frame silent
  by unfold_locales (auto simp: silent_def sends_def)

section \<open>The operations of a spinning node\<close>

lemma frame_register_peer: "wpf UNIV (uccn_register_peer addr s) (\<lambda>(k, t). frame s t)"
proof (rule wpf_UNIV_I)
  fix x assume run: "uccn_register_peer addr s = Inr x"
  obtain ret t u where clock: "sys_clock s = (ret, t, u)" by (cases "sys_clock s")
  show "case x of (k, t) \<Rightarrow> frame s t"
    using run frame_clock [OF clock]
    by (auto simp: uccn_register_peer_def clock rbind_eq_Inr Let_def split: option.splits if_splits)
qed

lemma frame_process_incoming: "wpf UNIV (uccn_process_incoming origin incoming s) (\<lambda>(ret, t). frame s t)"
proof (rule wpf_UNIV_I, clarify)
  fix ret t assume run: "uccn_process_incoming origin incoming s = Inr (ret, t)"
  then obtain k u where reg: "uccn_register_peer origin s = Inr (k, u)" by (auto simp: uccn_process_incoming_def rbind_eq_Inr)
  have u: "frame s u" using frame_register_peer [of origin s] by (simp add: reg)
  show "frame s t"
  proof (cases k)
    case None
    then show ?thesis using run u by (simp add: uccn_process_incoming_def reg)
  next
    case (Some j)
    obtain r v where packet: "uccn_process_packet j incoming u = Inr (r, v)"
      using run by (auto simp: uccn_process_incoming_def reg Some rbind_eq_Inr)
    have v: "frame s v" using frame_process_packet [of j incoming u] u by (auto simp: packet dest: frame_trans)
    obtain n w where send: "sys_sendto (socket v) (p_address (peers v ! j)) (b_contents (outgoing_buffer v)) v = (n, w)"
      by fastforce
    show ?thesis
      using run v frame_trans [OF v frame_sendto [OF send]]
      by (auto simp: uccn_process_incoming_def reg Some packet rbind_eq_Inr arr_get_eq_Inr send Let_def split: if_splits)
  qed
qed

lemma frame_process_incoming_cast:
  "wpf UNIV (uccn_process_incoming_unicast s) (\<lambda>(ret, t). frame s t)"
  "wpf UNIV (uccn_process_incoming_broadcast s) (\<lambda>(ret, t). frame s t)"
proof -
  have step: "wpf UNIV (uccn_process_incoming addr b (u\<lparr>incoming_buffer := b\<rparr>)) (\<lambda>(ret, t). frame s t)"
    if "frame s u" for addr b u
    using that frame_trans [of s "u\<lparr>incoming_buffer := b\<rparr>"]
    by (auto intro!: wpf_conseq [OF frame_process_incoming])
  show "wpf UNIV (uccn_process_incoming_unicast s) (\<lambda>(ret, t). frame s t)"
    by (auto simp: uccn_process_incoming_unicast_def Let_def dest: frame_recvfrom intro!: step
        split: prod.splits received.splits)
  show "wpf UNIV (uccn_process_incoming_broadcast s) (\<lambda>(ret, t). frame s t)"
    by (auto simp: uccn_process_incoming_broadcast_def Let_def dest: frame_recvfrom intro!: step
        split: prod.splits received.splits)
qed

lemma frame_assert_liveliness: "wpf UNIV (uccn_assert_liveliness d s) (\<lambda>(ret, d, t). frame s t)"
proof -
  have body: "wpf UNIV (assert_body now packet i x) (\<lambda>c. case c of
      Continue y \<Rightarrow> frame s (snd (snd y)) | Break y \<Rightarrow> frame s (snd (snd y)))"
    if x: "frame s (snd (snd x))" for now packet i and x :: "int \<times> timespec option \<times> 'a sys"
    using x frame_trans [OF x frame_sendto]
    by (auto simp: assert_body_def wpf_UNIV_arr_get Let_def c_assert_def split: prod.splits)
  have loop: "wpf UNIV (for_loop (assert_body now packet) 0 n (ret, d, t)) (\<lambda>(ret, d, u). frame s u)"
    if "frame s t" for now packet n ret d t
    using frame_for_loop [of s "\<lambda>x. snd (snd x)", OF body] that by (simp add: split_def)
  have "frame s u" if "sys_clock (s\<lparr>outgoing_buffer := p\<rparr>) = (r, n, u)" for p r n u
    using frame_clock [OF that] frame_trans [of s "s\<lparr>outgoing_buffer := p\<rparr>" u] by simp
  then show ?thesis
    by (auto simp: uccn_assert_liveliness_def Let_def split: prod.splits intro!: loop)
qed

lemma frame_discover_peers: "wpf UNIV (uccn_discover_peers s) (\<lambda>(ret, t). frame s t)"
proof -
  have "frame s u" if "sys_sendto fd addr packet (s\<lparr>outgoing_buffer := b\<rparr>) = (n, u)" for fd addr packet b n u
    using frame_sendto [OF that] frame_trans [of s "s\<lparr>outgoing_buffer := b\<rparr>" u] by simp
  then show ?thesis
    by (auto simp: uccn_discover_peers_def Let_def c_assert_def split: prod.splits intro!: wpf_UNIV_I)
qed

lemma frame_probe_endpoints: "wpf UNIV (uccn_probe_endpoints a b c s) (\<lambda>(ret, a, b, c, t). frame s t)"
  by (rule wpf_UNIV_I)
    (auto simp: uccn_probe_endpoints_def Let_def rbind_eq_Inr dest: frame_clock split: prod.splits if_splits)

end
