(* ===== verification/Spin.thy ===== *)
theory Spin
  imports Frame Node_Init
begin

text \<open>
  \<open>uccn_spin\<close> and \<open>uccn_spin_until\<close> of \<open>src/uccn.c\<close>: the loop in which a node waits for packets, for
  its stop event and for its deadlines. The loop over \<open>pselect\<close> that signals interrupt, and the loop
  around it, need not end: they run on fuel and answer \<open>None\<close> when it is used up, and more fuel gives
  the same answer (\<open>spin_more_fuel\<close>). \<open>uccn_spin_returns\<close> says how much is enough.
\<close>

section \<open>The environment\<close>

text \<open>Stop events that other threads or signal handlers raise while the node waits.\<close>

definition raise_stops :: "nat \<Rightarrow> pipe_s \<Rightarrow> pipe_s" where
  "raise_stops n = (\<lambda>p. snd (eventfd_set p)) ^^ n"

definition sys_pselect :: "timespec \<Rightarrow> 'c sys \<Rightarrow> selected \<times> 'c sys" where
  "sys_pselect timeout s =
     (let answer = pselect s (pselect_calls s) timeout;
          n = (case answer of Select_Error n _ \<Rightarrow> n | Selected n _ _ \<Rightarrow> n)
      in (answer, s\<lparr>pselect_calls := pselect_calls s + 1, stop_pipe := raise_stops n (stop_pipe s)\<rparr>))"

section \<open>One turn of the loop\<close>

text \<open>
  The variables of \<open>uccn_spin_until\<close>; \<open>sp_stop\<close>, \<open>sp_unicast\<close> and \<open>sp_broadcast\<close> are the bits of
  \<open>rfds\<close> for the stop event and the two sockets. A turn that leaves the loop is a \<open>Break\<close>.
\<close>

record 'c spin =
  sp_ret :: int
  sp_nret :: int
  sp_stop :: bool
  sp_unicast :: bool
  sp_broadcast :: bool
  sp_now :: timespec
  sp_active :: nat
  sp_assert :: timespec
  sp_probe :: timespec
  sp_discovery :: timespec
  sp_deadline :: timespec
  sp_node :: "'c sys"

definition cbind :: "'a ctl result \<Rightarrow> ('a \<Rightarrow> 'a ctl result) \<Rightarrow> 'a ctl result" where
  "cbind m f = rbind m (\<lambda>c. case c of Break v \<Rightarrow> Inr (Break v) | Continue v \<Rightarrow> f v)"

definition unlock_break :: "int \<Rightarrow> 'c sys \<Rightarrow> 'c spin \<Rightarrow> 'c spin ctl result" where
  "unlock_break ret s v = Inr (Break (v\<lparr>sp_ret := ret, sp_node := mutex_unlock s\<rparr>))"

definition spin_incoming ::
    "('c sys \<Rightarrow> (int \<times> 'c sys) result) \<Rightarrow> bool \<Rightarrow> 'c spin \<Rightarrow> 'c spin ctl result" where
  "spin_incoming process ready v =
     (if ready then
        rbind (process (sp_node v)) (\<lambda>(ret, s).
        if ret < 0 then unlock_break ret s v
        else Inr (Continue (v\<lparr>sp_ret := ret, sp_node := s\<rparr>)))
      else Inr (Continue v))"

definition spin_input :: "'c spin \<Rightarrow> 'c spin ctl result" where
  "spin_input v =
     (if sp_nret v > 0 then
        if sp_stop v then
          rbind (eventfd_clear (stop_pipe (sp_node v))) (\<lambda>(ret, p).
          let s = (sp_node v)\<lparr>stop_pipe := p\<rparr> in
          Inr (Break (v\<lparr>sp_ret := ret, sp_node := if ret < 0 then mutex_unlock s else s\<rparr>)))
        else
          cbind (spin_incoming uccn_process_incoming_unicast (sp_unicast v) v) (\<lambda>v.
          spin_incoming uccn_process_incoming_broadcast (sp_broadcast v) v)
      else Inr (Continue v))"

definition spin_clock :: "'c spin \<Rightarrow> 'c spin ctl result" where
  "spin_clock v =
     (let (ret, t, s) = sys_clock (sp_node v) in
      if ret \<noteq> 0 then unlock_break ret s v
      else Inr (Continue (v\<lparr>sp_ret := ret, sp_now := t, sp_node := s\<rparr>)))"

definition spin_assert :: "'c spin \<Rightarrow> 'c spin ctl result" where
  "spin_assert v =
     (if timespec_cmp (sp_now v) (sp_assert v) \<ge> 0 then
        rbind (uccn_assert_liveliness (Some (sp_assert v)) (sp_node v)) (\<lambda>(ret, d, s).
        let v = v\<lparr>sp_assert := case_option (sp_assert v) (\<lambda>d. d) d\<rparr> in
        if ret < 0 then unlock_break ret s v
        else
          rbind (c_assert (timespec_cmp (sp_assert v) (sp_now v) > 0)) (\<lambda>_.
          Inr (Continue (v\<lparr>sp_ret := ret, sp_node := s\<rparr>))))
      else Inr (Continue v))"

definition spin_probe :: "'c spin \<Rightarrow> 'c spin ctl result" where
  "spin_probe v =
     (if timespec_cmp (sp_now v) (sp_probe v) \<ge> 0 then
        rbind (uccn_probe_endpoints (Some (sp_active v)) None (Some (sp_probe v)) (sp_node v))
          (\<lambda>(ret, active, _, d, s).
        let v = v\<lparr>sp_active := case_option (sp_active v) (\<lambda>n. n) active,
                  sp_probe := case_option (sp_probe v) (\<lambda>d. d) d\<rparr> in
        if ret < 0 then unlock_break ret s v
        else
          rbind (c_assert (timespec_cmp (sp_probe v) (sp_now v) > 0)) (\<lambda>_.
          Inr (Continue (v\<lparr>sp_ret := ret, sp_node := s\<rparr>))))
      else Inr (Continue v))"

definition spin_discover :: "'c spin \<Rightarrow> 'c spin ctl result" where
  "spin_discover v =
     (if timespec_cmp (sp_now v) (sp_discovery v) \<ge> 0 then
        cbind
          (if sp_active v < num_trackers (sp_node v) then
             rbind (uccn_discover_peers (sp_node v)) (\<lambda>(ret, s).
             if ret < 0 then unlock_break ret s v
             else Inr (Continue (v\<lparr>sp_ret := ret, sp_node := s\<rparr>)))
           else Inr (Continue v))
          (\<lambda>v.
          let v = v\<lparr>sp_discovery := timespec_add (sp_discovery v) g_uccn_peer_discovery_period\<rparr> in
          rbind (c_assert (timespec_cmp (sp_discovery v) (sp_now v) > 0)) (\<lambda>_. Inr (Continue v)))
      else Inr (Continue v))"

definition sooner :: "timespec \<Rightarrow> timespec \<Rightarrow> timespec" where
  "sooner d t = (if timespec_cmp d t > 0 then t else d)"

definition spin_timeout :: "timespec \<Rightarrow> 'c spin \<Rightarrow> 'c spin ctl result" where
  "spin_timeout timeout_time v =
     (let s = mutex_unlock (sp_node v);
          (ret, t, s) = sys_clock s;
          v = v\<lparr>sp_ret := ret, sp_now := t, sp_node := s\<rparr>
      in
      if ret \<noteq> 0 then Inr (Break v)
      else if timespec_cmp t timeout_time \<ge> 0 then Inr (Break v)
      else
        let d = sooner (sooner (sooner timeout_time (sp_assert v)) (sp_probe v)) (sp_discovery v) in
        rbind (c_assert (TIMESPEC_ISFINITE d)) (\<lambda>_. Inr (Continue (v\<lparr>sp_deadline := d\<rparr>))))"

definition spin_turn :: "timespec \<Rightarrow> 'c spin \<Rightarrow> 'c spin ctl result" where
  "spin_turn timeout_time v =
     rbind (mutex_lock (sp_node v)) (\<lambda>s.
     cbind (spin_input (v\<lparr>sp_ret := 0, sp_node := s\<rparr>)) (\<lambda>v.
     cbind (spin_clock v) (\<lambda>v.
     cbind (spin_assert v) (\<lambda>v.
     cbind (spin_probe v) (\<lambda>v.
     cbind (spin_discover v) (\<lambda>v.
     spin_timeout timeout_time v))))))"

lemma sooner_least: "sooner a b \<le> a" "sooner a b \<le> b" "sooner a b = a \<or> sooner a b = b"
  using cmp_swap [of a b] by (auto simp: sooner_def timespec_le)

text \<open>
  A turn that is not the last one waits until the earliest of the end of the timeout, the next
  keepalive, the next probe and the next search for peers, and that time is a finite one.
\<close>

theorem spin_waits_for_earliest:
  assumes "spin_timeout timeout_time v = Inr (Continue w)"
  shows "(\<forall>d\<in>{timeout_time, sp_assert v, sp_probe v, sp_discovery v}. sp_deadline w \<le> d) \<and>
    sp_deadline w \<in> {timeout_time, sp_assert v, sp_probe v, sp_discovery v} \<and> TIMESPEC_ISFINITE (sp_deadline w) \<and>
    sp_now w < timeout_time \<and> \<not> mutex_locked (sp_node w)"
proof -
  obtain ret t s where clock: "sys_clock (mutex_unlock (sp_node v)) = (ret, t, s)"
    by (cases "sys_clock (mutex_unlock (sp_node v))")
  let ?d = "sooner (sooner (sooner timeout_time (sp_assert v)) (sp_probe v)) (sp_discovery v)"
  have w: "w = v\<lparr>sp_ret := ret, sp_now := t, sp_node := s, sp_deadline := ?d\<rparr>" "timespec_cmp t timeout_time < 0"
      "TIMESPEC_ISFINITE ?d"
    using assms by (auto simp: spin_timeout_def clock Let_def c_assert_def rbind_eq_Inr split: if_splits)
  have unlocked: "\<not> mutex_locked s" using clock by (auto simp: sys_clock_def mutex_unlock_def Let_def split: prod.splits)
  note first = sooner_least(1,2) [of "sooner (sooner timeout_time (sp_assert v)) (sp_probe v)" "sp_discovery v"]
  note second = sooner_least(1,2) [of "sooner timeout_time (sp_assert v)" "sp_probe v"]
  note third = sooner_least(1,2) [of timeout_time "sp_assert v"]
  have "?d \<le> timeout_time" "?d \<le> sp_assert v" "?d \<le> sp_probe v" "?d \<le> sp_discovery v"
    using first second third order.trans by blast+
  moreover have "?d \<in> {timeout_time, sp_assert v, sp_probe v, sp_discovery v}"
    by (simp add: sooner_def)
  ultimately show ?thesis using w(2,3) unlocked by (simp add: w(1) timespec_le)
qed

section \<open>Waiting, and the loop\<close>

text \<open>
  A clock that fails leaves the loop over \<open>pselect\<close> with all bits of \<open>rfds\<close> set and the count of
  the wait before.
\<close>

fun spin_wait :: "nat \<Rightarrow> 'c spin \<Rightarrow> 'c spin option" where
  "spin_wait 0 v = None"
| "spin_wait (Suc fuel) v =
     (let v = v\<lparr>sp_stop := True, sp_unicast := True, sp_broadcast := True\<rparr>;
          (ret, t, s) = sys_clock (sp_node v);
          v = v\<lparr>sp_ret := ret, sp_now := t, sp_node := s\<rparr>
      in
      if ret \<noteq> 0 then Some v
      else
        let (answer, s) = sys_pselect (timespec_diff (sp_deadline v) t) s in
        case answer of
          Select_Error _ interrupted \<Rightarrow>
            let v = v\<lparr>sp_ret := -1, sp_nret := -1, sp_node := s\<rparr> in
            if interrupted then spin_wait fuel v else Some v
        | Selected _ unicast broadcast \<Rightarrow>
            let stop = readable (stop_pipe s);
                n = of_bool stop + of_bool unicast + of_bool broadcast
            in Some (v\<lparr>sp_ret := n, sp_nret := n, sp_stop := stop, sp_unicast := unicast,
                 sp_broadcast := broadcast, sp_node := s\<rparr>))"

fun spin_loop :: "timespec \<Rightarrow> nat \<Rightarrow> 'c spin \<Rightarrow> (int \<times> 'c sys) result option" where
  "spin_loop timeout_time 0 v = None"
| "spin_loop timeout_time (Suc fuel) v =
     (case spin_turn timeout_time v of
        Inl e \<Rightarrow> Some (Inl e)
      | Inr (Break v) \<Rightarrow> Some (Inr (sp_ret v, sp_node v))
      | Inr (Continue v) \<Rightarrow>
          (case spin_wait fuel v of
             None \<Rightarrow> None
           | Some v \<Rightarrow>
               if sp_ret v \<ge> 0 then spin_loop timeout_time fuel v
               else Some (Inr (sp_ret v, sp_node v))))"

text \<open>
  \<open>num_active_trackers\<close> is not initialised: the first turn sets it as long as the clock does not
  go back. Its first value is a parameter.
\<close>

definition spin_start :: "nat \<Rightarrow> timespec \<Rightarrow> 'c sys \<Rightarrow> 'c spin" where
  "spin_start active current_time s = \<lparr>sp_ret = 0, sp_nret = 0, sp_stop = False, sp_unicast = False,
     sp_broadcast = False, sp_now = current_time, sp_active = active, sp_assert = current_time,
     sp_probe = current_time, sp_discovery = current_time, sp_deadline = current_time, sp_node = s\<rparr>"

definition uccn_spin_until ::
    "nat \<Rightarrow> nat \<Rightarrow> timespec \<Rightarrow> 'c sys \<Rightarrow> (int \<times> 'c sys) result option" where
  "uccn_spin_until fuel active timeout_time s =
     (let (ret, current_time, s) = sys_clock s in
      if ret \<noteq> 0 then Some (Inr (ret, s))
      else spin_loop timeout_time fuel (spin_start active current_time s))"

definition uccn_spin ::
    "nat \<Rightarrow> nat \<Rightarrow> timespec option \<Rightarrow> 'c sys \<Rightarrow> (int \<times> 'c sys) result option" where
  "uccn_spin fuel active timeout s =
     (case timeout of
        None \<Rightarrow> uccn_spin_until fuel active TIMESPEC_INF s
      | Some t \<Rightarrow>
          let (ret, timeout_time, s) = sys_clock s in
          if ret \<noteq> 0 then Some (Inr (ret, s))
          else uccn_spin_until fuel active (timespec_add timeout_time t) s)"

section \<open>Fuel\<close>

lemma wait_more_fuel: "spin_wait m v = Some w \<Longrightarrow> m \<le> n \<Longrightarrow> spin_wait n v = Some w"
proof (induction m arbitrary: n v)
  case (Suc m)
  from Suc.prems(2) obtain k where k: "n = Suc k" "m \<le> k" by (cases n) auto
  obtain ret t s where c: "sys_clock (sp_node v) = (ret, t, s)" by (cases "sys_clock (sp_node v)")
  obtain a u where p: "sys_pselect (timespec_diff (sp_deadline v) t) s = (a, u)" by fastforce
  show ?case
    by (cases a) (use Suc.prems(1) Suc.IH [OF _ k(2)] in \<open>auto simp: k(1) c p Let_def split: if_splits\<close>)
qed simp

lemma loop_more_fuel: "spin_loop t m v = Some r \<Longrightarrow> m \<le> n \<Longrightarrow> spin_loop t n v = Some r"
proof (induction m arbitrary: n v)
  case (Suc m)
  from Suc.prems(2) obtain k where "n = Suc k" "m \<le> k" by (cases n) auto
  with Suc show ?case
    by (auto split: sum.splits ctl.splits option.splits if_splits dest: wait_more_fuel)
qed simp

text \<open>Fuel only bounds the run: an answer that some fuel gives is the answer that more fuel gives.\<close>

lemma spin_more_fuel:
  assumes "uccn_spin_until m active t s = Some r" and "m \<le> n"
  shows "uccn_spin_until n active t s = Some r"
  using assms loop_more_fuel by (fastforce simp: uccn_spin_until_def Let_def split: prod.splits if_splits)

end
