(* ===== verification/Spin_Inv.thy ===== *)
theory Spin_Inv
  imports Spin
begin

text \<open>
  What holds of a node whenever it spins: an interface for invariants of the operations that
  \<open>uccn_spin_until\<close> calls, and its instances for the node's memory and for the environment.
\<close>

section \<open>Invariants of the loop\<close>

lemma wpf_cbind: "wpf F (cbind m f) Q \<longleftrightarrow>
  wpf F m (\<lambda>c. case c of Break v \<Rightarrow> Q (Break v) | Continue v \<Rightarrow> wpf F (f v) Q)"
  by (cases m) (simp_all add: cbind_def split: ctl.splits)

text \<open>A predicate on the node, on both ways out of a step.\<close>

definition on_node :: "('c sys \<Rightarrow> bool) \<Rightarrow> 'c spin ctl \<Rightarrow> bool" where
  "on_node I c = (case c of Break v \<Rightarrow> I (sp_node v) | Continue v \<Rightarrow> I (sp_node v))"

lemma on_node_simps [simp]: "on_node I (Break v) = I (sp_node v)" "on_node I (Continue v) = I (sp_node v)"
  by (simp_all add: on_node_def)

lemma wpf_cbind_on_node:
  "wpf F m (on_node I) \<Longrightarrow> (\<And>v. I (sp_node v) \<Longrightarrow> wpf F (f v) (on_node I)) \<Longrightarrow> wpf F (cbind m f) (on_node I)"
  unfolding wpf_cbind by (erule wpf_conseq) (auto split: ctl.splits)

text \<open>What a turn does after its input, and what the rest of the loop adds to it.\<close>

locale spin_steps =
  fixes I :: "'c sys \<Rightarrow> bool" and F :: "fault set"
  assumes faults: "Assert_Failed \<in> F" "Deadlock \<in> F"
    and keepalive: "I s \<Longrightarrow> wpf F (uccn_assert_liveliness (Some d) s) (\<lambda>(ret, d, t). I t)"
    and probe: "I s \<Longrightarrow> wpf F (uccn_probe_endpoints (Some n) None (Some d) s) (\<lambda>(ret, a, b, d, t). I t)"
    and discover: "I s \<Longrightarrow> wpf F (uccn_discover_peers s) (\<lambda>(ret, t). I t)"
    and clock: "I s \<Longrightarrow> sys_clock s = (ret, t, u) \<Longrightarrow> I u"
    and mutex: "I s \<Longrightarrow> I (s\<lparr>mutex_locked := b\<rparr>)"
begin

lemma unlock: "I s \<Longrightarrow> wpf F (unlock_break ret s v) (on_node I)"
  using mutex [of s False] by (simp add: unlock_break_def mutex_unlock_def)

lemma tick: "I (sp_node v) \<Longrightarrow> wpf F (spin_clock v) (on_node I)"
  by (auto simp: spin_clock_def Let_def split: prod.splits intro: clock intro!: unlock)

lemma asserting: "I (sp_node v) \<Longrightarrow> wpf F (spin_assert v) (on_node I)"
  using faults(1)
  by (auto simp: spin_assert_def Let_def c_assert_def intro!: wpf_conseq [OF keepalive] unlock)

lemma probing: "I (sp_node v) \<Longrightarrow> wpf F (spin_probe v) (on_node I)"
  using faults(1)
  by (auto simp: spin_probe_def Let_def c_assert_def intro!: wpf_conseq [OF probe] unlock)

lemma discovering: "I (sp_node v) \<Longrightarrow> wpf F (spin_discover v) (on_node I)"
  using faults(1)
  by (auto simp: spin_discover_def Let_def c_assert_def intro!: wpf_cbind_on_node wpf_conseq [OF discover] unlock)

lemma timeout: "I (sp_node v) \<Longrightarrow> wpf F (spin_timeout t v) (on_node I)"
  using faults(1) mutex [of "sp_node v" False]
  by (auto simp: spin_timeout_def Let_def c_assert_def mutex_unlock_def split: prod.splits intro: clock)

lemma rest: "I (sp_node v) \<Longrightarrow> wpf F (cbind (spin_clock v) (\<lambda>v. cbind (spin_assert v) (\<lambda>v. cbind (spin_probe v)
    (\<lambda>v. cbind (spin_discover v) (spin_timeout t))))) (on_node I)"
  by (intro wpf_cbind_on_node tick asserting probing discovering timeout)

end

locale spin_invariant = spin_steps I F for I :: "'c sys \<Rightarrow> bool" and F :: "fault set" +
  assumes unicast: "I s \<Longrightarrow> wpf F (uccn_process_incoming_unicast s) (\<lambda>(ret, t). I t)"
    and broadcast: "I s \<Longrightarrow> wpf F (uccn_process_incoming_broadcast s) (\<lambda>(ret, t). I t)"
    and select: "I s \<Longrightarrow> sys_pselect d s = (a, u) \<Longrightarrow> I u"
    and stop: "I s \<Longrightarrow> I (s\<lparr>stop_pipe := p\<rparr>)"
begin

lemma incoming:
  assumes "\<And>s. I s \<Longrightarrow> wpf F (process s) (\<lambda>(ret, t). I t)" and "I (sp_node v)"
  shows "wpf F (spin_incoming process ready v) (on_node I)"
  using assms(2) by (auto simp: spin_incoming_def intro!: wpf_conseq [OF assms(1)] unlock)

lemma input: "I (sp_node v) \<Longrightarrow> wpf F (spin_input v) (on_node I)"
  using stop [of "sp_node v"] mutex faults(2)
  by (auto simp: spin_input_def eventfd_clear_def mutex_unlock_def Let_def
      intro!: wpf_cbind_on_node incoming unicast broadcast)

lemma turn: "I (sp_node v) \<Longrightarrow> wpf F (spin_turn t v) (on_node I)"
  using faults(2) mutex [of "sp_node v" True]
  by (auto simp: spin_turn_def mutex_lock_def
      intro!: wpf_cbind_on_node input rest)

lemma wait: "I (sp_node v) \<Longrightarrow> spin_wait n v = Some w \<Longrightarrow> I (sp_node w)"
proof (induction n arbitrary: v)
  case (Suc n)
  obtain ret t s where c: "sys_clock (sp_node v) = (ret, t, s)" by (cases "sys_clock (sp_node v)")
  obtain a u where p: "sys_pselect (timespec_diff (sp_deadline v) t) s = (a, u)" by fastforce
  have s: "I s" "I u" using clock [OF Suc.prems(1) c] select [OF _ p] by simp_all
  show ?case
    using Suc.prems(2) s
    by (auto simp: c p Let_def elim!: Suc.IH [rotated] split: if_splits selected.splits)
qed simp

lemma loop: "I (sp_node v) \<Longrightarrow> spin_loop t n v = Some r \<Longrightarrow> wpf F r (\<lambda>(ret, s). I s)"
proof (induction n arbitrary: v)
  case (Suc n)
  show ?case
  proof (cases "spin_turn t v")
    case (Inl e)
    then show ?thesis using turn [OF Suc.prems(1), of t] Suc.prems(2) by auto
  next
    case (Inr c)
    then have c: "on_node I c" using turn [OF Suc.prems(1), of t] by simp
    show ?thesis
    proof (cases c)
      case (Break w)
      then show ?thesis using c Inr Suc.prems(2) by auto
    next
      case (Continue w)
      then show ?thesis using c Inr Suc.prems(2) wait [of w n]
        by (auto split: option.splits if_splits intro: Suc.IH)
    qed
  qed
qed simp

lemma spin_until: "I s \<Longrightarrow> uccn_spin_until n active t s = Some r \<Longrightarrow> wpf F r (\<lambda>(ret, s). I s)"
  using clock [of s] loop [of "spin_start active _ _"]
  by (auto simp: uccn_spin_until_def Let_def spin_start_def split: prod.splits if_splits)

end

section \<open>The environment\<close>

definition env :: "'c sys \<Rightarrow> 'c sys \<Rightarrow> bool" where
  "env s t \<longleftrightarrow> clock_gettime t = clock_gettime s \<and> pselect t = pselect s \<and> resources t = resources s \<and>
     clock_calls s \<le> clock_calls t \<and> pselect_calls s \<le> pselect_calls t"

lemma env_frame: "env s t \<Longrightarrow> frame t u \<Longrightarrow> env s u"
  by (simp add: env_def frame_def)

lemma env_op: "env s t \<Longrightarrow> wpf UNIV m (\<lambda>x. frame t (g x)) \<Longrightarrow> wpf UNIV m (\<lambda>x. env s (g x))"
  by (erule wpf_conseq) (rule env_frame)

interpretation spin_env: spin_invariant "env s" UNIV for s
proof unfold_locales
  fix t assume t: "env s t"
  show "wpf UNIV (uccn_process_incoming_unicast t) (\<lambda>(ret, u). env s u)"
    using env_op [OF t frame_process_incoming_cast(1) [unfolded split_def]] by (simp add: split_def)
  show "wpf UNIV (uccn_process_incoming_broadcast t) (\<lambda>(ret, u). env s u)"
    using env_op [OF t frame_process_incoming_cast(2) [unfolded split_def]] by (simp add: split_def)
  show "wpf UNIV (uccn_assert_liveliness (Some d) t) (\<lambda>(ret, d, u). env s u)" for d
    using env_op [OF t frame_assert_liveliness [unfolded split_def]] by (simp add: split_def)
  show "wpf UNIV (uccn_probe_endpoints (Some n) None (Some d) t) (\<lambda>(ret, a, b, d, u). env s u)" for n d
    using env_op [OF t frame_probe_endpoints [unfolded split_def]] by (simp add: split_def)
  show "wpf UNIV (uccn_discover_peers t) (\<lambda>(ret, u). env s u)"
    using env_op [OF t frame_discover_peers [unfolded split_def]] by (simp add: split_def)
  show "env s u" if "sys_clock t = (ret, c, u)" for ret c u
    using env_frame [OF t frame_clock [OF that]] .
  show "env s u" if "sys_pselect d t = (a, u)" for d a u
    using t that by (auto simp: sys_pselect_def env_def Let_def)
qed (simp_all add: env_def)


section \<open>Memory\<close>

abbreviation spin_faults :: "fault set \<Rightarrow> fault set" where
  "spin_faults G \<equiv> insert Assert_Failed (insert Out_Of_Bounds (insert Deadlock G))"

lemma registered_incoming:
  "registered (s\<lparr>incoming_buffer := b\<rparr>) \<longleftrightarrow> registered s"
  if "wf_buffer CONFIG_UCCN_INCOMING_BUFFER_SIZE b" "wf_buffer CONFIG_UCCN_INCOMING_BUFFER_SIZE (incoming_buffer s)"
  using that by (simp add: registered_def wf_node_def hash_table_def resource_of_def)

lemma registered_recvfrom:
  assumes "registered s" and "sys_recvfrom fd s = (Recv addr d, t)"
  shows "registered (t\<lparr>incoming_buffer := (incoming_buffer t)\<lparr>b_length := length d\<rparr>\<rparr>)"
proof -
  let ?old = "b_data (incoming_buffer s)"
  have buf: "wf_buffer CONFIG_UCCN_INCOMING_BUFFER_SIZE (incoming_buffer s)"
    using assms(1) by (simp add: registered_def wf_node_def)
  have "length d \<le> length ?old"
    and t: "t = s\<lparr>recvfrom_calls := recvfrom_calls s + 1,
      incoming_buffer := (incoming_buffer s)\<lparr>b_data := d @ drop (length d) ?old\<rparr>\<rparr>"
    using assms(2) by (auto simp: sys_recvfrom_def Let_def split: received.splits)
  then show ?thesis
    using assms(1) buf by (simp add: registered_def wf_node_def hash_table_def resource_of_def wf_buffer_def)
qed

lemma registered_recvfrom_error:
  "registered s \<Longrightarrow> sys_recvfrom fd s = (Recv_Error e, t) \<Longrightarrow> registered t"
  by (auto simp: sys_recvfrom_def Let_def registered_def wf_node_def hash_table_def resource_of_def
      split: received.splits)

lemma process_incoming_cast_keeps:
  assumes "registered s" and "unpack_safe (spin_faults G) (resources s)"
  shows "wpf (spin_faults G) (uccn_process_incoming_unicast s) (\<lambda>(ret, t). registered t)"
    and "wpf (spin_faults G) (uccn_process_incoming_broadcast s) (\<lambda>(ret, t). registered t)"
proof -
  have step: "wpf (spin_faults G) (uccn_process_incoming addr b (t\<lparr>incoming_buffer := (incoming_buffer t)\<lparr>b_length := length d\<rparr>\<rparr>))
      (\<lambda>(ret, t). registered t)" if "sys_recvfrom fd s = (Recv addr' d, t)" for fd addr addr' b d t
    using registered_recvfrom [OF assms(1) that] assms(2) frame_fields(7) [OF frame_recvfrom [OF that]]
    by (auto intro!: wpf_conseq [OF uccn_process_incoming_keeps])
  show "wpf (spin_faults G) (uccn_process_incoming_unicast s) (\<lambda>(ret, t). registered t)"
    by (auto simp: uccn_process_incoming_unicast_def Let_def split: prod.splits received.splits
        intro!: step registered_recvfrom [OF assms(1)] intro: registered_recvfrom_error [OF assms(1)])
  show "wpf (spin_faults G) (uccn_process_incoming_broadcast s) (\<lambda>(ret, t). registered t)"
    by (auto simp: uccn_process_incoming_broadcast_def Let_def split: prod.splits received.splits
        intro!: step registered_recvfrom [OF assms(1)] intro: registered_recvfrom_error [OF assms(1)])
qed

lemma with_resources:
  assumes "wpf F m (\<lambda>x. registered (g x))" and "wpf UNIV m (\<lambda>x. frame s (g x))" and "unpack_safe F (resources s)"
  shows "wpf F m (\<lambda>x. registered (g x) \<and> unpack_safe F (resources (g x)))"
  using assms by (cases m) (auto simp: frame_fields)

interpretation spin_memory: spin_invariant
  "\<lambda>s. registered s \<and> unpack_safe (spin_faults G) (resources s)" "spin_faults G" for G
proof unfold_locales
  fix s :: "'a sys" assume s: "registered s \<and> unpack_safe (spin_faults G) (resources s)"
  then have r: "registered s" and u: "unpack_safe (spin_faults G) (resources s)" by simp_all
  show "wpf (spin_faults G) (uccn_process_incoming_unicast s)
      (\<lambda>(ret, t). registered t \<and> unpack_safe (spin_faults G) (resources t))"
    using with_resources [of _ _ snd s, OF _ _ u] process_incoming_cast_keeps(1) [OF r u]
      frame_process_incoming_cast(1) [of s] by (simp add: split_def)
  show "wpf (spin_faults G) (uccn_process_incoming_broadcast s)
      (\<lambda>(ret, t). registered t \<and> unpack_safe (spin_faults G) (resources t))"
    using with_resources [of _ _ snd s, OF _ _ u] process_incoming_cast_keeps(2) [OF r u]
      frame_process_incoming_cast(2) [of s] by (simp add: split_def)
  show "wpf (spin_faults G) (uccn_assert_liveliness (Some d) s)
      (\<lambda>(ret, d, t). registered t \<and> unpack_safe (spin_faults G) (resources t))" for d
    using with_resources [of _ _ "\<lambda>x. snd (snd x)" s, OF _ _ u]
      wpf_mono [OF uccn_assert_liveliness_keeps [OF r, of "Some d"], of "spin_faults G" "\<lambda>x. registered (snd (snd x))"]
      frame_assert_liveliness [of "Some d" s] by (auto simp: split_def)
  show "wpf (spin_faults G) (uccn_probe_endpoints (Some n) None (Some d) s)
      (\<lambda>(ret, a, b, d, t). registered t \<and> unpack_safe (spin_faults G) (resources t))" for n d
    by (rule wpf_mono [OF uccn_probe_endpoints_keeps [OF r]]) (use u in auto)
  show "wpf (spin_faults G) (uccn_discover_peers s)
      (\<lambda>(ret, t). registered t \<and> unpack_safe (spin_faults G) (resources t))"
    using with_resources [of _ _ snd s, OF _ _ u]
      wpf_mono [OF uccn_discover_peers_keeps [OF r], of "spin_faults G" "\<lambda>x. registered (snd x)"]
      frame_discover_peers [of s] by (auto simp: split_def)
  show "registered t \<and> unpack_safe (spin_faults G) (resources t)" if "sys_clock s = (ret, c, t)" for ret c t
    using registered_clock [OF r that] u frame_fields(7) [OF frame_clock [OF that]] by simp
  show "registered t \<and> unpack_safe (spin_faults G) (resources t)" if "sys_pselect d s = (a, t)" for d a t
    using that r u by (auto simp: sys_pselect_def Let_def registered_def wf_node_def hash_table_def resource_of_def)
  show "registered (s\<lparr>mutex_locked := b\<rparr>) \<and> unpack_safe (spin_faults G) (resources (s\<lparr>mutex_locked := b\<rparr>))" for b
    using r u by (simp add: registered_buffers)
  show "registered (s\<lparr>stop_pipe := p\<rparr>) \<and> unpack_safe (spin_faults G) (resources (s\<lparr>stop_pipe := p\<rparr>))" for p
    using r u by (simp add: registered_def wf_node_def hash_table_def resource_of_def)
qed simp_all


section \<open>The loop returns\<close>

text \<open>A clock that works and moves on with every reading, and signals that come only so often.\<close>

definition ticking :: "(nat \<Rightarrow> int \<times> timespec) \<Rightarrow> bool" where
  "ticking clock \<longleftrightarrow> (\<forall>i. fst (clock i) = 0 \<and> normal (snd (clock i)) \<and>
     nanos (snd (clock i)) < nanos (snd (clock (Suc i))))"

definition interrupts :: "selected \<Rightarrow> bool" where
  "interrupts a = (case a of Select_Error _ b \<Rightarrow> b | Selected _ _ _ \<Rightarrow> False)"

definition quiet_within :: "nat \<Rightarrow> (nat \<Rightarrow> timespec \<Rightarrow> selected) \<Rightarrow> bool" where
  "quiet_within m select \<longleftrightarrow> (\<forall>i. \<exists>j<m. \<forall>t. \<not> interrupts (select (i + j) t))"

lemma ticking_nanos: "ticking clock \<Longrightarrow> int i \<le> nanos (snd (clock i))"
proof (induction i)
  case 0
  then have "normal (snd (clock 0))" by (simp add: ticking_def)
  then show ?case by (simp add: normal_def nanos_def)
next
  case (Suc i)
  then have "nanos (snd (clock i)) < nanos (snd (clock (Suc i)))" by (simp add: ticking_def)
  then show ?case using Suc by simp
qed

lemma wait_returns:
  assumes "\<exists>j<m. \<forall>t. \<not> interrupts (pselect (sp_node v) (pselect_calls (sp_node v) + j) t)"
  shows "\<exists>w. spin_wait m v = Some w"
  using assms
proof (induction m arbitrary: v)
  case (Suc m)
  obtain ret t s where c: "sys_clock (sp_node v) = (ret, t, s)" by (cases "sys_clock (sp_node v)")
  obtain a u where p: "sys_pselect (timespec_diff (sp_deadline v) t) s = (a, u)" by fastforce
  have s: "pselect s = pselect (sp_node v)" "pselect_calls s = pselect_calls (sp_node v)"
    using frame_fields [OF frame_clock [OF c]] by simp_all
  have u: "a = pselect s (pselect_calls s) (timespec_diff (sp_deadline v) t)" "pselect u = pselect s"
      "pselect_calls u = Suc (pselect_calls s)"
    using p by (auto simp: sys_pselect_def Let_def)
  show ?case
  proof (cases "interrupts a")
    case True
    obtain j where j: "j < Suc m" "\<forall>t. \<not> interrupts (pselect (sp_node v) (pselect_calls (sp_node v) + j) t)"
      using Suc.prems by blast
    then obtain i where i: "j = Suc i" using True u(1) s by (cases j) auto
    have "\<exists>w. spin_wait m w' = Some w" if "sp_node w' = u" for w'
      using j i u s that by (intro Suc.IH exI [of _ i]) auto
    then show ?thesis using True by (cases a) (simp_all add: c p Let_def interrupts_def)
  next
    case False
    then show ?thesis by (cases a) (simp_all add: c p Let_def interrupts_def)
  qed
qed simp

lemma wpf_cbind_env:
  "wpf F m (on_node I) \<Longrightarrow> (\<And>v. I (sp_node v) \<Longrightarrow> wpf F (f v) Q) \<Longrightarrow> (\<And>v. Q (Break v)) \<Longrightarrow> wpf F (cbind m f) Q"
  unfolding wpf_cbind by (erule wpf_conseq) (auto split: ctl.splits)

lemma turn_ticks:
  assumes "spin_turn t v = Inr (Continue w)"
  shows "env (sp_node v) (sp_node w)"
    and "\<exists>c. clock_calls (sp_node v) \<le> c \<and> c < clock_calls (sp_node w) \<and>
      timespec_cmp (snd (clock_gettime (sp_node v) c)) t < 0"
proof -
  let ?s = "sp_node v"
  show "env ?s (sp_node w)" using spin_env.turn [of ?s v t] assms by (simp add: env_def)
  let ?Q = "\<lambda>c. case c of Break _ \<Rightarrow> True | Continue w \<Rightarrow> \<exists>c. clock_calls ?s \<le> c \<and>
      c < clock_calls (sp_node w) \<and> timespec_cmp (snd (clock_gettime ?s c)) t < 0"
  have last: "wpf UNIV (spin_timeout t x) ?Q" if "env ?s (sp_node x)" for x
    using that
    by (auto simp: spin_timeout_def sys_clock_def mutex_unlock_def env_def Let_def not_le c_assert_def
        split: prod.splits intro!: exI [of _ "clock_calls (sp_node x)"])
  have "env ?s (?s\<lparr>mutex_locked := b\<rparr>)" for b by (simp add: env_def)
  then have "wpf UNIV (spin_turn t v) ?Q"
    by (auto simp: spin_turn_def mutex_lock_def intro!: wpf_cbind_env [where I = "env ?s"]
        spin_env.input spin_env.tick spin_env.asserting spin_env.probing spin_env.discovering last)
  then show "\<exists>c. clock_calls ?s \<le> c \<and> c < clock_calls (sp_node w) \<and> timespec_cmp (snd (clock_gettime ?s c)) t < 0"
    using assms by simp
qed

lemma loop_returns:
  assumes "ticking (clock_gettime (sp_node v))" and "quiet_within m (pselect (sp_node v))" and "normal t"
    and "nanos t \<le> int (clock_calls (sp_node v)) + int d"
  shows "\<exists>r. spin_loop t (Suc (d + m)) v = Some r"
  using assms
proof (induction d arbitrary: v rule: nat_less_induct)
  case (1 d)
  show ?case
  proof (cases "\<exists>w. spin_turn t v = Inr (Continue w)")
    case False
    then show ?thesis by (auto split: sum.splits ctl.splits)
  next
    case True
    then obtain w where turn: "spin_turn t v = Inr (Continue w)" by blast
    have w: "env (sp_node v) (sp_node w)" by (rule turn_ticks(1) [OF turn])
    obtain c where c: "clock_calls (sp_node v) \<le> c" "c < clock_calls (sp_node w)"
        "timespec_cmp (snd (clock_gettime (sp_node v) c)) t < 0"
      using turn_ticks(2) [OF turn] by blast
    have "normal (snd (clock_gettime (sp_node v) c))" using 1(2) by (simp add: ticking_def)
    then have "nanos (snd (clock_gettime (sp_node v) c)) < nanos t"
      using c(3) normal_cmp [OF _ 1(4)] by (simp add: sgn_if split: if_splits)
    then have "int c < nanos t" using ticking_nanos [OF 1(2), of c] by simp
    then have d: "0 < d" using c(1) 1(5) by linarith
    have quiet: "\<exists>j<m. \<forall>t. \<not> interrupts (pselect (sp_node w) (pselect_calls (sp_node w) + j) t)"
      using 1(3) w by (simp add: env_def quiet_within_def)
    obtain x where wait: "spin_wait m w = Some x" using wait_returns [OF quiet] by blast
    have more: "spin_wait (d + m) w = Some x" using wait_more_fuel [OF wait] by simp
    have x: "env (sp_node w) (sp_node x)" using spin_env.wait [OF _ wait, of "sp_node w"] by (simp add: env_def)
    have "\<exists>r. spin_loop t (Suc (d - 1 + m)) x = Some r"
    proof (rule 1(1) [rule_format])
      show "d - 1 < d" using d by simp
      show "ticking (clock_gettime (sp_node x))" "quiet_within m (pselect (sp_node x))"
        using 1(2,3) w x by (simp_all add: env_def)
      show "nanos t \<le> int (clock_calls (sp_node x)) + int (d - 1)"
        using 1(5) c(1,2) d x by (simp add: env_def)
    qed (rule 1(4))
    then show ?thesis using d by (simp add: turn more del: spin_wait.simps)
  qed
qed

lemma until_returns:
  assumes "ticking (clock_gettime s)" and "quiet_within m (pselect s)" and "normal t"
  shows "\<exists>r. uccn_spin_until (Suc (nat (nanos t) + m)) active t s = Some r"
proof -
  obtain ret c u where clock: "sys_clock s = (ret, c, u)" by (cases "sys_clock s")
  have u: "clock_gettime u = clock_gettime s" "pselect u = pselect s"
    using frame_fields [OF frame_clock [OF clock]] by simp_all
  have "0 \<le> nanos t" using assms(3) by (simp add: normal_def nanos_def)
  then have "\<exists>r. spin_loop t (Suc (nat (nanos t) + m)) (spin_start active c u) = Some r"
    using assms u by (intro loop_returns) (simp_all add: spin_start_def)
  then show ?thesis by (simp add: uccn_spin_until_def clock Let_def del: spin_loop.simps)
qed

lemma spin_returns:
  assumes "ticking (clock_gettime s)" and "quiet_within m (pselect s)" and "normal t"
  shows "\<exists>r. uccn_spin (Suc (nat (nanos (snd (clock_gettime s (clock_calls s))) + nanos t) + m)) active (Some t) s = Some r"
proof -
  obtain ret c u where clock: "sys_clock s = (ret, c, u)" by (cases "sys_clock s")
  have u: "clock_gettime u = clock_gettime s" "pselect u = pselect s"
    using frame_fields [OF frame_clock [OF clock]] by simp_all
  have c: "ret = 0" "c = snd (clock_gettime s (clock_calls s))" "normal c"
    using clock assms(1) by (auto simp: sys_clock_def ticking_def Let_def split: prod.splits if_splits)
      (metis fst_conv snd_conv)+
  have "\<exists>r. uccn_spin_until (Suc (nat (nanos (timespec_add c t)) + m)) active (timespec_add c t) u = Some r"
    using assms c(3) u by (intro until_returns) (simp_all add: normal_add)
  then show ?thesis using clock c assms(3) by (simp add: uccn_spin_def nanos_add)
qed


end
