(* ===== verification/Spin_Runs.thy ===== *)
theory Spin_Runs
  imports Spin_Inv
begin

text \<open>What stopping, overdue deadlines and timeouts do to a spinning node: a stopped node returns, and what it holds then.\<close>

section \<open>Stopping\<close>

text \<open>
  The mutex over the steps of a turn: held while the turn goes on; a step that leaves the loop
  releases it unless it answers a positive number.
\<close>

definition mutex_kept :: "(nat \<Rightarrow> int \<times> timespec) \<Rightarrow> 'c spin ctl \<Rightarrow> bool" where
  "mutex_kept clock c = (case c of
     Continue v \<Rightarrow> mutex_locked (sp_node v) \<and> clock_gettime (sp_node v) = clock
   | Break v \<Rightarrow> (mutex_locked (sp_node v) \<longleftrightarrow> 0 < sp_ret v) \<and> clock_gettime (sp_node v) = clock)"

lemma mutex_kept_simps [simp]:
  "mutex_kept clock (Continue v) \<longleftrightarrow> mutex_locked (sp_node v) \<and> clock_gettime (sp_node v) = clock"
  "mutex_kept clock (Break v) \<longleftrightarrow> (mutex_locked (sp_node v) \<longleftrightarrow> 0 < sp_ret v) \<and> clock_gettime (sp_node v) = clock"
  by (simp_all add: mutex_kept_def)

lemma mutex_cbind:
  "wpf F m (mutex_kept clock) \<Longrightarrow>
   (\<And>v. mutex_locked (sp_node v) \<Longrightarrow> clock_gettime (sp_node v) = clock \<Longrightarrow> wpf F (f v) (mutex_kept clock)) \<Longrightarrow>
   wpf F (cbind m f) (mutex_kept clock)"
  unfolding wpf_cbind by (erule wpf_conseq) (auto split: ctl.splits)

lemma mutex_op:
  assumes "wpf UNIV m (\<lambda>x. frame s (g x))" and "mutex_locked s" and "clock_gettime s = clock"
  shows "wpf UNIV m (\<lambda>x. mutex_locked (g x) \<and> clock_gettime (g x) = clock)"
  using assms by (auto elim!: wpf_conseq simp: frame_fields)

lemma mutex_unlock_break:
  "ret \<le> 0 \<Longrightarrow> clock_gettime s = clock \<Longrightarrow> wpf UNIV (unlock_break ret s v) (mutex_kept clock)"
  by (simp add: unlock_break_def mutex_unlock_def)

lemma mutex_incoming:
  assumes "\<And>s. wpf UNIV (process s) (\<lambda>x. frame s (snd x))"
    and "mutex_locked (sp_node v)" and "clock_gettime (sp_node v) = clock"
  shows "wpf UNIV (spin_incoming process ready v) (mutex_kept clock)"
  using assms(2,3)
  by (auto simp: spin_incoming_def intro!: wpf_conseq [OF mutex_op [OF assms]] mutex_unlock_break)

lemma mutex_input:
  assumes "mutex_locked (sp_node v)" and "clock_gettime (sp_node v) = clock"
  shows "wpf UNIV (spin_input v) (mutex_kept clock)"
  using assms frame_process_incoming_cast
  by (auto simp: spin_input_def eventfd_clear_def Let_def split_def intro!: mutex_cbind mutex_incoming)

lemma mutex_clock:
  assumes "mutex_locked (sp_node v)" and "clock_gettime (sp_node v) = clock" and "\<And>i. fst (clock i) \<le> 0"
  shows "wpf UNIV (spin_clock v) (mutex_kept clock)"
  using assms(1,2) assms(3) [of "clock_calls (sp_node v)"]
  by (auto simp: spin_clock_def sys_clock_def Let_def split: prod.splits intro!: mutex_unlock_break)

lemma mutex_assert:
  assumes "mutex_locked (sp_node v)" and "clock_gettime (sp_node v) = clock"
  shows "wpf UNIV (spin_assert v) (mutex_kept clock)"
  using assms mutex_op [OF frame_assert_liveliness [unfolded split_def] assms, of "Some (sp_assert v)"]
  by (auto simp: spin_assert_def c_assert_def Let_def intro!: mutex_unlock_break elim!: wpf_conseq)

lemma mutex_probe:
  assumes "mutex_locked (sp_node v)" and "clock_gettime (sp_node v) = clock"
  shows "wpf UNIV (spin_probe v) (mutex_kept clock)"
  using assms mutex_op [OF frame_probe_endpoints [unfolded split_def] assms, of "Some (sp_active v)" None "Some (sp_probe v)"]
  by (auto simp: spin_probe_def c_assert_def Let_def intro!: mutex_unlock_break elim!: wpf_conseq)

lemma mutex_discover:
  assumes "mutex_locked (sp_node v)" and "clock_gettime (sp_node v) = clock"
  shows "wpf UNIV (spin_discover v) (mutex_kept clock)"
  using assms mutex_op [OF frame_discover_peers [unfolded split_def] assms]
  by (auto simp: spin_discover_def c_assert_def Let_def intro!: mutex_cbind mutex_unlock_break elim!: wpf_conseq)

text \<open>The end of a turn releases the mutex before it looks at the clock.\<close>

lemma mutex_turn:
  assumes "\<not> mutex_locked (sp_node v)" and "\<And>i. fst (clock_gettime (sp_node v) i) \<le> 0"
  shows "wpf UNIV (spin_turn t v) (\<lambda>c. case c of
      Continue w \<Rightarrow> \<not> mutex_locked (sp_node w) \<and> clock_gettime (sp_node w) = clock_gettime (sp_node v)
    | Break w \<Rightarrow> mutex_locked (sp_node w) \<longleftrightarrow> 0 < sp_ret w)"
proof -
  let ?clock = "clock_gettime (sp_node v)"
  let ?Q = "\<lambda>c. case c of
      Continue w \<Rightarrow> \<not> mutex_locked (sp_node w) \<and> clock_gettime (sp_node w) = ?clock
    | Break w \<Rightarrow> mutex_locked (sp_node w) \<longleftrightarrow> 0 < sp_ret w"
  have step: "wpf UNIV (cbind m f) ?Q" if "wpf UNIV m (mutex_kept ?clock)"
    and "\<And>w. mutex_locked (sp_node w) \<Longrightarrow> clock_gettime (sp_node w) = ?clock \<Longrightarrow> wpf UNIV (f w) ?Q" for m f
    using that(2) unfolding wpf_cbind by (intro wpf_conseq [OF that(1)]) (auto split: ctl.splits)
  have last: "wpf UNIV (spin_timeout t w) ?Q" if "clock_gettime (sp_node w) = ?clock" for w
    using that assms(2) [of "clock_calls (sp_node w)"]
    by (auto simp: spin_timeout_def sys_clock_def mutex_unlock_def c_assert_def Let_def split: prod.splits)
  show ?thesis
    using assms
    by (auto simp: spin_turn_def mutex_lock_def
        intro!: step mutex_input mutex_clock mutex_assert mutex_probe mutex_discover last)
qed

lemma mutex_wait:
  "spin_wait n v = Some w \<Longrightarrow> mutex_locked (sp_node w) = mutex_locked (sp_node v)"
proof (induction n arbitrary: v)
  case (Suc n)
  obtain ret t s where c: "sys_clock (sp_node v) = (ret, t, s)" by (cases "sys_clock (sp_node v)")
  obtain a u where p: "sys_pselect (timespec_diff (sp_deadline v) t) s = (a, u)" by fastforce
  have "mutex_locked u = mutex_locked s" using p by (auto simp: sys_pselect_def Let_def)
  then show ?case
    using Suc.prems frame_fields(6) [OF frame_clock [OF c]]
    by (auto simp: c p Let_def dest!: Suc.IH split: if_splits selected.splits)
qed simp

text \<open>
  A spin that answers a positive number (the answer of clearing the stop event) returns with the
  node's mutex held; every other spin that returns has released it.
\<close>

theorem spin_stop_holds_mutex:
  assumes "uccn_spin_until fuel active t s = Some (Inr (ret, s'))" and "\<not> mutex_locked s"
    and "\<And>i. fst (clock_gettime s i) \<le> 0"
  shows "mutex_locked s' \<longleftrightarrow> 0 < ret"
proof -
  obtain r c u where clock: "sys_clock s = (r, c, u)" by (cases "sys_clock s")
  have u: "clock_gettime u = clock_gettime s" "mutex_locked u = mutex_locked s"
    using frame_fields [OF frame_clock [OF clock]] by simp_all
  have loop: "mutex_locked s' \<longleftrightarrow> 0 < ret"
    if "spin_loop t n v = Some (Inr (ret, s'))" "\<not> mutex_locked (sp_node v)"
      "clock_gettime (sp_node v) = clock_gettime s" for n v
    using that
  proof (induction n arbitrary: v)
    case (Suc n)
    have turn: "wpf UNIV (spin_turn t v) (\<lambda>c. case c of
        Continue w \<Rightarrow> \<not> mutex_locked (sp_node w) \<and> clock_gettime (sp_node w) = clock_gettime (sp_node v)
      | Break w \<Rightarrow> mutex_locked (sp_node w) \<longleftrightarrow> 0 < sp_ret w)"
      using Suc.prems assms(3) by (intro mutex_turn) simp_all
    show ?case
    proof (cases "spin_turn t v")
      case (Inl e)
      then show ?thesis using Suc.prems by simp
    next
      case (Inr c)
      show ?thesis
      proof (cases c)
        case (Break w)
        then show ?thesis using Suc.prems(1) turn Inr by auto
      next
        case (Continue w)
        then obtain x where x: "spin_wait n w = Some x" using Suc.prems(1) Inr by (auto split: option.splits)
        have "\<not> mutex_locked (sp_node x)" "clock_gettime (sp_node x) = clock_gettime s"
          using turn Inr Continue mutex_wait [OF x] spin_env.wait [OF _ x, of "sp_node w"] Suc.prems(3)
          by (simp_all add: env_def)
        then show ?thesis using Suc.prems(1) Inr Continue x Suc.IH [of x] by (auto split: if_splits)
      qed
    qed
  qed simp
  have "r = 0 \<or> r < 0" using clock assms(3) [of "clock_calls s"]
    by (auto simp: sys_clock_def Let_def split: prod.splits)
  then show ?thesis
    using assms(1,2) u clock loop [of fuel "spin_start active c u"]
    by (auto simp: uccn_spin_until_def Let_def spin_start_def)
qed


section \<open>The first turn\<close>

text \<open>A clock that works and does not go back, as a sequence of times.\<close>

definition steady :: "(nat \<Rightarrow> int \<times> timespec) \<Rightarrow> (nat \<Rightarrow> timespec) \<Rightarrow> bool" where
  "steady clock now \<longleftrightarrow> (\<forall>i. clock i = (0, now i) \<and> normal (now i) \<and> nanos (now i) \<le> nanos (now (Suc i)))"

lemma steady_simps:
  assumes "steady clock now"
  shows "clock i = (0, now i)" "normal (now i)" "timespec_cmp (now (Suc i)) (now i) \<ge> 0"
    "nanos (now i) \<le> nanos (now (Suc i))"
proof -
  show now: "clock i = (0, now i)" "normal (now i)" "nanos (now i) \<le> nanos (now (Suc i))"
    using assms by (simp_all add: steady_def)
  have "normal (now (Suc i))" using assms by (simp add: steady_def)
  then show "timespec_cmp (now (Suc i)) (now i) \<ge> 0" using now by (simp add: normal_cmp sgn_if)
qed

text \<open>Up to its first assertion a spin has only read the clock and taken the mutex.\<close>

definition locked_at :: "nat \<Rightarrow> 'c sys \<Rightarrow> 'c sys" where
  "locked_at n s = s\<lparr>mutex_locked := True, clock_calls := clock_calls s + n\<rparr>"

lemma registered_locked [simp]: "registered (locked_at n s) = registered s"
  by (simp add: locked_at_def registered_def wf_node_def hash_table_def resource_of_def)

lemma first_turn:
  assumes "steady (clock_gettime s) now" and "\<not> mutex_locked s"
  shows "uccn_spin_until (Suc fuel) active t s =
    (case cbind (spin_assert ((spin_start active (now (clock_calls s)) (locked_at 2 s))
        \<lparr>sp_now := now (Suc (clock_calls s))\<rparr>)) (\<lambda>v.
       cbind (spin_probe v) (\<lambda>v. cbind (spin_discover v) (spin_timeout t))) of
      Inl e \<Rightarrow> Some (Inl e)
    | Inr (Break v) \<Rightarrow> Some (Inr (sp_ret v, sp_node v))
    | Inr (Continue v) \<Rightarrow>
        (case spin_wait fuel v of None \<Rightarrow> None
         | Some v \<Rightarrow> if sp_ret v \<ge> 0 then spin_loop t fuel v else Some (Inr (sp_ret v, sp_node v))))"
proof -
  have "sys_clock s = (0, now (clock_calls s), s\<lparr>clock_calls := clock_calls s + 1\<rparr>)"
    using steady_simps(1) [OF assms(1)] by (simp add: sys_clock_def)
  then show ?thesis
    using assms(2) steady_simps(1) [OF assms(1)]
    by (simp add: uccn_spin_until_def spin_turn_def spin_start_def mutex_lock_def spin_input_def spin_clock_def
        sys_clock_def locked_at_def cbind_def)
qed

text \<open>
  C39: A spin that starts when a peer's local deadline is more than a second overdue does not
  return: it aborts at the assertion that the next deadline lies in the future.
\<close>

theorem spin_overdue_aborts:
  assumes "registered s" and "\<not> mutex_locked s" and "delivers (sendto s)" and "steady (clock_gettime s) now"
    and "p \<in> set (take (num_peers s) (peers s))" and "normal (next_local_deadline p)"
    and "\<not> TIMESPEC_ISZERO (next_local_deadline p)"
    and "nanos (next_local_deadline p) + 1000000000 \<le> nanos (now (Suc (clock_calls s)))"
  shows "uccn_spin_until (Suc fuel) active t s = Some (Inl Assert_Failed)"
proof -
  let ?now = "now (Suc (clock_calls s))" and ?t = "now (Suc (Suc (clock_calls s)))"
  note clk = steady_simps [OF assms(4)]
  let ?s = "locked_at 2 s"
  have s: "registered ?s" "delivers (sendto ?s)" using assms(1,3) by (simp, simp add: locked_at_def)
  have read: "clock_gettime ?s (clock_calls ?s) = (0, ?t)" using clk(1) by (simp add: locked_at_def)
  have "nanos ?now \<le> nanos ?t" by (rule clk(4))
  then have "due ?t p" using assms(6,8) clk(2) by (simp add: due_def normal_cmp sgn_if)
  then have r: "next_local_deadline (reasserted ?t p) = timespec_add (next_local_deadline p) g_uccn_liveliness_assert_timeout"
    using assms(7) by (simp add: reasserted_def)
  have p: "p \<in> set (take (num_peers ?s) (peers ?s))" using assms(5) by (simp add: locked_at_def)
  have "timespec_cmp (next_local_deadline (reasserted ?t p)) ?now \<le> 0"
    using assms(6,8) clk(2) unfolding r by (simp add: normal_cmp normal_add nanos_add sgn_if)
  then have "timespec_cmp e ?now \<le> 0"
    if "\<forall>p\<in>set (take (num_peers ?s) (peers ?s)). timespec_cmp e (next_local_deadline (reasserted ?t p)) \<le> 0" for e
    using that p cmp_trans by blast
  then have run: "wpf {} (uccn_assert_liveliness (Some d) ?s) (\<lambda>(ret, d', s'). ret = 0 \<and> (\<exists>e. d' = Some e \<and> timespec_cmp e ?now \<le> 0))" for d
    by (intro wpf_conseq [OF assert_liveliness_run [OF s read refl]]) auto
  have "\<exists>e u. uccn_assert_liveliness (Some d) ?s = Inr (0, Some e, u) \<and> timespec_cmp e ?now \<le> 0" for d
    using run [of d] by (cases "uccn_assert_liveliness (Some d) ?s") auto
  then obtain e u where "uccn_assert_liveliness (Some (now (clock_calls s))) ?s = Inr (0, Some e, u)" "timespec_cmp e ?now \<le> 0"
    by blast
  then show ?thesis
    using clk(3) [of "clock_calls s"]
    by (simp add: first_turn [OF assms(4,2)] spin_assert_def spin_start_def cbind_def c_assert_def)
qed

section \<open>A node without peers\<close>

lemma assert_idle:
  assumes "registered s" and "num_peers s = 0" and "clock_gettime s (clock_calls s) = (0, t)"
  shows "uccn_assert_liveliness (Some d) s = Inr (0, Some (timespec_add t g_uccn_liveliness_assert_timeout),
    s\<lparr>outgoing_buffer := snd (uccn_prepare_keepalive_packet (outgoing_buffer s)), clock_calls := clock_calls s + 1\<rparr>)"
proof -
  obtain ret packet where p: "uccn_prepare_keepalive_packet (outgoing_buffer s) = (ret, packet)" by fastforce
  then show ?thesis
    using keepalive_stored(1) [OF assms(1) p] assms(2,3)
    by (simp add: uccn_assert_liveliness_def sys_clock_def Let_def)
qed

lemma probe_idle:
  assumes "registered s" and "num_peers s = 0" and "num_trackers s = 0" and "clock_gettime s (clock_calls s) = (0, t)"
  shows "\<exists>ts prs ps. uccn_probe_endpoints (Some a) None (Some d) s = Inr (0, Some 0, None,
    Some (timespec_add t g_uccn_endpoint_probe_timeout),
    s\<lparr>clock_calls := clock_calls s + 1, trackers := ts, providers := prs, peers := ps\<rparr>)"
proof -
  have none: "survivors t s = []" using assms(2) by (simp add: survivors_def)
  obtain ts prs ps where "uccn_probe_endpoints (Some a) None (Some d) s = Inr (0, Some 0, None,
      Some (timespec_add t g_uccn_endpoint_probe_timeout),
      s\<lparr>clock_calls := clock_calls s + 1, trackers := ts, providers := prs, peers := ps, num_peers := 0\<rparr>)"
    using probe_run [OF assms(1,4), of "Some a" None "Some d"] assms(3) by (auto simp: none)
  moreover have "s\<lparr>clock_calls := clock_calls s + 1, trackers := ts, providers := prs, peers := ps, num_peers := 0\<rparr> =
      s\<lparr>clock_calls := clock_calls s + 1, trackers := ts, providers := prs, peers := ps\<rparr>"
    using assms(2) by simp
  ultimately show ?thesis by metis
qed


lemma pending_raise: "pipe_pending p \<le> pipe_pending (raise_stops n p)"
proof (induction n)
  case (Suc n)
  then show ?case by (auto simp: raise_stops_def eventfd_set_def)
qed (simp add: raise_stops_def)

lemma sooner_normal: "normal t \<or> tv_sec t < 0 \<Longrightarrow> normal u \<Longrightarrow> normal (sooner t u)"
  by (auto simp: sooner_def timespec_cmp_def normal_def)

text \<open>
  The first turn of a node that has neither peers nor trackers: keepalives, probe and discovery
  have nothing to do but to set the next deadlines. The node has read the clock \<open>n\<close> times by then.
\<close>

definition idle_at :: "'c sys \<Rightarrow> nat \<Rightarrow> 'c sys \<Rightarrow> bool" where
  "idle_at s n t \<longleftrightarrow> registered t \<and> mutex_locked t \<and> num_peers t = 0 \<and> num_trackers t = 0 \<and>
     clock_gettime t = clock_gettime s \<and> clock_calls t = clock_calls s + n \<and> pselect t = pselect s \<and> stop_pipe t = stop_pipe s"

lemma idle_locked: "registered s \<Longrightarrow> num_peers s = 0 \<Longrightarrow> num_trackers s = 0 \<Longrightarrow> idle_at s n (locked_at n s)"
  by (simp add: idle_at_def) (simp add: locked_at_def)

lemma idle_assert:
  assumes "idle_at s n (sp_node v)" and "steady (clock_gettime s) now"
    and "timespec_cmp (sp_now v) (sp_assert v) \<ge> 0" and "normal (sp_now v)"
    and "nanos (sp_now v) \<le> nanos (now (clock_calls s + n))"
  shows "\<exists>t. idle_at s (Suc n) t \<and> spin_assert v = Inr (Continue (v\<lparr>sp_ret := 0,
    sp_assert := timespec_add (now (clock_calls s + n)) g_uccn_liveliness_assert_timeout, sp_node := t\<rparr>))"
proof -
  note clk = steady_simps [OF assms(2)]
  let ?packet = "snd (uccn_prepare_keepalive_packet (outgoing_buffer (sp_node v)))"
  let ?t = "(sp_node v)\<lparr>outgoing_buffer := ?packet, clock_calls := clock_calls (sp_node v) + 1\<rparr>"
  have r: "registered (sp_node v)" using assms(1) by (simp add: idle_at_def)
  have "wf_buffer CONFIG_UCCN_OUTGOING_BUFFER_SIZE ?packet" using keepalive_stored(3) [OF r] by (metis prod.collapse)
  then have "idle_at s (Suc n) ?t" using assms(1) by (simp add: idle_at_def registered_buffers)
  moreover have "uccn_assert_liveliness (Some (sp_assert v)) (sp_node v) =
      Inr (0, Some (timespec_add (now (clock_calls s + n)) g_uccn_liveliness_assert_timeout), ?t)"
    using assms(1) clk(1) by (intro assert_idle [OF r]) (simp_all add: idle_at_def)
  ultimately show ?thesis
    using assms(3-5) clk(2) [of "clock_calls s + n"]
    by (intro exI [of _ ?t]) (simp add: spin_assert_def normal_cmp normal_add nanos_add sgn_if)
qed

lemma idle_probe:
  assumes "idle_at s n (sp_node v)" and "steady (clock_gettime s) now"
    and "timespec_cmp (sp_now v) (sp_probe v) \<ge> 0" and "normal (sp_now v)"
    and "nanos (sp_now v) \<le> nanos (now (clock_calls s + n))"
  shows "\<exists>t. idle_at s (Suc n) t \<and> spin_probe v = Inr (Continue (v\<lparr>sp_ret := 0, sp_active := 0,
    sp_probe := timespec_add (now (clock_calls s + n)) g_uccn_endpoint_probe_timeout, sp_node := t\<rparr>))"
proof -
  note clk = steady_simps [OF assms(2)]
  have v: "registered (sp_node v)" "num_peers (sp_node v) = 0" "num_trackers (sp_node v) = 0"
      "clock_gettime (sp_node v) (clock_calls (sp_node v)) = (0, now (clock_calls s + n))"
    using assms(1) clk(1) by (simp_all add: idle_at_def)
  obtain ts prs ps where probe: "uccn_probe_endpoints (Some (sp_active v)) None (Some (sp_probe v)) (sp_node v) =
      Inr (0, Some 0, None, Some (timespec_add (now (clock_calls s + n)) g_uccn_endpoint_probe_timeout),
      (sp_node v)\<lparr>clock_calls := clock_calls (sp_node v) + 1, trackers := ts, providers := prs, peers := ps\<rparr>)"
    using probe_idle [OF v, of "sp_active v" "sp_probe v"] by blast
  let ?t = "(sp_node v)\<lparr>clock_calls := clock_calls (sp_node v) + 1, trackers := ts, providers := prs, peers := ps\<rparr>"
  have "registered ?t" using uccn_probe_endpoints_keeps [OF v(1), of "Some (sp_active v)" None "Some (sp_probe v)"] by (simp add: probe)
  then have "idle_at s (Suc n) ?t" using assms(1) by (simp add: idle_at_def)
  then show ?thesis
    using probe assms(3-5) clk(2) [of "clock_calls s + n"]
    by (intro exI [of _ ?t]) (simp add: spin_probe_def normal_cmp normal_add nanos_add sgn_if)
qed

lemma idle_turn:
  assumes "registered s" and "\<not> mutex_locked s" and "num_peers s = 0" and "num_trackers s = 0"
    and "steady (clock_gettime s) now" and "normal t \<or> tv_sec t < 0"
    and "timespec_cmp (now (clock_calls s + 4)) t < 0"
    and "nanos (now (clock_calls s + 4)) < nanos (now (clock_calls s)) + 500000000"
  shows "\<exists>v. uccn_spin_until (Suc fuel) active t s =
      (case spin_wait fuel v of None \<Rightarrow> None
       | Some v \<Rightarrow> if sp_ret v \<ge> 0 then spin_loop t fuel v else Some (Inr (sp_ret v, sp_node v))) \<and>
    clock_gettime (sp_node v) = clock_gettime s \<and> pselect (sp_node v) = pselect s \<and>
    stop_pipe (sp_node v) = stop_pipe s \<and> \<not> mutex_locked (sp_node v)"
proof -
  let ?c = "clock_calls s"
  note clk = steady_simps [OF assms(5)]
  have mono: "nanos (now ?c) \<le> nanos (now (Suc ?c))" "nanos (now (Suc ?c)) \<le> nanos (now (?c + 2))"
      "nanos (now (?c + 2)) \<le> nanos (now (?c + 3))" "nanos (now (?c + 3)) \<le> nanos (now (?c + 4))"
    using clk(4) [of ?c] clk(4) [of "Suc ?c"] clk(4) [of "Suc (Suc ?c)"] clk(4) [of "Suc (Suc (Suc ?c))"]
    by (simp_all add: numeral_eq_Suc)
  define v where "v = (spin_start active (now ?c) (locked_at 2 s))\<lparr>sp_now := now (Suc ?c)\<rparr>"
  have v: "sp_now v = now (Suc ?c)" "sp_assert v = now ?c" "sp_probe v = now ?c" "sp_discovery v = now ?c" "sp_node v = locked_at 2 s"
    by (simp_all add: v_def spin_start_def)
  have due: "timespec_cmp (now (Suc ?c)) (now ?c) \<ge> 0" by (rule clk(3))
  obtain s1 where s1: "idle_at s 3 s1" and assert: "spin_assert v = Inr (Continue (v\<lparr>sp_ret := 0,
      sp_assert := timespec_add (now (?c + 2)) g_uccn_liveliness_assert_timeout, sp_node := s1\<rparr>))"
    using idle_assert [of s 2 v now] idle_locked [OF assms(1,3,4), of 2] assms(5) due clk(2) mono by (auto simp: v numeral_3_eq_3)
  define v1 where "v1 = v\<lparr>sp_ret := 0, sp_assert := timespec_add (now (?c + 2)) g_uccn_liveliness_assert_timeout, sp_node := s1\<rparr>"
  obtain s2 where s2: "idle_at s 4 s2" and probe: "spin_probe v1 = Inr (Continue (v1\<lparr>sp_ret := 0, sp_active := 0,
      sp_probe := timespec_add (now (?c + 3)) g_uccn_endpoint_probe_timeout, sp_node := s2\<rparr>))"
    using idle_probe [of s 3 v1 now] s1 assms(5) due clk(2) mono by (auto simp: v1_def v eval_nat_numeral)
  define v2 where "v2 = v1\<lparr>sp_ret := 0, sp_active := 0,
      sp_probe := timespec_add (now (?c + 3)) g_uccn_endpoint_probe_timeout, sp_node := s2\<rparr>"
  define v3 where "v3 = v2\<lparr>sp_discovery := timespec_add (now ?c) g_uccn_peer_discovery_period\<rparr>"
  have discovered: "spin_discover v2 = Inr (Continue v3)"
    using clk(2) due mono assms(8) s2
    by (simp add: spin_discover_def v2_def v1_def v v3_def idle_at_def cbind_def normal_cmp normal_add nanos_add sgn_if)
  have v3: "sp_ret v3 = 0" "sp_node v3 = s2" "sp_assert v3 = timespec_add (now (?c + 2)) g_uccn_liveliness_assert_timeout"
    "sp_probe v3 = timespec_add (now (?c + 3)) g_uccn_endpoint_probe_timeout"
    "sp_discovery v3 = timespec_add (now ?c) g_uccn_peer_discovery_period"
    by (simp_all add: v3_def v2_def v1_def)
  let ?d = "sooner (sooner (sooner t (sp_assert v3)) (sp_probe v3)) (sp_discovery v3)"
  let ?w = "v3\<lparr>sp_ret := 0, sp_now := now (?c + 4), sp_node := (mutex_unlock s2)\<lparr>clock_calls := ?c + 4 + 1\<rparr>, sp_deadline := ?d\<rparr>"
  have "normal ?d" using clk(2) assms(6) by (simp add: v3 normal_add sooner_normal)
  then have "TIMESPEC_ISFINITE ?d" by (simp add: normal_def TIMESPEC_ISFINITE_def)
  then have last: "spin_timeout t v3 = Inr (Continue ?w)"
    using clk(1) s2 assms(7) by (simp add: spin_timeout_def v3(2) mutex_unlock_def sys_clock_def c_assert_def idle_at_def)
  have "cbind (spin_assert v) (\<lambda>v. cbind (spin_probe v) (\<lambda>v. cbind (spin_discover v) (spin_timeout t))) = Inr (Continue ?w)"
    using assert probe discovered last by (simp add: cbind_def v1_def v2_def)
  then show ?thesis
    unfolding first_turn [OF assms(5,2)] v_def [symmetric] using s2
    by (intro exI [of _ ?w]) (simp add: mutex_unlock_def idle_at_def)
qed

section \<open>A stopped node\<close>

lemma registered_stop [simp]: "registered (snd (uccn_stop s)) = registered s"
  by (simp add: uccn_stop_def split_def Let_def registered_def wf_node_def hash_table_def resource_of_def)

lemma stop_fields:
  "mutex_locked (snd (uccn_stop s)) = mutex_locked s" "num_peers (snd (uccn_stop s)) = num_peers s"
  "num_trackers (snd (uccn_stop s)) = num_trackers s" "clock_gettime (snd (uccn_stop s)) = clock_gettime s"
  "clock_calls (snd (uccn_stop s)) = clock_calls s" "pselect (snd (uccn_stop s)) = pselect s"
  by (simp_all add: uccn_stop_def split_def Let_def)

lemma stop_pending:
  "0 < pipe_capacity (stop_pipe s) \<Longrightarrow> pipe_pending (stop_pipe s) \<le> pipe_capacity (stop_pipe s) \<Longrightarrow>
   0 < pipe_pending (stop_pipe (snd (uccn_stop s)))"
  by (auto simp: uccn_stop_def eventfd_set_def Let_def)

text \<open>A wait that a pending stop event ends, and the turn after it.\<close>

lemma stopped_wait:
  assumes "steady (clock_gettime (sp_node v)) now" and "0 < pipe_pending (stop_pipe (sp_node v))"
    and "\<And>k d. \<exists>n u b. pselect (sp_node v) k d = Selected n u b" and "\<not> mutex_locked (sp_node v)"
  shows "\<exists>w. spin_wait (Suc n) v = Some w \<and> sp_stop w \<and> 0 < sp_nret w \<and> 0 \<le> sp_ret w \<and> \<not> mutex_locked (sp_node w) \<and>
    0 < pipe_pending (stop_pipe (sp_node w)) \<and> clock_gettime (sp_node w) = clock_gettime (sp_node v)"
proof -
  let ?c = "clock_calls (sp_node v)" and ?k = "pselect_calls (sp_node v)"
  obtain i u b where "pselect (sp_node v) ?k (timespec_diff (sp_deadline v) (now ?c)) = Selected i u b"
    using assms(3) by blast
  moreover have "0 < pipe_pending (raise_stops i (stop_pipe (sp_node v)))"
    using assms(2) pending_raise by (rule less_le_trans)
  ultimately show ?thesis
    using assms(4) steady_simps(1) [OF assms(1)]
    by (simp add: sys_clock_def sys_pselect_def readable_def)
qed

lemma stopped_turn:
  assumes "sp_stop v" and "0 < sp_nret v" and "\<not> mutex_locked (sp_node v)" and "0 < pipe_pending (stop_pipe (sp_node v))"
  shows "\<exists>s'. spin_loop t (Suc n) v = Some (Inr (1, s')) \<and> mutex_locked s' \<and> clock_gettime s' = clock_gettime (sp_node v)"
  using assms by (simp add: spin_turn_def mutex_lock_def spin_input_def eventfd_clear_def cbind_def)

lemma locked_spin:
  assumes "mutex_locked s" and "fst (clock_gettime s (clock_calls s)) = 0"
  shows "uccn_spin_until (Suc m) active t s = Some (Inl Deadlock)"
  using assms
  by (cases "clock_gettime s (clock_calls s)")
    (simp add: uccn_spin_until_def sys_clock_def spin_start_def spin_turn_def mutex_lock_def)

lemma stop_run:
  assumes "registered s" and "\<not> mutex_locked s" and "num_peers s = 0" and "num_trackers s = 0"
    and "0 < pipe_capacity (stop_pipe s)" and "pipe_pending (stop_pipe s) \<le> pipe_capacity (stop_pipe s)"
    and "steady (clock_gettime s) now" and "normal t \<or> tv_sec t < 0"
    and "timespec_cmp (now (clock_calls s + 4)) t < 0"
    and "nanos (now (clock_calls s + 4)) < nanos (now (clock_calls s)) + 500000000"
    and "\<And>k d. \<exists>n u b. pselect s k d = Selected n u b"
  shows "\<exists>s'. uccn_spin_until (Suc (Suc n)) active t (snd (uccn_stop s)) = Some (Inr (1, s')) \<and>
    mutex_locked s' \<and> clock_gettime s' = clock_gettime s"
proof -
  let ?s = "snd (uccn_stop s)"
  have "\<exists>v. uccn_spin_until (Suc (Suc n)) active t ?s =
      (case spin_wait (Suc n) v of None \<Rightarrow> None
       | Some v \<Rightarrow> if sp_ret v \<ge> 0 then spin_loop t (Suc n) v else Some (Inr (sp_ret v, sp_node v))) \<and>
    clock_gettime (sp_node v) = clock_gettime ?s \<and> pselect (sp_node v) = pselect ?s \<and>
    stop_pipe (sp_node v) = stop_pipe ?s \<and> \<not> mutex_locked (sp_node v)"
    by (rule idle_turn [of ?s now]) (simp_all add: stop_fields assms)
  then obtain v where v: "uccn_spin_until (Suc (Suc n)) active t ?s =
      (case spin_wait (Suc n) v of None \<Rightarrow> None
       | Some v \<Rightarrow> if sp_ret v \<ge> 0 then spin_loop t (Suc n) v else Some (Inr (sp_ret v, sp_node v)))"
    "clock_gettime (sp_node v) = clock_gettime s" "pselect (sp_node v) = pselect s"
    "stop_pipe (sp_node v) = stop_pipe ?s" "\<not> mutex_locked (sp_node v)"
    by (auto simp: stop_fields)
  obtain w where w: "spin_wait (Suc n) v = Some w" "sp_stop w" "0 < sp_nret w" "0 \<le> sp_ret w"
    "\<not> mutex_locked (sp_node w)" "0 < pipe_pending (stop_pipe (sp_node w))" "clock_gettime (sp_node w) = clock_gettime s"
    using stopped_wait [of v now n] v assms(7,11) stop_pending [OF assms(5,6)] by auto
  obtain s' where "spin_loop t (Suc n) w = Some (Inr (1, s'))" "mutex_locked s'" "clock_gettime s' = clock_gettime s"
    using stopped_turn [OF w(2,3,5,6)] w(7) by auto
  then show ?thesis using v(1) w(1,4) by simp
qed

text \<open>Whatever else a node does, it sees a stop event that is pending when it starts to spin.\<close>

definition stop_waits :: "'c sys \<Rightarrow> 'c sys \<Rightarrow> bool" where
  "stop_waits s t \<longleftrightarrow> stop_pipe t = stop_pipe s \<and> clock_gettime t = clock_gettime s \<and> pselect t = pselect s"

lemma stop_waits_frame: "stop_waits s t \<Longrightarrow> frame t u \<Longrightarrow> stop_waits s u"
  by (simp add: stop_waits_def frame_fields)

lemma stop_waits_op: "stop_waits s t \<Longrightarrow> wpf UNIV m (\<lambda>x. frame t (get x)) \<Longrightarrow> wpf UNIV m (\<lambda>x. stop_waits s (get x))"
  by (erule wpf_conseq) (rule stop_waits_frame)

interpretation stop_steps: spin_steps "stop_waits s" UNIV for s
proof unfold_locales
  fix t assume t: "stop_waits s t"
  show "wpf UNIV (uccn_assert_liveliness (Some d) t) (\<lambda>(ret, d, u). stop_waits s u)" for d
    using stop_waits_op [OF t frame_assert_liveliness [unfolded split_def]] by (simp add: split_def)
  show "wpf UNIV (uccn_probe_endpoints (Some n) None (Some d) t) (\<lambda>(ret, a, b, d, u). stop_waits s u)" for n d
    using stop_waits_op [OF t frame_probe_endpoints [unfolded split_def]] by (simp add: split_def)
  show "wpf UNIV (uccn_discover_peers t) (\<lambda>(ret, u). stop_waits s u)"
    using stop_waits_op [OF t frame_discover_peers [unfolded split_def]] by (simp add: split_def)
  show "stop_waits s u" if "sys_clock t = (ret, c, u)" for ret c u
    using stop_waits_frame [OF t frame_clock [OF that]] .
qed (simp_all add: stop_waits_def)

lemma first_input:
  assumes "sp_nret v = 0" and "spin_turn t v = Inr (Continue w)"
  shows "stop_waits (sp_node v) (sp_node w)"
proof -
  let ?v = "v\<lparr>sp_ret := 0, sp_node := (sp_node v)\<lparr>mutex_locked := True\<rparr>\<rparr>"
  have skip: "cbind (Inr (Continue x)) f = f x" for x :: "'a spin" and f by (simp add: cbind_def)
  have "cbind (spin_clock ?v) (\<lambda>v. cbind (spin_assert v) (\<lambda>v. cbind (spin_probe v)
      (\<lambda>v. cbind (spin_discover v) (spin_timeout t)))) = Inr (Continue w)"
    using assms by (simp add: spin_turn_def spin_input_def mutex_lock_def skip split: if_splits)
  moreover have "stop_waits (sp_node v) (sp_node ?v)" by (simp add: stop_waits_def)
  ultimately show ?thesis using wpf_InrD [OF stop_steps.rest [of "sp_node v" ?v t]] by fastforce
qed

lemma seen_stop:
  assumes "spin_wait m v = Some w" and "0 < pipe_pending (stop_pipe (sp_node v))"
    and "\<And>i. fst (clock_gettime (sp_node v) i) \<le> 0"
  shows "sp_ret w < 0 \<or> sp_stop w \<and> 0 < sp_nret w"
  using assms
proof (induction m arbitrary: v)
  case (Suc m)
  obtain ret c s where clock: "sys_clock (sp_node v) = (ret, c, s)" by (cases "sys_clock (sp_node v)")
  obtain a u where select: "sys_pselect (timespec_diff (sp_deadline v) c) s = (a, u)" by fastforce
  have ret: "ret \<le> 0" using clock Suc.prems(3) [of "clock_calls (sp_node v)"]
    by (auto simp: sys_clock_def Let_def split: prod.splits)
  have s: "stop_pipe s = stop_pipe (sp_node v)" "clock_gettime s = clock_gettime (sp_node v)"
    using frame_fields [OF frame_clock [OF clock]] by simp_all
  have "pipe_pending (stop_pipe s) \<le> pipe_pending (stop_pipe u)" and u: "clock_gettime u = clock_gettime s"
    using select pending_raise by (auto simp: sys_pselect_def Let_def)
  then have pending: "0 < pipe_pending (stop_pipe u)" using Suc.prems(2) s(1) by simp
  have "\<And>i. fst (clock_gettime u i) \<le> 0" using Suc.prems(3) u s(2) by simp
  then show ?case
    using Suc.prems(1) ret pending
    by (auto simp: clock select Let_def readable_def split: if_splits selected.splits dest!: Suc.IH)
qed simp

lemma stopped_loop_returns:
  assumes "sp_nret v = 0" and "0 < pipe_pending (stop_pipe (sp_node v))"
    and "\<And>i. fst (clock_gettime (sp_node v) i) \<le> 0" and "quiet_within m (pselect (sp_node v))"
  shows "\<exists>r. spin_loop t (Suc (Suc m)) v = Some r"
proof (cases "\<exists>w. spin_turn t v = Inr (Continue w)")
  case False
  then show ?thesis by (auto split: sum.splits ctl.splits)
next
  case True
  then obtain w where turn: "spin_turn t v = Inr (Continue w)" by blast
  have w: "stop_waits (sp_node v) (sp_node w)" by (rule first_input [OF assms(1) turn])
  have "\<exists>j<m. \<forall>t. \<not> interrupts (pselect (sp_node w) (pselect_calls (sp_node w) + j) t)"
    using assms(4) w by (simp add: stop_waits_def quiet_within_def)
  then obtain x where x: "spin_wait m w = Some x" using wait_returns by blast
  have more: "spin_wait (Suc m) w = Some x" by (rule wait_more_fuel [OF x]) simp
  have "sp_ret x < 0 \<or> sp_stop x \<and> 0 < sp_nret x"
    using seen_stop [OF x] w assms(2,3) by (simp add: stop_waits_def)
  moreover have "\<exists>r. spin_loop t (Suc m) x = Some r" if "sp_stop x" "0 < sp_nret x"
    using that by (cases "mutex_locked (sp_node x)")
      (auto simp: spin_turn_def mutex_lock_def spin_input_def eventfd_clear_def cbind_def Let_def)
  ultimately show ?thesis using turn more by (auto simp del: spin_wait.simps simp: not_le)
qed

lemma stopped_until_returns:
  assumes "0 < pipe_pending (stop_pipe s)" and "\<And>i. fst (clock_gettime s i) \<le> 0" and "quiet_within m (pselect s)"
  shows "\<exists>r. uccn_spin_until (Suc (Suc m)) active t s = Some r"
proof -
  obtain ret c u where clock: "sys_clock s = (ret, c, u)" by (cases "sys_clock s")
  have "stop_pipe u = stop_pipe s" "clock_gettime u = clock_gettime s" "pselect u = pselect s"
    using frame_fields [OF frame_clock [OF clock]] by simp_all
  then have "\<exists>r. spin_loop t (Suc (Suc m)) (spin_start active c u) = Some r"
    using assms by (intro stopped_loop_returns) (simp_all add: spin_start_def)
  then show ?thesis by (simp add: uccn_spin_until_def clock Let_def del: spin_loop.simps)
qed

lemma stopped_spin_returns:
  assumes "0 < pipe_pending (stop_pipe s)" and "\<And>i. fst (clock_gettime s i) \<le> 0" and "quiet_within m (pselect s)"
  shows "\<exists>r. uccn_spin (Suc (Suc m)) active timeout s = Some r"
proof -
  obtain ret c u where clock: "sys_clock s = (ret, c, u)" by (cases "sys_clock s")
  have u: "stop_pipe u = stop_pipe s" "clock_gettime u = clock_gettime s" "pselect u = pselect s"
    using frame_fields [OF frame_clock [OF clock]] by simp_all
  show ?thesis
    using stopped_until_returns [OF assms, of active TIMESPEC_INF] stopped_until_returns [of u m active "timespec_add c d" for d] u assms
    by (cases timeout) (auto simp: uccn_spin_def clock)
qed


text \<open>
  A node that was stopped cannot be spun again: the spin that sees the stop event answers 1 and
  returns with the mutex held, and every later spin waits for that mutex for ever.
\<close>

theorem stop_then_deadlock:
  assumes "registered s" and "\<not> mutex_locked s" and "num_peers s = 0" and "num_trackers s = 0"
    and "0 < pipe_capacity (stop_pipe s)" and "pipe_pending (stop_pipe s) \<le> pipe_capacity (stop_pipe s)"
    and "steady (clock_gettime s) now" and "normal t"
    and "nanos (now (clock_calls s + 4)) < nanos t"
    and "nanos (now (clock_calls s + 4)) < nanos (now (clock_calls s)) + 500000000"
    and "\<And>k d. \<exists>n u b. pselect s k d = Selected n u b"
  shows "\<exists>s'. uccn_spin_until (Suc (Suc n)) active t (snd (uccn_stop s)) = Some (Inr (1, s')) \<and>
    (\<forall>m active t. uccn_spin_until (Suc m) active t s' = Some (Inl Deadlock))"
proof -
  have "timespec_cmp (now (clock_calls s + 4)) t < 0"
    using steady_simps(2) [OF assms(7)] assms(8,9) by (simp add: normal_cmp sgn_if)
  then obtain s' where s': "uccn_spin_until (Suc (Suc n)) active t (snd (uccn_stop s)) = Some (Inr (1, s'))"
      "mutex_locked s'" "clock_gettime s' = clock_gettime s"
    using stop_run [OF assms(1-7) disjI1 [OF assms(8)] _ assms(10,11)] by blast
  then have "uccn_spin_until (Suc m) active t s' = Some (Inl Deadlock)" for m active t
    using steady_simps(1) [OF assms(7)] by (intro locked_spin) simp_all
  then show ?thesis using s'(1) by blast
qed

end
