(* ===== verification/Spin_Demo.thy ===== *)
theory Spin_Demo
  imports Applications Spin_Runs
begin

text \<open>The theorems on spinning, at concrete nodes.\<close>

definition demo_idle :: "buffer sys" where
  "demo_idle = demo_node [] [] []"

lemma registered_idle [simp]: "registered demo_idle"
  by (auto simp: demo_idle_def intro!: demo_registered)

lemma demo_idle_fields [simp]:
  "num_peers demo_idle = 0" "num_trackers demo_idle = 0" "\<not> mutex_locked demo_idle"
  "stop_pipe demo_idle = \<lparr>pipe_pending = 0, pipe_capacity = 65536\<rparr>"
  "clock_gettime demo_idle = (\<lambda>_. (0, at 10))" "pselect demo_idle = (\<lambda>_ _. Selected 0 False False)"
  by (simp_all add: demo_idle_def demo_node_def)

lemma steady_at [simp]: "steady (\<lambda>_. (0, at 10)) (\<lambda>_. at 10)"
  by (simp add: steady_def)

lemma unpack_safe_demo [simp]: "unpack_safe F demo_resource"
  by (simp add: unpack_safe_def)

lemma some_bool [simp]: "Ex Not"
  by blast

lemma demo_stop_run:
  "\<exists>s'. uccn_spin_until 2 0 (at 20) (snd (uccn_stop demo_idle)) = Some (Inr (1, s')) \<and> mutex_locked s' \<and>
    clock_gettime s' = (\<lambda>_. (0, at 10))"
  using stop_run [of demo_idle "\<lambda>_. at 10" "at 20" 0 0] by (simp add: numeral_2_eq_2)

lemma registered_stopped: "registered (snd (uccn_stop demo_idle))"
  by simp

lemma stopped_resources: "resources (snd (uccn_stop demo_idle)) = demo_resource"
  by (simp add: uccn_stop_def split_def Let_def demo_idle_def)


theorem spin_stop_holds_mutex_witness:
  "\<exists>s'. uccn_spin_until 2 0 (at 20) (snd (uccn_stop demo_idle)) = Some (Inr (1, s')) \<and> mutex_locked s'"
proof -
  obtain s' where s': "uccn_spin_until 2 0 (at 20) (snd (uccn_stop demo_idle)) = Some (Inr (1, s'))"
    using demo_stop_run by blast
  then show ?thesis using spin_stop_holds_mutex [OF s'] by (simp add: stop_fields)
qed

theorem stop_then_deadlock_witness:
  "\<exists>s'. uccn_spin_until (Suc (Suc 0)) 0 (at 20) (snd (uccn_stop demo_idle)) = Some (Inr (1, s')) \<and>
    (\<forall>m active t. uccn_spin_until (Suc m) active t s' = Some (Inl Deadlock))"
  by (rule stop_then_deadlock [of demo_idle "\<lambda>_. at 10"]) simp_all


theorem spin_overdue_aborts_witness:
  "uccn_spin_until (Suc 0) 0 (at 20) demo_a = Some (Inl Assert_Failed)"
  by (rule spin_overdue_aborts [of demo_a "\<lambda>_. at 10" "demo_peer 1 9 5 1"])
    (simp_all add: demo_node_eqs)

text \<open>A turn at ten seconds, with keepalives due at 11, a probe at 13 and discovery at 12 seconds.\<close>

theorem spin_waits_for_earliest_witness:
  "\<exists>w. spin_timeout (at 20) ((spin_start 0 (at 10) demo_idle)\<lparr>sp_assert := at 11, sp_probe := at 13, sp_discovery := at 12\<rparr>) =
      Inr (Continue w) \<and> sp_deadline w \<le> at 11 \<and> sp_now w < at 20"
proof -
  let ?v = "(spin_start 0 (at 10) demo_idle)\<lparr>sp_assert := at 11, sp_probe := at 13, sp_discovery := at 12\<rparr>"
  obtain w where run: "spin_timeout (at 20) ?v = Inr (Continue w)"
    by (simp add: spin_timeout_def spin_start_def sys_clock_def mutex_unlock_def sooner_def c_assert_def
        TIMESPEC_ISFINITE_def at_def timespec_cmp_def Let_def)
  have "sp_assert ?v = at 11" by simp
  then show ?thesis using spin_waits_for_earliest [OF run] run by (intro exI [of _ w]) simp
qed


end
