(* ===== verification/Harmless.thy ===== *)
theory Harmless
  imports Liveliness
begin

text \<open>
  The packets that nodes send to each other, and what they can do to a node that receives them:
  unlike arbitrary bytes they never overflow the local arrays of \<open>uccn_process_link_group\<close>, and the
  answers to them are such packets again.
\<close>

section \<open>The packets of the protocol\<close>

text \<open>
  A keepalive, a link packet with one array of hashes, or bytes that start like a content packet as
  far as they go: a post that fails leaves a part of a packet in the outgoing buffer.
\<close>

definition content_head :: bytes where
  "content_head = [0x81, 0xcc, 0xa5]"

definition content_like :: "bytes \<Rightarrow> bool" where
  "content_like bs \<longleftrightarrow> take 3 bs = take (length bs) content_head"

definition harmless :: "bytes \<Rightarrow> bool" where
  "harmless bs \<longleftrightarrow> bs = [0xc0] \<or> content_like bs \<or>
     (\<exists>name code hs. length name < 64 \<and> 0 \<notin> set name \<and> length hs \<le> 10 \<and> bs = link_packet name code hs)"

lemma harmless_simps [simp]: "harmless []" "harmless [0xc0]"
  by (simp_all add: harmless_def content_like_def)

lemma harmless_link: "length name < 64 \<Longrightarrow> 0 \<notin> set name \<Longrightarrow> length hs \<le> 10 \<Longrightarrow> harmless (link_packet name code hs)"
  unfolding harmless_def by blast

lemma content_like_take: "content_like bs \<Longrightarrow> content_like (take n bs)"
  by (simp add: content_like_def min_def take_take [symmetric] del: take_take)
    (metis content_like_def min.commute min_def take_take)

lemma harmless_take: "harmless bs \<Longrightarrow> harmless (take 512 bs)"
proof -
  assume "harmless bs"
  moreover have "length bs \<le> 512" if "length name < 64" "length hs \<le> 10" "bs = link_packet name code hs" for name code hs
    using length_link_packet [OF that(1,2), of code] that(3) by simp
  ultimately consider "content_like bs" | "length bs \<le> 512"
    by (auto simp: harmless_def)
  then show "harmless (take 512 bs)"
  proof cases
    case 1
    then have "content_like (take 512 bs)" by (rule content_like_take)
    then show ?thesis by (simp add: harmless_def)
  next
    case 2
    then show ?thesis using \<open>harmless bs\<close> by simp
  qed
qed

lemma content_like_cases:
  assumes "content_like bs"
  obtains "bs = []" | "bs = [0x81]" | "bs = [0x81, 0xcc]" | rest where "bs = 0x81 # 0xcc # 0xa5 # rest"
proof -
  consider "bs = []" | a where "bs = [a]" | a b where "bs = [a, b]" | a b c rest where "bs = a # b # c # rest"
    by (metis list.exhaust)
  then show thesis
    using assms that by cases (auto simp: content_like_def content_head_def numeral_3_eq_3)
qed

section \<open>Content packets\<close>

lemma empty_contents [simp]: "b_contents (b\<lparr>b_length := 0\<rparr>) = []"
  by (simp add: b_contents_def)

lemma read_end: "mpack_read_tag (reading []) = (Tag_Nil, \<lparr>r_data = [], r_error = mpack_error_invalid\<rparr>)"
  by (simp add: reader_defs mpack_reader_flag_error_def)

lemma read_half_u8: "mpack_read_tag (reading [0xcc]) = (Tag_Nil, \<lparr>r_data = [], r_error = mpack_error_invalid\<rparr>)"
  by (simp add: reader_defs mpack_reader_flag_error_def)

lemma read_map_head: "mpack_expect_map_max_or_nil UCCN_MAX_NUM_GROUPS (reading (0x81 # rest)) = (True, 1, reading rest)"
proof -
  have "enc_item (Item_Map 1) = [0x81]" by (simp add: mpack_encode_fixmap_def)
  then show ?thesis using expect_map_max [of 1 UCCN_MAX_NUM_GROUPS rest] by (simp add: config_simps word_le_nat_alt)
qed

lemma read_content_code: "mpack_expect_u8 (reading (0xcc # 0xa5 # rest)) = (UCCN_CONTENT_GROUP, reading rest)"
proof -
  have "enc_item (Item_U8 UCCN_CONTENT_GROUP) = [0xcc, 0xa5]"
    by (simp add: config_simps mpack_encode_u8_def)
  then show ?thesis using expect_u8_roundtrip [of UCCN_CONTENT_GROUP rest] by simp
qed

text \<open>A packet of one group.\<close>

lemma one_group:
  assumes "b_contents incoming = 0x81 # rest"
  shows "uccn_process_packet peer incoming s = rbind (process_packet_body peer 0 (0, reading rest, s)) (\<lambda>c.
    case (case c of Continue x \<Rightarrow> x | Break x \<Rightarrow> x) of (ret, r, s) \<Rightarrow> Inr (if mpack_reader_destroy r \<noteq> mpack_ok then -1 else ret, s))"
  by (cases "process_packet_body peer 0 (0, reading rest, s)")
    (auto simp: uccn_process_packet_def assms mpack_reader_init_data_def reading_def [symmetric] read_map_head
      for_loop_step split: ctl.splits)

lemma process_content_like:
  assumes "registered s" and "peer < num_peers s" and "unpack_safe F (resources s)"
    and "content_like (b_contents incoming)" and "harmless (b_contents (outgoing_buffer s))"
  shows "wpf F (uccn_process_packet peer incoming s) (\<lambda>(ret, s'). harmless (b_contents (outgoing_buffer s')))"
  using assms(4)
proof (cases rule: content_like_cases)
  case 1
  then show ?thesis using assms(5)
    by (simp add: uccn_process_packet_def mpack_reader_init_data_def reading_def [symmetric] read_end
        mpack_expect_map_max_or_nil_def mpack_expect_map_or_nil_def)
next
  case 2
  have "mpack_expect_u8 (reading []) = (0, \<lparr>r_data = [], r_error = mpack_error_invalid\<rparr>)"
    by (simp add: mpack_expect_u8_def read_end mpack_reader_flag_error_def)
  then show ?thesis using assms(5)
    by (simp add: one_group [OF 2] process_packet_body_def config_simps)
next
  case 3
  have "mpack_expect_u8 (reading [0xcc]) = (0, \<lparr>r_data = [], r_error = mpack_error_invalid\<rparr>)"
    by (simp add: mpack_expect_u8_def read_half_u8 mpack_reader_flag_error_def)
  then show ?thesis using assms(5)
    by (simp add: one_group [OF 3] process_packet_body_def config_simps)
next
  case (4 rest)
  have "wpf F (uccn_process_content_group peer (reading rest) s) (\<lambda>_. True)"
    by (rule wpf_conseq [OF content_group_keeps [OF assms(1-3)]]) simp
  then show ?thesis
    by (auto simp: one_group [OF 4] process_packet_body_def read_content_code elim!: wpf_conseq)
qed

section \<open>Link packets\<close>

text \<open>Hashes are read into an array that has room for all of one array.\<close>

lemma array_count: "mpack_expect_array_max_or_nil (word_of_nat CONFIG_UCCN_MAX_NUM_RESOURCES) r = (ok, n, r') \<Longrightarrow> unat n \<le> 10"
  by (auto simp: mpack_expect_array_max_or_nil_def mpack_expect_array_or_nil_def Let_def config_simps word_le_nat_alt not_less
      split: prod.splits mpack_tag.splits if_splits)

lemma read_hashes_bounded:
  assumes "n \<le> 10"
  shows "wpf {} (for_loop read_hash_body 0 n (False, r, [])) (\<lambda>(missing, r, hashes). missing \<or> length hashes = n)"
proof (rule wpf_for_loop [where P = "\<lambda>i (missing, r, hashes). \<not> missing \<and> length hashes = i"])
  fix i and x :: "bool \<times> mpack_reader \<times> u32 list"
  assume "i < n" and "case x of (missing, r, hashes) \<Rightarrow> \<not> missing \<and> length hashes = i"
  then show "wpf {} (read_hash_body i x) (\<lambda>c. case c of
      Continue (missing, r, hashes) \<Rightarrow> \<not> missing \<and> length hashes = Suc i
    | Break (missing, r, hashes) \<Rightarrow> missing \<or> length hashes = n)"
    using assms by (auto simp: read_hash_body_def push_def config_simps split: prod.splits)
qed auto

text \<open>Linking makes at most as many links as there are hashes.\<close>

lemma relink_bounded:
  fixes s :: "'c sys"
  assumes "registered s" and "peer < num_peers s" and "length hashes = n" and "n \<le> 10"
    and link: "\<And>h s. registered s \<Longrightarrow> peer < num_peers s \<Longrightarrow> wpf {} (link peer h s) (\<lambda>(ret, s'). keeps s s')"
    and unlink: "\<And>s. registered s \<Longrightarrow> peer < num_peers s \<Longrightarrow> wpf {} (unlink peer s) (\<lambda>(ret, s'). keeps s s')"
  shows "wpf {} (relink unlink link f peer hashes n s []) (\<lambda>(ret, t, made, failed). length made \<le> 10)"
proof -
  have loop: "wpf {} (for_loop (relink_body link peer hashes) 0 n (ret, u, [], False))
      (\<lambda>(ret, t, made, failed). keeps s t \<and> length made \<le> 10)" if u: "keeps s u" for ret u
  proof (rule wpf_for_loop [where P = "\<lambda>i (ret, t, made, failed). keeps s t \<and> length made \<le> i"])
    fix i and x :: "int \<times> 'c sys \<times> u32 list \<times> bool"
    assume i: "i < n" and "case x of (ret, t, made, failed) \<Rightarrow> keeps s t \<and> length made \<le> i"
    then obtain ret t made failed where x: "x = (ret, t, made, failed)" "keeps s t" "length made \<le> i" by (cases x) auto
    have t: "registered t" "peer < num_peers t" using keepsD [OF x(2)] assms(2) by simp_all
    show "wpf {} (relink_body link peer hashes i x) (\<lambda>c. case c of
        Continue (ret, t, made, failed) \<Rightarrow> keeps s t \<and> length made \<le> Suc i
      | Break (ret, t, made, failed) \<Rightarrow> keeps s t \<and> length made \<le> 10)"
      using i x(3) assms(3,4)
      by (auto simp: x(1) relink_body_def push_def config_simps intro!: wpf_conseq [OF link [OF t]]
          dest: keeps_trans [OF x(2)])
  qed (use u assms(4) in auto)
  have set: "wpf {} (set_peer peer f t) (\<lambda>_. True)" if "keeps s t" for t
    using peer_bound [of t peer] keepsD [OF that] assms(2) by (simp add: set_peer_def)
  show ?thesis
    unfolding relink_def wpf_rbind
    by (rule wpf_conseq [OF unlink [OF assms(1,2)]]) (auto intro!: wpf_conseq [OF loop] wpf_conseq [OF set])
qed

text \<open>
  One turn of the loop over link data that may read an array: none has been read before it, and
  after it one of the two answers is empty.
\<close>

definition one_answer :: "'c link_group \<Rightarrow> bool" where
  "one_answer g \<longleftrightarrow> length (lg_provided g) \<le> 10 \<and> length (lg_tracked g) \<le> 10 \<and> (lg_provided g = [] \<or> lg_tracked g = [])"

lemma link_turn:
  fixes g :: "'c link_group"
  assumes "registered (lg_node g)" and "peer < num_peers (lg_node g)" and "lg_hashes g = []"
    and "lg_provided g = []" and "lg_tracked g = []"
  shows "wpf {} (link_group_body peer i g) (\<lambda>c. one_answer (case c of Continue g \<Rightarrow> g | Break g \<Rightarrow> g))"
proof -
  let ?s = "lg_node g"
  have k: "peer < length (peers ?s)" using peer_bound [OF assms(1,2)] by simp
  obtain code r where e: "mpack_expect_u8 (lg_reader g) = (code, r)" by fastforce
  obtain ok n r' where a: "mpack_expect_array_max_or_nil (word_of_nat CONFIG_UCCN_MAX_NUM_RESOURCES) r = (ok, n, r')"
    by (cases "mpack_expect_array_max_or_nil (word_of_nat CONFIG_UCCN_MAX_NUM_RESOURCES) r")
  note hashes = read_hashes_bounded [OF array_count [OF a], of r']
  have trackers: "wpf {} (relink uccn_unlink_trackers uccn_link_trackers f peer hashes (length hashes) ?s [])
      (\<lambda>(ret, t, made, failed). length made \<le> 10)" if "length hashes = unat n" for f hashes
    using that array_count [OF a] link_ops_keep(1,3) assms(1,2) by (intro relink_bounded) simp_all
  have providers: "wpf {} (relink uccn_unlink_providers uccn_link_providers f peer hashes (unat n) ?s [])
      (\<lambda>(ret, t, made, failed). length made \<le> 10)" if "length hashes = unat n" for f hashes
    using that array_count [OF a] link_ops_keep(2,4) assms(1,2) by (intro relink_bounded) simp_all
  show ?thesis
    using k assms(3-5)
    by (auto simp: link_group_body_def e a Let_def one_answer_def split_def intro!: wpf_conseq [OF hashes]
        wpf_conseq [OF trackers] wpf_conseq [OF providers])
qed

lemma wpf_both: "wpf F m P \<Longrightarrow> wpf G m Q \<Longrightarrow> wpf (F \<inter> G) m (\<lambda>x. P x \<and> Q x)"
  by (cases m) simp_all

definition answer :: "nat \<Rightarrow> mpack_writer \<Rightarrow> bool" where
  "answer n w \<longleftrightarrow> (\<exists>me tr pr. length me < 64 \<and> 0 \<notin> set me \<and> length tr \<le> 10 \<and> length pr \<le> 10 \<and> (pr = [] \<or> tr = []) \<and>
     w = fold write_item (reply_items me tr pr) (mpack_writer_init n))"

lemma no_answer: "answer n (mpack_writer_init n)"
  unfolding answer_def by (intro exI [of _ "[]"]) (simp add: reply_items_def)

text \<open>What an answer leaves in a buffer of its size.\<close>

lemma harmless_answer:
  assumes "answer (b_size b) w" and "130 \<le> b_size b"
  shows "w_error w = mpack_ok" and "harmless (b_contents (b_written w b))"
proof -
  obtain me tr pr where a: "length me < 64" "0 \<notin> set me" "length tr \<le> 10" "length pr \<le> 10" "pr = [] \<or> tr = []"
      "w = fold write_item (reply_items me tr pr) (mpack_writer_init (b_size b))"
    using assms(1) unfolding answer_def by blast
  have enc: "harmless (enc_items (reply_items me tr pr)) \<and> length (enc_items (reply_items me tr pr)) \<le> 130"
    using a(5)
  proof
    assume "pr = []"
    then show ?thesis
      using a(1-3) length_reply(2) [of me tr] by (simp add: reply_packet(2) harmless_link)
  next
    assume "tr = []"
    then show ?thesis
      using a(1,2,4) length_reply(1) [of me pr] by (simp add: reply_packet(1) harmless_link)
  qed
  show ok: "w_error w = mpack_ok"
    using items.fold_ok_iff [of "mpack_writer_init (b_size b)" "reply_items me tr pr"] enc assms(2)
    by (simp add: a(6) enc_items_def)
  show "harmless (b_contents (b_written w b))"
    using b_contents_written(1) [of "reply_items me tr pr" "b_size b" b] ok enc by (simp add: a(6) enc_items_def)
qed

lemma link_group_answer:
  fixes s :: "'c sys"
  assumes "registered s" and "peer < num_peers s" and "length name < 64" and "0 \<notin> set name"
  shows "wpf {} (uccn_process_link_group peer (reading (enc_item (Item_Map 2) @ enc_item (Item_U8 UCCN_NODE_NAME) @
      enc_item (Item_Str name) @ tail)) (mpack_writer_init n) s) (\<lambda>(ret, r, w, s'). answer n w)"
proof -
  let ?names = "enc_item (Item_U8 UCCN_NODE_NAME) @ enc_item (Item_Str name) @ tail"
  let ?g = "\<lparr>lg_ret = 0, lg_reader = reading ?names, lg_node = s, lg_hashes = [], lg_provided = [],
      lg_tracked = [], lg_returned = False\<rparr>"
  let ?h = "?g\<lparr>lg_reader := reading tail, lg_node := named peer name s\<rparr>"
  have first: "link_group_body peer 0 ?g = Inr (Continue ?h)"
    using link_group_name [of ?g peer name tail 0] assms by simp
  have s: "keeps s (named peer name s)" by (rule registered_named [OF assms(1-3)])
  have second: "wpf {} (link_group_body peer 1 ?h) (\<lambda>c. one_answer (case c of Continue g \<Rightarrow> g | Break g \<Rightarrow> g) \<and>
      keeps s (case c of Continue g \<Rightarrow> lg_node g | Break g \<Rightarrow> lg_node g))"
    using wpf_both [OF link_turn [of ?h peer 1] link_group_body_keeps [of s ?h peer 1]] s keepsD [OF s] assms(2) by simp
  have head: "mpack_expect_map_max_or_nil UCCN_MAX_NUM_LINK_DATA (reading (enc_item (Item_Map 2) @ ?names)) = (True, 2, reading ?names)"
    by (rule expect_map_max) (simp add: config_simps word_le_nat_alt)
  have loop: "wpf {} (for_loop (link_group_body peer) 0 2 ?g) (\<lambda>g. one_answer g \<and> keeps s (lg_node g))"
  proof -
    have "for_loop (link_group_body peer) 0 2 ?g = rbind (link_group_body peer 1 ?h) (case_ctl (for_loop (link_group_body peer) (Suc (Suc 0)) 2) Inr)"
      using for_loop_step [of 0 2 "link_group_body peer" ?g] for_loop_step [of 1 2 "link_group_body peer" ?h] first
      by (simp del: enc_item.simps)
    then show ?thesis using second by (auto elim!: wpf_conseq split: ctl.splits)
  qed
  have reply: "wpf {} (link_reply (node_name (lg_node g)) (lg_tracked g) (lg_provided g) (mpack_writer_init n)) (answer n)"
    if "one_answer g" "keeps s (lg_node g)" for g
  proof -
    have wf: "wf_node (lg_node g)" using keepsD [OF that(2)] by (simp add: registered_def)
    then obtain me where me: "c_string (node_name (lg_node g)) = Inr me" "length me < 64" "0 \<notin> set me"
      by (rule node_name_string)
    have "length (node_name (lg_node g)) < 2 ^ 32" using wf by (simp add: wf_node_def config_simps)
    then show ?thesis using that(1) me(2,3)
      by (auto simp: link_reply_items [OF me(1)] answer_def one_answer_def)
  qed
  show ?thesis
    by (auto simp: uccn_process_link_group_def head simp del: enc_item.simps
        intro!: wpf_conseq [OF loop] wpf_conseq [OF reply] no_answer)
qed

lemma process_link_like:
  fixes s :: "'c sys"
  assumes "registered s" and "peer < num_peers s" and "length name < 64" and "0 \<notin> set name"
    and "b_contents incoming = link_packet name code hs"
  shows "wpf {} (uccn_process_packet peer incoming s) (\<lambda>(ret, s'). harmless (b_contents (outgoing_buffer s')))"
proof -
  let ?tail = "enc_item (Item_U8 code) @ enc_item (Item_Array (word_of_nat (length hs))) @ enc_items (map Item_U32 hs)"
  let ?group = "enc_item (Item_Map 2) @ enc_item (Item_U8 UCCN_NODE_NAME) @ enc_item (Item_Str name) @ ?tail"
  have "enc_item (Item_Map 1) = [0x81]" by (simp add: mpack_encode_fixmap_def)
  then have bytes: "b_contents incoming = 0x81 # enc_item (Item_U8 UCCN_LINK_GROUP) @ ?group"
    by (simp add: assms(5) link_packet_def link_items_def del: enc_item.simps)
  have size: "b_size (outgoing_buffer s) = 512" by (rule b_size_outgoing [OF assms(1)])
  have run: "wpf {} (uccn_process_link_group peer (reading ?group) (mpack_writer_init 512) s)
      (\<lambda>(ret, r, w, s'). answer 512 w \<and> registered s')"
    using wpf_both [OF link_group_answer [OF assms(1-4), of ?tail 512]
        link_group_keeps [OF assms(1,2) writer_init_wf(1) writer_init_wf(4)]]
    by (auto elim!: wpf_conseq dest: keepsD)
  have "UCCN_LINK_GROUP \<noteq> UCCN_CONTENT_GROUP" by (simp add: config_simps)
  then show ?thesis
    using size
    by (auto simp: one_group [OF bytes] process_packet_body_def expect_u8_roundtrip b_size_outgoing
        harmless_answer simp del: enc_item.simps intro!: wpf_conseq [OF run])
qed

end
