(* ===== verification/Network.thy ===== *)
theory Network
  imports Harmless Frame Node_Init
begin

text \<open>
  Nodes on one network: what each of them does on its own and what it receives from the others, as
  a step relation over all nodes, and what holds in every state that can be reached.
\<close>

section \<open>Sane nodes\<close>

definition harmless_events :: "'c event list \<Rightarrow> bool" where
  "harmless_events es \<longleftrightarrow> (\<forall>fd addr bs. Sent fd addr bs \<in> set es \<longrightarrow> harmless bs)"

lemma harmless_events_simps [simp]:
  "harmless_events []"
  "harmless_events (es @ [Sent fd addr bs]) \<longleftrightarrow> harmless_events es \<and> harmless bs"
  "harmless_events (es @ map Closed fds) \<longleftrightarrow> harmless_events es"
  by (auto simp: harmless_events_def)

lemma harmless_events_silent:
  assumes "silent s t"
  shows "harmless_events (trace t) = harmless_events (trace s)"
proof -
  have key: "harmless_events (trace u) \<longleftrightarrow> (\<forall>fd addr bs. Sent fd addr bs \<in> set (sends u) \<longrightarrow> harmless bs)" for u :: "'c sys"
    by (simp add: harmless_events_def sends_def)
  show ?thesis using assms unfolding key silent_def by simp
qed

text \<open>A node in order that has only sent, and would only send again, packets of the protocol.\<close>

definition sane :: "'c sys \<Rightarrow> bool" where
  "sane s \<longleftrightarrow> registered s \<and> harmless (b_contents (outgoing_buffer s)) \<and> harmless_events (trace s)"

lemma saneD: "sane s \<Longrightarrow> registered s \<and> harmless (b_contents (outgoing_buffer s)) \<and> harmless_events (trace s)"
  by (simp add: sane_def)

lemma sane_sendto:
  assumes "sane s" and "harmless packet" and "sys_sendto fd addr packet s = (n, t)"
  shows "sane t"
  using assms registered_sends_only [OF _ sends_only_sendto [OF assms(3)]] sends_only_fields(9) [OF sends_only_sendto [OF assms(3)]]
  by (auto simp: sane_def sys_sendto_def Let_def split: if_splits)

lemma sane_clock: "sane s \<Longrightarrow> sys_clock s = (ret, c, t) \<Longrightarrow> sane t"
  using registered_clock [of s ret c t]
  by (auto simp: sane_def sys_clock_def Let_def split: prod.splits)

lemma sane_sends_only:
  "sane s \<Longrightarrow> sends_only s t \<Longrightarrow> harmless_events (trace t) \<Longrightarrow> sane t"
  using registered_sends_only [of s t] sends_only_fields(9) [of s t] by (simp add: sane_def)

lemma sane_outgoing:
  "sane s \<Longrightarrow> wf_buffer CONFIG_UCCN_OUTGOING_BUFFER_SIZE b \<Longrightarrow> harmless (b_contents b) \<Longrightarrow> sane (s\<lparr>outgoing_buffer := b\<rparr>)"
  by (simp add: sane_def registered_buffers)

lemma sane_fields [simp]:
  "sane (s\<lparr>mutex_locked := b\<rparr>) = sane s" "sane (s\<lparr>content_buffer := c\<rparr>) = sane s" "sane (s\<lparr>stop_pipe := p\<rparr>) = sane s"
  "sane (s\<lparr>recvfrom := r\<rparr>) = sane s"
  by (auto simp: sane_def registered_def wf_node_def hash_table_def resource_of_def)

section \<open>A node on its own\<close>

lemma sane_track:
  assumes "sane s"
  shows "wpf UNIV (uccn_track r f a s) (\<lambda>(i, t). sane t)"
proof (cases "mutex_locked s")
  case False
  have registered: "wpf UNIV (uccn_track r f a s) (\<lambda>(i, t). registered t)"
    by (rule wpf_mono [OF uccn_track_keeps]) (use assms False in \<open>auto simp: sane_def\<close>)
  have "wf_node s" using assms by (simp add: sane_def registered_def)
  then show ?thesis using False
    by (cases rule: uccn_track_cases [where r = r and f = f and a = a]) (use assms registered in \<open>auto simp: sane_def\<close>)
qed (simp add: uccn_track_locked)

lemma sane_advertise:
  assumes "sane s"
  shows "wpf UNIV (uccn_advertise r s) (\<lambda>(i, t). sane t)"
proof (cases "mutex_locked s")
  case False
  have registered: "wpf UNIV (uccn_advertise r s) (\<lambda>(i, t). registered t)"
    by (rule wpf_mono [OF uccn_advertise_keeps]) (use assms False in \<open>auto simp: sane_def\<close>)
  have "wf_node s" using assms by (simp add: sane_def registered_def)
  then show ?thesis using False
    by (cases rule: uccn_advertise_cases [where r = r]) (use assms registered in \<open>auto simp: sane_def\<close>)
qed (simp add: uccn_advertise_locked)

lemma sane_discover:
  assumes "sane s"
  shows "wpf UNIV (uccn_discover_peers s) (\<lambda>(ret, t). sane t)"
proof -
  have r: "registered s" and wf: "wf_node s" using assms by (simp_all add: sane_def registered_def)
  obtain name where name: "c_string (node_name s) = Inr name" "length name < 64" "0 \<notin> set name"
    using node_name_string [OF wf] by blast
  have size: "b_size (outgoing_buffer s) = CONFIG_UCCN_OUTGOING_BUFFER_SIZE"
    using b_size_outgoing [OF r] by (simp add: config_simps)
  obtain packet where p: "uccn_prepare_discovery_packet s (outgoing_buffer s) = Inr (0, packet)"
      "b_contents packet = link_packet name UCCN_TRACKED_ARRAY (idle_hashes s)"
      "b_size packet = b_size (outgoing_buffer s)" "b_length packet \<le> 130"
    using discovery_packet_contents [OF wf name(1) size] by blast
  have harmless: "harmless (b_contents packet)"
    using name(2,3) length_idle_hashes [OF wf] by (simp add: p(2) harmless_link)
  have "wf_buffer CONFIG_UCCN_OUTGOING_BUFFER_SIZE packet"
    using p(3,4) size by (simp add: wf_buffer_def b_size_def config_simps)
  then have s: "sane (s\<lparr>outgoing_buffer := packet\<rparr>)" using assms harmless by (intro sane_outgoing)
  obtain n t where send: "sys_sendto (socket s) (broadcast_address s) (b_contents packet) (s\<lparr>outgoing_buffer := packet\<rparr>) = (n, t)"
    by fastforce
  show ?thesis
    using sane_sendto [OF s harmless send] by (simp add: uccn_discover_peers_def p(1) send c_assert_def)
qed

text \<open>Keepalives.\<close>

lemma assert_loop_harmless:
  fixes s :: "'c sys"
  assumes "harmless packet" and "harmless_events (trace s)"
  shows "wpf UNIV (for_loop (assert_body t packet) 0 n (ret, d, s)) (\<lambda>(ret, d, u). harmless_events (trace u))"
proof (cases "0 \<le> n")
  case True
  show ?thesis
  proof (rule wpf_for_loop [where P = "\<lambda>i x. harmless_events (trace (snd (snd x)))"])
    fix i and x :: "int \<times> timespec option \<times> 'c sys"
    assume "harmless_events (trace (snd (snd x)))"
    then show "wpf UNIV (assert_body t packet i x) (\<lambda>c. case c of Continue y \<Rightarrow> harmless_events (trace (snd (snd y)))
        | Break y \<Rightarrow> case y of (ret, d, u) \<Rightarrow> harmless_events (trace u))"
      using assms(1)
      by (cases x) (auto simp: assert_body_def wpf_UNIV_arr_get sys_sendto_def c_assert_def Let_def)
  qed (use assms in auto)
qed simp

lemma sane_assert:
  assumes "sane s"
  shows "wpf UNIV (uccn_assert_liveliness d s) (\<lambda>(ret, d, t). sane t)"
proof -
  have r: "registered s" using assms by (simp add: sane_def)
  obtain ret packet where p: "uccn_prepare_keepalive_packet (outgoing_buffer s) = (ret, packet)" by fastforce
  note k = keepalive_stored [OF r p]
  have s: "sane (s\<lparr>outgoing_buffer := packet\<rparr>)" using assms k(2,3) by (intro sane_outgoing) simp_all
  obtain ret' t u where clock: "sys_clock (s\<lparr>outgoing_buffer := packet\<rparr>) = (ret', t, u)"
    by (cases "sys_clock (s\<lparr>outgoing_buffer := packet\<rparr>)")
  have u: "sane u" by (rule sane_clock [OF s clock])
  have n: "num_peers u \<le> length (peers u)" using u by (simp add: sane_def registered_def wf_node_def wf_peers_def)
  have loop: "wpf UNIV (for_loop (assert_body t [0xc0]) 0 (num_peers u) (0, d', u)) (\<lambda>(ret, d, v). sane v)" for d'
  proof -
    have "wpf UNIV (for_loop (assert_body t [0xc0]) 0 (num_peers u) (0, d', u)) (\<lambda>x. (case x of (ret, d, v) \<Rightarrow> sends_only u v) \<and>
        (case x of (ret, d, v) \<Rightarrow> harmless_events (trace v)))"
      by (intro wpf_conj wpf_mono [OF assert_loop_keeps [OF n]] assert_loop_harmless)
        (use u in \<open>simp_all add: sane_def\<close>)
    then show ?thesis by (rule wpf_conseq) (use sane_sends_only [OF u] in auto)
  qed
  show ?thesis
    using u loop k(1,2) by (auto simp: uccn_assert_liveliness_def p clock Let_def)
qed

lemma sane_probe:
  assumes "sane s"
  shows "wpf UNIV (uccn_probe_endpoints a b d s) (\<lambda>(ret, a, b, d, t). sane t)"
proof -
  have "wpf UNIV (uccn_probe_endpoints a b d s) (\<lambda>(ret, a, b, d, t). registered t)"
    by (rule wpf_mono [OF uccn_probe_endpoints_keeps]) (use assms in \<open>auto simp: sane_def\<close>)
  moreover have "wpf UNIV (uccn_probe_endpoints a b d s) (\<lambda>(ret, a, b, d, t).
      outgoing_buffer t = outgoing_buffer s \<and> trace t = trace s)"
    by (rule wpf_UNIV_I)
      (auto simp: uccn_probe_endpoints_def sys_clock_def Let_def rbind_eq_Inr split: prod.splits if_splits)
  ultimately have "wpf UNIV (uccn_probe_endpoints a b d s) (\<lambda>x. (case x of (ret, a, b, d, t) \<Rightarrow> registered t) \<and>
      (case x of (ret, a, b, d, t) \<Rightarrow> outgoing_buffer t = outgoing_buffer s \<and> trace t = trace s))"
    by (rule wpf_conj)
  then show ?thesis by (rule wpf_conseq) (use assms in \<open>auto simp: sane_def\<close>)
qed

text \<open>Posting: also a post that fails leaves the head of a content packet behind.\<close>

lemma post_head:
  assumes "3 \<le> n"
  shows "take 3 (w_out (fold write_item (Item_Map 1 # Item_U8 UCCN_CONTENT_GROUP # xs) (mpack_writer_init n))) = content_head"
proof -
  let ?w = "fold write_item [Item_Map 1, Item_U8 UCCN_CONTENT_GROUP] (mpack_writer_init n)"
  have enc: "concat (map enc_item [Item_Map 1, Item_U8 UCCN_CONTENT_GROUP]) = content_head"
    by (simp add: content_head_def config_simps mpack_encode_fixmap_def mpack_encode_u8_def)
  then have "?w = put content_head (mpack_writer_init n)"
    using items.fold_fits [of "mpack_writer_init n" "[Item_Map 1, Item_U8 UCCN_CONTENT_GROUP]"] assms
    by (simp add: content_head_def)
  then have out: "w_out ?w = content_head" by (simp add: put_def)
  have "length content_head = 3" by (simp add: content_head_def)
  then show ?thesis
    using items.fold_extends [of ?w xs, unfolded out] by (simp del: write_item.simps)
qed

lemma content_like_head:
  assumes "take 3 bs = content_head"
  shows "content_like bs"
proof -
  have "3 \<le> length bs" using arg_cong [OF assms, of length] by (simp add: content_head_def)
  then show ?thesis unfolding content_like_def assms by (simp add: content_head_def)
qed

lemma harmless_post:
  assumes "3 \<le> n" and "w = fold write_item (Item_Map 1 # Item_U8 UCCN_CONTENT_GROUP # xs) (mpack_writer_init n)"
  shows "harmless (b_contents (b_written w b))" and "harmless (b_contents (b_store w b))"
proof -
  have head: "take 3 (w_out w) = content_head" using post_head [OF assms(1)] by (simp add: assms(2))
  then have "content_like (w_out w)" by (rule content_like_head)
  then show "harmless (b_contents (b_written w b))"
    by (simp add: b_contents_def b_written_def mpack_writer_buffer_used_def harmless_def)
  have "length (w_out w) \<ge> 3" using arg_cong [OF head, of length] by (simp add: content_head_def)
  then have "take 3 (w_out w @ drop (length (w_out w)) (b_data b)) = content_head" using head by simp
  from content_like_take [OF content_like_head [OF this]]
  have "content_like (b_contents (b_store w b))" by (simp add: b_contents_def b_store_def del: take_append)
  then show "harmless (b_contents (b_store w b))" by (simp add: harmless_def)
qed

lemma post_loop_harmless:
  fixes s :: "'c sys"
  assumes "harmless packet" and "harmless_events (trace s)"
  shows "wpf UNIV (for_loop (post_body packet links) 0 n (0, False, s)) (\<lambda>(ret, returned, u). harmless_events (trace u))"
proof (rule wpf_for_loop [where P = "\<lambda>i x. harmless_events (trace (snd (snd x)))"])
  fix i and x :: "int \<times> bool \<times> 'c sys"
  assume "harmless_events (trace (snd (snd x)))"
  then show "wpf UNIV (post_body packet links i x) (\<lambda>c. case c of Continue y \<Rightarrow> harmless_events (trace (snd (snd y)))
      | Break y \<Rightarrow> case y of (ret, returned, u) \<Rightarrow> harmless_events (trace u))"
    using assms(1)
    by (cases x) (auto simp: post_body_def wpf_UNIV_arr_get sys_sendto_def sys_clock_def c_assert_def Let_def
        split: option.splits prod.splits)
qed (use assms in auto)

lemma sane_post_loop:
  assumes "sane s" and "harmless packet"
  shows "wpf UNIV (for_loop (post_body packet links) 0 n (0, False, s)) (\<lambda>(ret, returned, u). sane u)"
proof -
  have "wpf UNIV (for_loop (post_body packet links) 0 n (0, False, s)) (\<lambda>x. (case x of (ret, returned, u) \<Rightarrow> sends_only s u) \<and>
      (case x of (ret, returned, u) \<Rightarrow> harmless_events (trace u)))"
    using assms by (intro wpf_conj post_loop_keeps post_loop_harmless) (simp_all add: sane_def)
  then show ?thesis by (rule wpf_conseq) (use sane_sends_only [OF assms(1)] in auto)
qed

lemma sane_post_locked:
  assumes "sane s"
  shows "wpf UNIV (post_locked p content s) (\<lambda>(ret, t). sane t)"
proof -
  let ?n = "b_size (outgoing_buffer s)"
  let ?start = "\<lambda>h. mpack_write_u32 h (mpack_start_map 1 (mpack_write_u8 UCCN_CONTENT_GROUP
      (mpack_start_map 1 (mpack_writer_init ?n))))"
  have r: "registered s" using assms by (simp add: sane_def)
  have n: "3 \<le> ?n" using b_size_outgoing [OF r] by simp
  have buffer: "wf_buffer CONFIG_UCCN_OUTGOING_BUFFER_SIZE (outgoing_buffer s)"
    using r by (simp add: registered_def wf_node_def)
  have start: "?start h = fold write_item (Item_Map 1 # Item_U8 UCCN_CONTENT_GROUP # [Item_Map 1, Item_U32 h]) (mpack_writer_init ?n)" for h
    by simp
  have full: "mpack_write_bin bs (?start h) =
      fold write_item (Item_Map 1 # Item_U8 UCCN_CONTENT_GROUP # [Item_Map 1, Item_U32 h, Item_Bin bs]) (mpack_writer_init ?n)" for bs h
    by simp
  have wf: "wf_buffer CONFIG_UCCN_OUTGOING_BUFFER_SIZE (b_store (?start h) (outgoing_buffer s))"
    "wf_buffer CONFIG_UCCN_OUTGOING_BUFFER_SIZE (b_written (mpack_write_bin bs (?start h)) (outgoing_buffer s))" for bs h
    unfolding full unfolding start by (rule wf_buffer_written [OF written_wf written_size buffer])+
  have harmless: "harmless (b_contents (b_store (?start h) (outgoing_buffer s)))"
    "harmless (b_contents (b_written (mpack_write_bin bs (?start h)) (outgoing_buffer s)))" for h bs
    by (rule harmless_post(2) [OF n start], rule harmless_post(1) [OF n full])
  show ?thesis
    using assms wf harmless
    by (cases "res_pack (resource_of (s\<lparr>mutex_locked := True\<rparr>) (providers s ! p)) content (Some (content_buffer s))")
      (auto simp: post_locked_def wpf_UNIV_arr_get mutex_lock_def mutex_unlock_def Let_def blob_bytes_def
        split: option.splits intro!: wpf_conseq [OF sane_post_loop] sane_outgoing)
qed

lemma sane_post: "sane s \<Longrightarrow> wpf UNIV (uccn_post p content s) (\<lambda>(ret, t). sane t)"
  by (simp add: uccn_post_def wpf_UNIV_arr_get sane_post_locked)

section \<open>A node that receives\<close>

lemma process_sane:
  fixes s :: "'c sys"
  assumes "sane s" and "peer < num_peers s" and "unpack_safe F (resources s)" and "harmless (b_contents incoming)"
  shows "wpf F (uccn_process_packet peer incoming s) (\<lambda>(ret, t). sane t \<and> num_peers t = num_peers s \<and> sendto t = sendto s)"
proof -
  let ?m = "uccn_process_packet peer incoming s"
  have r: "registered s" and out: "harmless (b_contents (outgoing_buffer s))" using assms(1) by (simp_all add: sane_def)
  have harmless: "wpf F ?m (\<lambda>(ret, t). harmless (b_contents (outgoing_buffer t)))"
  proof -
    consider "b_contents incoming = [0xc0]" | "content_like (b_contents incoming)"
      | name code hs where "length name < 64" "0 \<notin> set name" "b_contents incoming = link_packet name code hs"
      using assms(4) unfolding harmless_def by blast
    then show ?thesis
    proof cases
      case 1
      then show ?thesis using out by (simp add: keepalive_packet)
    next
      case 2
      then show ?thesis using process_content_like [OF r assms(2,3)] out by simp
    next
      case 3
      then show ?thesis using process_link_like [OF r assms(2)] wpf_mono by blast
    qed
  qed
  have unpack: "unpack_safe (insert Out_Of_Bounds F) (resources s)"
    unfolding unpack_safe_def
  proof (intro allI)
    fix i blob
    have "wpf F (res_unpack (resources s i) blob None) (\<lambda>_. True)" using assms(3) by (simp add: unpack_safe_def)
    then show "wpf (insert Out_Of_Bounds F) (res_unpack (resources s i) blob None) (\<lambda>_. True)"
      by (rule wpf_mono) auto
  qed
  have "wpf F ?m (\<lambda>x. (case x of (ret, t) \<Rightarrow> harmless (b_contents (outgoing_buffer t))) \<and>
      (case x of (ret, t) \<Rightarrow> registered t \<and> num_peers t = num_peers s \<and> mutex_locked t = mutex_locked s \<and>
        (accounted s \<longrightarrow> accounted t)) \<and>
      (case x of (ret, t) \<Rightarrow> silent s t) \<and> (case x of (ret, t) \<Rightarrow> frame s t))"
  proof -
    have F: "F \<inter> (insert Out_Of_Bounds F \<inter> (UNIV \<inter> UNIV)) = F" by blast
    from wpf_both [OF harmless wpf_both [OF uccn_process_packet_keeps [OF r assms(2) unpack insertI1]
        wpf_both [OF silent.R_process_packet frame_process_packet]]]
    show ?thesis unfolding F .
  qed
  then show ?thesis
  proof (rule wpf_conseq, clarify)
    fix ret t
    assume "harmless (b_contents (outgoing_buffer t))" "registered t" "num_peers t = num_peers s" "silent s t" "frame s t"
    then show "sane t \<and> num_peers t = num_peers s \<and> sendto t = sendto s"
      using assms(1) harmless_events_silent [of s t] frame_fields(9) [of s t] by (simp add: sane_def)
  qed
qed

lemma register_sane:
  assumes "sane s"
  shows "wpf {} (uccn_register_peer addr s) (\<lambda>(k, t). sane t \<and> resources t = resources s \<and> sendto t = sendto s \<and>
    (case k of None \<Rightarrow> True | Some k \<Rightarrow> k < num_peers t))"
proof -
  have r: "registered s" using assms by (simp add: sane_def)
  have "wpf UNIV (uccn_register_peer addr s) (\<lambda>(k, t). trace t = trace s \<and> outgoing_buffer t = outgoing_buffer s)"
  proof (rule wpf_UNIV_I)
    fix x assume run: "uccn_register_peer addr s = Inr x"
    obtain ret c u where clock: "sys_clock s = (ret, c, u)" by (cases "sys_clock s")
    have "trace u = trace s" "outgoing_buffer u = outgoing_buffer s"
      using clock by (auto simp: sys_clock_def Let_def split: prod.splits)
    then show "case x of (k, t) \<Rightarrow> trace t = trace s \<and> outgoing_buffer t = outgoing_buffer s"
      using run by (auto simp: uccn_register_peer_def clock rbind_eq_Inr Let_def split: option.splits if_splits)
  qed
  from wpf_both [OF uccn_register_peer_keeps [OF r] wpf_both [OF this frame_register_peer]]
  show ?thesis
  proof (rule wpf_mono, simp, clarify)
    fix k t
    assume "trace t = trace s" "outgoing_buffer t = outgoing_buffer s" "registered t" "resources t = resources s" "frame s t"
      "case k of None \<Rightarrow> num_peers s = CONFIG_UCCN_MAX_NUM_PEERS \<or> fst (clock_gettime s (clock_calls s)) < 0
       | Some k \<Rightarrow> k < num_peers t \<and> p_address (peers t ! k) = addr \<and>
           next_remote_deadline (peers t ! k) =
             timespec_add (snd (clock_gettime s (clock_calls s))) g_uccn_liveliness_timeout"
    then show "sane t \<and> resources t = resources s \<and> sendto t = sendto s \<and> (case k of None \<Rightarrow> True | Some k \<Rightarrow> k < num_peers t)"
      using assms frame_fields(9) [of s t] by (cases k) (simp_all add: sane_def)
  qed
qed

lemma incoming_sane:
  fixes s :: "'c sys"
  assumes "sane s" and "unpack_safe F (resources s)" and "datagrams (sendto s) \<or> Assert_Failed \<in> F"
    and "harmless (b_contents incoming)"
  shows "wpf F (uccn_process_incoming origin incoming s) (\<lambda>(ret, t). sane t)"
proof -
  have reg: "wpf F (uccn_register_peer origin s) (\<lambda>(k, t). sane t \<and> resources t = resources s \<and> sendto t = sendto s \<and>
      (case k of None \<Rightarrow> True | Some k \<Rightarrow> k < num_peers t))"
    by (rule wpf_mono [OF register_sane [OF assms(1)]]) auto
  have answer: "wpf F (uccn_process_packet k incoming u) (\<lambda>(ret, t). sane t \<and> k < length (peers t) \<and>
      (datagrams (sendto t) \<or> Assert_Failed \<in> F))"
    if "sane u" "resources u = resources s" "sendto u = sendto s" "k < num_peers u" for k u
    by (rule wpf_conseq [OF process_sane [OF that(1,4)]]) (use assms that in \<open>auto simp: peer_bound dest: saneD\<close>)
  have send: "wpf F (let (n, t) = sys_sendto fd addr (b_contents (outgoing_buffer u)) u in
        rbind (c_assert (n < 0 \<or> n = int (b_length (outgoing_buffer u)))) (\<lambda>_. Inr (if n < 0 then n else 0, t)))
      (\<lambda>(ret, t). sane t)" if "sane u" "datagrams (sendto u) \<or> Assert_Failed \<in> F" for fd addr and u :: "'c sys"
  proof -
    obtain n t where send: "sys_sendto fd addr (b_contents (outgoing_buffer u)) u = (n, t)" by fastforce
    have "b_length (outgoing_buffer u) = length (b_contents (outgoing_buffer u))"
      using that(1) by (simp add: sane_def registered_def wf_node_def wf_buffer_def b_contents_def)
    then show ?thesis
      using sane_sendto [OF that(1) _ send] sys_sendto_works [OF _ send] that(2) saneD [OF that(1)]
      by (auto simp: send c_assert_def)
  qed
  show ?thesis
    unfolding uccn_process_incoming_def
    by (auto simp: Let_def split: option.splits intro!: wpf_conseq [OF reg] wpf_conseq [OF answer] send [unfolded Let_def])
qed

text \<open>A datagram that is waiting at the node's sockets.\<close>

definition receive :: "sockaddr_in \<Rightarrow> bytes \<Rightarrow> 'c sys \<Rightarrow> 'c sys" where
  "receive origin bs s = s\<lparr>recvfrom := \<lambda>_ _. Recv origin bs\<rparr>"

lemma receive_sane:
  fixes s :: "'c sys"
  assumes "sane s" and "unpack_safe F (resources s)" and "datagrams (sendto s) \<or> Assert_Failed \<in> F" and "harmless bs"
  shows "wpf F (uccn_process_incoming_unicast (receive origin bs s)) (\<lambda>(ret, t). sane t)"
    and "wpf F (uccn_process_incoming_broadcast (receive origin bs s)) (\<lambda>(ret, t). sane t)"
proof -
  let ?d = "take (length (b_data (incoming_buffer s))) bs"
  let ?b = "(incoming_buffer s)\<lparr>b_data := ?d @ drop (length ?d) (b_data (incoming_buffer s)), b_length := length ?d\<rparr>"
  let ?s = "s\<lparr>recvfrom := \<lambda>_ _. Recv origin bs, recvfrom_calls := recvfrom_calls s + 1, incoming_buffer := ?b\<rparr>"
  have size: "length (b_data (incoming_buffer s)) = 512"
    using assms(1) by (simp add: sane_def registered_def wf_node_def wf_buffer_def config_simps)
  then have "b_contents ?b = take 512 bs" by (simp add: b_contents_def min_def)
  then have harmless: "harmless (b_contents ?b)" using harmless_take [OF assms(4)] by simp
  have "registered ?s"
    using assms(1) size by (simp add: sane_def registered_def wf_node_def wf_buffer_def hash_table_def resource_of_def config_simps)
  then have s: "sane ?s" using assms(1) by (simp add: sane_def)
  have step: "wpf F (uccn_process_incoming origin ?b ?s) (\<lambda>(ret, t). sane t)"
    using s harmless assms(2,3) by (intro incoming_sane) simp_all
  have recv: "sys_recvfrom fd (receive origin bs s) = (Recv origin ?d, ?s\<lparr>incoming_buffer := (incoming_buffer s)\<lparr>b_data := b_data ?b\<rparr>\<rparr>)" for fd
    by (simp add: sys_recvfrom_def receive_def Let_def)
  have same: "?s\<lparr>incoming_buffer := (incoming_buffer s)\<lparr>b_data := b_data ?b, b_length := length ?d\<rparr>\<rparr> = ?s" by simp
  show "wpf F (uccn_process_incoming_unicast (receive origin bs s)) (\<lambda>(ret, t). sane t)"
    using step s same by (simp add: uccn_process_incoming_unicast_def recv Let_def)
  show "wpf F (uccn_process_incoming_broadcast (receive origin bs s)) (\<lambda>(ret, t). sane t)"
    using step s same by (simp add: uccn_process_incoming_broadcast_def recv Let_def)
qed

section \<open>All nodes\<close>

text \<open>
  What a node does without receiving anything: what its user calls, and what it does between two
  waits of a spin.
\<close>

inductive own_step :: "'c sys \<Rightarrow> 'c sys \<Rightarrow> bool" where
  track: "uccn_track r f a s = Inr (i, t) \<Longrightarrow> own_step s t"
| advertise: "uccn_advertise r s = Inr (i, t) \<Longrightarrow> own_step s t"
| post: "uccn_post p content s = Inr (ret, t) \<Longrightarrow> own_step s t"
| stop: "uccn_stop s = (ret, t) \<Longrightarrow> own_step s t"
| keepalive: "uccn_assert_liveliness d s = Inr (ret, d', t) \<Longrightarrow> own_step s t"
| probe: "uccn_probe_endpoints nt np d s = Inr (ret, nt', np', d', t) \<Longrightarrow> own_step s t"
| discover: "uccn_discover_peers s = Inr (ret, t) \<Longrightarrow> own_step s t"

text \<open>
  A step of the network: one node acts on its own, or receives a packet that some node has sent to
  it or to everyone. Packets can be lost, delayed, duplicated and overtaken: any packet sent so far
  may arrive at any time, or never.
\<close>

inductive net_step :: "(nat \<Rightarrow> 'c sys) \<Rightarrow> (nat \<Rightarrow> 'c sys) \<Rightarrow> bool" where
  own: "own_step (net i) t \<Longrightarrow> net_step net (net(i := t))"
| unicast: "Sent fd (address (net i)) bs \<in> set (trace (net j)) \<Longrightarrow>
    uccn_process_incoming_unicast (receive (address (net j)) bs (net i)) = Inr (ret, t) \<Longrightarrow>
    net_step net (net(i := t))"
| broadcast: "Sent fd (broadcast_address (net i)) bs \<in> set (trace (net j)) \<Longrightarrow>
    uccn_process_incoming_broadcast (receive (address (net j)) bs (net i)) = Inr (ret, t) \<Longrightarrow>
    net_step net (net(i := t))"

text \<open>A node whose initialisation has succeeded.\<close>

definition started :: "'c sys \<Rightarrow> bool" where
  "started s \<longleftrightarrow> (\<exists>an network name m. node_memory m \<and> length name < CONFIG_UCCN_MAX_NODE_NAME_SIZE \<and>
     trace m = [] \<and> uccn_node_init an network name m = (0, s))"

inductive reachable :: "(nat \<Rightarrow> 'c sys) \<Rightarrow> bool" where
  start: "(\<And>i. started (net i)) \<Longrightarrow> reachable net"
| step: "reachable net \<Longrightarrow> net_step net net' \<Longrightarrow> reachable net'"

inductive_cases own_stepE: "own_step s t"
inductive_cases net_stepE: "net_step net net'"

lemma started_sane:
  assumes "started s"
  shows "sane s"
proof -
  obtain an network name m where m: "node_memory m" "length name < CONFIG_UCCN_MAX_NODE_NAME_SIZE" "trace m = []"
      "uccn_node_init an network name m = (0, s)"
    using assms unfolding started_def by blast
  obtain addr ev p where s: "s = sync_done ev p (init_fields network name (m\<lparr>broadcast_socket := an_broadcast_socket an,
      socket := an_socket an, address := addr\<rparr>))"
    using node_init_done [OF m(4)] by blast
  let ?m = "m\<lparr>broadcast_socket := an_broadcast_socket an, socket := an_socket an, address := addr\<rparr>"
  have "node_memory ?m" using m(1) by (simp add: node_memory_def)
  note init_fields_registered(1) [OF this m(2), of network]
  then have "registered s" by (simp add: s)
  moreover have "b_contents (outgoing_buffer s) = []" "trace s = []"
    using m(3) by (simp_all add: s sync_done_def init_fields_def b_contents_def stack_buffer_init_def)
  ultimately show ?thesis by (simp add: sane_def)
qed

lemma own_step_sane:
  assumes "own_step s t" and "sane s"
  shows "sane t"
  using assms(1)
proof cases
  case (track r f a i)
  then show ?thesis using sane_track [OF assms(2), of r f a] by simp
next
  case (advertise r i)
  then show ?thesis using sane_advertise [OF assms(2), of r] by simp
next
  case (post p content ret)
  then show ?thesis using sane_post [OF assms(2), of p content] by simp
next
  case (stop ret)
  then have "t = s\<lparr>stop_pipe := stop_pipe t\<rparr>" by (auto simp: uccn_stop_def split_def Let_def)
  then show ?thesis using assms(2) by (metis sane_fields(3))
next
  case (keepalive d ret d')
  then show ?thesis using sane_assert [OF assms(2), of d] by simp
next
  case (probe nt np d ret nt' np' d')
  then show ?thesis using sane_probe [OF assms(2), of nt np d] by simp
next
  case (discover ret)
  then show ?thesis using sane_discover [OF assms(2)] by simp
qed

lemma reachable_sane:
  assumes "reachable net"
  shows "\<forall>i. sane (net i)"
  using assms
proof induction
  case (start net)
  then show ?case using started_sane by blast
next
  case (step net net')
  from step.hyps(2) show ?case
  proof cases
    case (own i t)
    then show ?thesis using step.IH own_step_sane [OF own(2)] by simp
  next
    case (unicast fd i bs j ret t)
    then have "harmless bs" using step.IH by (auto simp: sane_def harmless_events_def)
    then show ?thesis using unicast step.IH receive_sane(1) [of "net i" UNIV bs "address (net j)"] by simp
  next
    case (broadcast fd i bs j ret t)
    then have "harmless bs" using step.IH by (auto simp: sane_def harmless_events_def)
    then show ?thesis using broadcast step.IH receive_sane(2) [of "net i" UNIV bs "address (net j)"] by simp
  qed
qed

text \<open>
  C3: In every state that a network of initialised nodes can reach, by registrations, posts, stops,
  keepalives, probes, discoveries and the arrival of packets that were sent, each in any order and
  packets also late, twice or not at all, every node's memory and tables are in order.
\<close>

theorem network_stays_in_order:
  assumes "reachable net"
  shows "registered (net i) \<and> harmless (b_contents (outgoing_buffer (net i))) \<and> harmless_events (trace (net i))"
  using reachable_sane [OF assms] by (simp add: sane_def)

text \<open>
  C2: Packets that nodes of such a network have sent never drive a node out of its defined behaviour,
  whatever it has received before: a receive ends, unless a resource's own unpacking does not. (The
  arrays of \<open>uccn_process_link_group\<close> overflow on packets that no node sends.)
\<close>

theorem network_packets_are_safe:
  assumes "reachable net" and "Sent fd addr bs \<in> set (trace (net j))"
    and "unpack_safe F (resources (net i))" and "datagrams (sendto (net i))"
  shows "wpf F (uccn_process_incoming_unicast (receive (address (net j)) bs (net i))) (\<lambda>(ret, s). registered s) \<and>
    wpf F (uccn_process_incoming_broadcast (receive (address (net j)) bs (net i))) (\<lambda>(ret, s). registered s)"
proof -
  have "sane (net i)" "harmless bs"
    using reachable_sane [OF assms(1)] assms(2) by (auto simp: sane_def harmless_events_def)
  then show ?thesis using assms(3,4)
    by (auto simp: sane_def intro!: wpf_conseq [OF receive_sane(1)] wpf_conseq [OF receive_sane(2)])
qed

end
