(* ===== verification/Journey.thy ===== *)
theory Journey
  imports Network
begin

text \<open>
  The way of a content through the network, as steps of it: one node looks for peers, another one
  that provides what the first tracks links it and posts, and the first calls the callback.
\<close>

section \<open>Receiving, unrolled\<close>

text \<open>What \<open>uccn_process_incoming\<close> does after a packet has been processed for peer \<open>k\<close>.\<close>

definition send_answer :: "nat \<Rightarrow> int \<times> 'c sys \<Rightarrow> (int \<times> 'c sys) result" where
  "send_answer k = (\<lambda>(ret, s).
     if ret < 0 then Inr (ret, s)
     else if b_length (outgoing_buffer s) > 0 then
       rbind (arr_get (peers s) k) (\<lambda>p.
       let outgoing_packet = outgoing_buffer s;
           (nbytes, s) = sys_sendto (socket s) (p_address p) (b_contents outgoing_packet) s
       in
       rbind (c_assert (nbytes < 0 \<or> nbytes = int (b_length outgoing_packet))) (\<lambda>_.
       Inr (if nbytes < 0 then nbytes else 0, s)))
     else Inr (0, s))"

lemma incoming_unrolled:
  "uccn_process_incoming origin b s = rbind (uccn_register_peer origin s) (\<lambda>(peer, s).
     case peer of None \<Rightarrow> Inr (-1, s) | Some k \<Rightarrow> rbind (uccn_process_packet k b s) (send_answer k))"
  unfolding uccn_process_incoming_def send_answer_def ..

lemma send_answer_delivers:
  assumes "registered s" and "k < num_peers s" and "delivers (sendto s)"
  shows "\<exists>r t. send_answer k (ret, s) = Inr (r, t) \<and> sends_only s t \<and> set (trace s) \<subseteq> set (trace t)"
proof -
  have k: "k < length (peers s)" using peer_bound [OF assms(1,2)] by simp
  obtain n t where send: "sys_sendto (socket s) (p_address (peers s ! k)) (b_contents (outgoing_buffer s)) s = (n, t)"
    by fastforce
  have len: "b_length (outgoing_buffer s) = length (b_contents (outgoing_buffer s))"
    using assms(1) by (simp add: registered_def wf_node_def wf_buffer_def b_contents_def)
  have "n = int (length (b_contents (outgoing_buffer s)))" "set (trace s) \<subseteq> set (trace t)"
    using send sendto_delivers [OF assms(3), of "socket s" "p_address (peers s ! k)" "b_contents (outgoing_buffer s)"]
    by auto
  then show ?thesis
    using k len sends_only_sendto [OF send] by (simp add: send_answer_def send)
qed

text \<open>
  A packet that arrives from another address than the node's own, while the table of peers has room.
\<close>

lemma receive_run:
  fixes s :: "'c sys"
  assumes "registered s" and "clock_works (clock_gettime s)" and "num_peers s < CONFIG_UCCN_MAX_NUM_PEERS"
    and "origin \<noteq> address s" and "length bs \<le> 512"
  obtains k u b d where "registered u" and "k < num_peers u" and "p_address (peers u ! k) = origin"
    and "b_contents b = bs" and "trace u = trace s" and "trackers u = trackers s" and "providers u = providers s"
    and "num_trackers u = num_trackers s" and "num_providers u = num_providers s" and "resources u = resources s"
    and "sendto u = sendto s" and "mutex_locked u = mutex_locked s" and "content_buffer u = content_buffer s"
    and "(\<And>i. i < num_peers s \<Longrightarrow> p_address (peers s ! i) \<noteq> origin) \<Longrightarrow> peers u ! k = new_peer origin d"
    and "uccn_process_incoming_unicast (receive origin bs s) = rbind (uccn_process_packet k b u) (send_answer k)"
    and "uccn_process_incoming_broadcast (receive origin bs s) = rbind (uccn_process_packet k b u) (send_answer k)"
proof -
  let ?d = "take (length (b_data (incoming_buffer s))) bs"
  let ?b = "(incoming_buffer s)\<lparr>b_data := ?d @ drop (length ?d) (b_data (incoming_buffer s)), b_length := length ?d\<rparr>"
  let ?s = "s\<lparr>recvfrom := \<lambda>_ _. Recv origin bs, recvfrom_calls := recvfrom_calls s + 1, incoming_buffer := ?b\<rparr>"
  have size: "length (b_data (incoming_buffer s)) = 512"
    using assms(1) by (simp add: registered_def wf_node_def wf_buffer_def config_simps)
  then have b: "b_contents ?b = bs" using assms(5) by (simp add: b_contents_def min_def)
  have r: "registered ?s"
    using assms(1) size by (simp add: registered_def wf_node_def wf_buffer_def hash_table_def resource_of_def config_simps)
  have recv: "sys_recvfrom fd (receive origin bs s) = (Recv origin ?d, ?s\<lparr>incoming_buffer := (incoming_buffer s)\<lparr>b_data := b_data ?b\<rparr>\<rparr>)" for fd
    by (simp add: sys_recvfrom_def receive_def Let_def)
  have other: "\<not> same_sockaddr_in origin (address s)" using assms(4) by (simp add: same_sockaddr_in_eq)
  have cast: "uccn_process_incoming_unicast (receive origin bs s) = uccn_process_incoming origin ?b ?s"
    "uccn_process_incoming_broadcast (receive origin bs s) = uccn_process_incoming origin ?b ?s"
    using other by (simp_all add: uccn_process_incoming_unicast_def uccn_process_incoming_broadcast_def recv Let_def)
  obtain c t v where clock: "sys_clock ?s = (c, t, v)" by (cases "sys_clock ?s")
  have v: "c = 0" "v = ?s\<lparr>clock_calls := clock_calls s + 1\<rparr>"
    using sys_clock_works [OF _ clock] assms(2) by simp_all
  let ?deadline = "timespec_add t g_uccn_liveliness_timeout"
  have wf: "wf_node ?s" using r by (simp add: registered_def)
  have room: "num_peers ?s < CONFIG_UCCN_MAX_NUM_PEERS" using assms(3) by simp
  obtain k u where reg: "uccn_register_peer origin ?s = Inr (Some k, u)" and u: "u = v\<lparr>peers := peers u, num_peers := num_peers u\<rparr>"
    and new: "(\<And>i. i < num_peers s \<Longrightarrow> p_address (peers s ! i) \<noteq> origin) \<Longrightarrow> peers u ! k = new_peer origin ?deadline"
  proof (cases rule: uccn_register_peer_cases [OF wf room clock, of origin])
    case 1
    then show ?case using v(1) by simp
  next
    case (2 i)
    then show ?thesis using that by auto
  next
    case 3
    have "num_peers s < length (peers s)" using assms(1,3) by (simp add: registered_def wf_node_def wf_peers_def)
    then show ?thesis using 3 that by auto
  qed
  have keeps: "registered u" "k < num_peers u" "p_address (peers u ! k) = origin"
    using wpf_InrD [OF uccn_register_peer_keeps [OF r, of origin] reg] by simp_all
  have same: "trace u = trace s" "trackers u = trackers s" "providers u = providers s"
    "num_trackers u = num_trackers s" "num_providers u = num_providers s" "resources u = resources s"
    "sendto u = sendto s" "mutex_locked u = mutex_locked s" "content_buffer u = content_buffer s"
    by (subst u, simp add: v(2))+
  have run: "uccn_process_incoming origin ?b ?s = rbind (uccn_process_packet k ?b u) (send_answer k)"
    by (subst incoming_unrolled, subst reg) simp
  show thesis
    by (rule that [OF keeps b same new cast [unfolded run]])
qed

section \<open>The four stages\<close>

text \<open>A node looks for peers.\<close>

lemma discover_run:
  assumes "registered s" and "delivers (sendto s)"
  obtains t name where "uccn_discover_peers s = Inr (0, t)" and "registered t" and "frame s t"
    and "trackers t = trackers s" and "num_peers t = num_peers s" and "length name < 64" and "0 \<notin> set name"
    and "Sent (socket s) (broadcast_address s) (link_packet name UCCN_TRACKED_ARRAY (idle_hashes s)) \<in> set (trace t)"
proof -
  have wf: "wf_node s" using assms(1) by (simp add: registered_def)
  obtain name where name: "c_string (node_name s) = Inr name" "length name < 64" "0 \<notin> set name"
    using node_name_string [OF wf] .
  have "b_size (outgoing_buffer s) = CONFIG_UCCN_OUTGOING_BUFFER_SIZE"
    using wf by (simp add: wf_node_def wf_buffer_def b_size_def)
  then obtain packet where p: "uccn_prepare_discovery_packet s (outgoing_buffer s) = Inr (0, packet)"
      "b_contents packet = link_packet name UCCN_TRACKED_ARRAY (idle_hashes s)"
      "b_size packet = b_size (outgoing_buffer s)" "b_length packet \<le> 130"
    using discovery_packet_contents [OF wf name(1)] by blast
  have size: "b_size (outgoing_buffer s) = 512"
    using wf by (simp add: wf_node_def wf_buffer_def b_size_def config_simps)
  have len: "b_length packet = length (b_contents packet)"
    using p(3,4) size by (simp add: b_contents_def b_size_def)
  let ?t = "s\<lparr>outgoing_buffer := packet, sendto_calls := sendto_calls s + 1,
    trace := trace s @ [Sent (socket s) (broadcast_address s) (b_contents packet)]\<rparr>"
  have run: "uccn_discover_peers s = Inr (0, ?t)"
    using assms(2) len by (simp add: uccn_discover_peers_def p(1) sendto_delivers c_assert_def)
  show thesis
  proof (rule that [OF run _ _ _ _ name(2,3)])
    show "registered ?t" using uccn_discover_peers_keeps [OF assms(1)] by (simp add: run)
  qed (use p(2) in \<open>simp_all add: frame_def\<close>)
qed

text \<open>
  A node that provides some of what another, unknown one tracks hears it looking for peers, and
  links it to the providers concerned.
\<close>

lemma heard_run:
  assumes "registered s" and "delivers (sendto s)" and "clock_works (clock_gettime s)"
    and "num_peers s < CONFIG_UCCN_MAX_NUM_PEERS" and "origin \<noteq> address s"
    and "\<And>i. i < num_peers s \<Longrightarrow> p_address (peers s ! i) \<noteq> origin"
    and "length name < 64" and "0 \<notin> set name"
    and "distinct hs" and "0 \<notin> set hs" and "length hs \<le> 10" and "content_hash hs \<noteq> 0"
    and "\<And>i. i < num_providers s \<Longrightarrow> \<not> is_full (providers s ! i)"
  obtains r t k where "uccn_process_incoming_broadcast (receive origin (link_packet name UCCN_TRACKED_ARRAY hs) s) = Inr (r, t)"
    and "registered t" and "frame s (t\<lparr>recvfrom := recvfrom s\<rparr>)" and "same_endpoints (providers s) (providers t)"
    and "p_address (peers t ! k) = origin"
    and "\<And>i. i < num_providers s \<Longrightarrow> res_hash (resource_of s (providers s ! i)) \<in> set hs \<Longrightarrow> has_link k (providers t ! i)"
proof -
  let ?bs = "link_packet name UCCN_TRACKED_ARRAY hs"
  have fits: "length ?bs \<le> 512" using length_link_packet [OF assms(7,11)] by (rule le_trans) simp
  obtain k u b d where u: "registered u" "k < num_peers u" "p_address (peers u ! k) = origin" "providers u = providers s"
      "num_providers u = num_providers s" "resources u = resources s" "sendto u = sendto s"
    and b: "b_contents b = ?bs" and new: "peers u ! k = new_peer origin d"
    and run: "uccn_process_incoming_broadcast (receive origin ?bs s) = rbind (uccn_process_packet k b u) (send_answer k)"
    using receive_run [OF assms(1,3,4,5) fits] assms(6) by metis
  have wf: "wf_node u" using u(1) by (simp add: registered_def)
  obtain me where me: "c_string (node_name u) = Inr me" using node_name_string [OF wf] by blast
  have other: "tracked_content_hash (peers u ! k) \<noteq> content_hash hs" using assms(12) by (simp add: new new_peer_def)
  have full: "\<forall>i<num_providers u. is_full (providers u ! i) \<longrightarrow> has_link k (providers u ! i)"
    using assms(13) u(4,5) by simp
  from process_discovery [OF u(1,2) assms(7-11) b other full me]
  obtain r v where packet: "uccn_process_packet k b u = Inr (r, v)"
    and links: "\<And>i. i < num_providers u \<Longrightarrow> res_hash (resource_of u (providers u ! i)) \<in> set hs \<Longrightarrow> has_link k (providers v ! i)"
    by (auto simp: wpf_total)
  have "keeps u v" "frame u v"
    using process_packet_keeps [OF u(1,2) unpack_safe_UNIV UNIV_I, of b] frame_process_packet [of k b u]
    by (simp_all add: packet)
  then have v: "registered v" "num_peers v = num_peers u" "same_endpoints (providers s) (providers v)"
      "map p_address (peers v) = map p_address (peers u)" "sendto v = sendto s"
    using u(4,7) frame_fields(9) [OF \<open>frame u v\<close>] by (simp_all add: keeps_def)
  obtain r' t where answer: "send_answer k (r, v) = Inr (r', t)" and t: "sends_only v t"
    using send_answer_delivers [OF v(1), of k r] v(2,5) u(2) assms(2) by auto
  have k: "k < length (peers u)" using peer_bound [OF u(1,2)] by simp
  have "map p_address (peers t) = map p_address (peers u)" using sends_only_fields(11) [OF t] v(4) by simp
  then have addr: "p_address (peers t ! k) = origin" using k u(3) by (metis length_map nth_map)
  have run': "uccn_process_incoming_broadcast (receive origin ?bs s) = Inr (r', t)" by (simp add: run packet answer)
  have "frame (receive origin ?bs s) t" using frame_process_incoming_cast(2) [of "receive origin ?bs s"] by (simp add: run')
  then have frame: "frame s (t\<lparr>recvfrom := recvfrom s\<rparr>)" by (simp add: frame_def receive_def)
  have res: "resource_of u ep = resource_of s ep" for ep :: provider by (simp add: resource_of_def u(6))
  show thesis
    by (rule that [OF run' registered_sends_only [OF v(1) t] frame _ addr])
      (use v(3) links u(4,5) sends_only_fields(5) [OF t] res in simp_all)
qed

text \<open>A node posts a content with a provider that some peer is linked to.\<close>

lemma posted_run:
  assumes "registered s" and "delivers (sendto s)" and "clock_works (clock_gettime s)"
    and "p < num_providers s" and "\<not> mutex_locked s"
    and "res_pack (resource_of s (providers s ! p)) content (Some (content_buffer s)) = Inr (ret, packed, Some blob)"
    and "0 \<le> c_int ret" and "b_length blob \<le> b_size blob" and "b_length blob \<le> 500"
    and "has_link k (providers s ! p)"
  obtains r t where "uccn_post p content s = Inr (r, t)" and "address t = address s"
    and "Sent (socket s) (p_address (peers s ! k))
      (content_packet (res_hash (resource_of s (providers s ! p))) (b_contents blob)) \<in> set (trace t)"
proof -
  have wf: "wf_node s" using assms(1) by (simp add: registered_def)
  have send: "datagrams (sendto s)" using assms(2) by (simp add: datagrams_def delivers_def)
  have k: "k \<in> set (linked_peers (providers s ! p))"
    using assms(10) by (force simp: linked_peers_def has_link_def)
  then have "linked_peers (providers s ! p) \<noteq> []" by auto
  from post_deliveries [OF wf assms(4,5) send assms(3,6-9) this]
  obtain r t where run: "uccn_post p content s = Inr (r, t)" "address t = address s"
    and trace: "trace t = trace s @ deliveries s (content_packet (res_hash (resource_of s (providers s ! p))) (b_contents blob))
      (linked_peers (providers s ! p))"
    by (auto simp: wpf_total)
  have all: "reached (sendto s) c n ks = ks" for c n ks
    using assms(2) by (induction ks arbitrary: c) (simp_all add: delivers_def)
  show thesis by (rule that [OF run]) (use k in \<open>simp add: trace deliveries_def all\<close>)
qed

text \<open>A node receives a content that it tracks.\<close>

lemma arrived_run:
  assumes "registered s" and "delivers (sendto s)" and "clock_works (clock_gettime s)"
    and "num_peers s < CONFIG_UCCN_MAX_NUM_PEERS" and "origin \<noteq> address s"
    and "hash \<noteq> 0" and "bs \<noteq> []" and "length bs \<le> 500"
    and "i < num_trackers s" and "res_hash (resource_of s (trackers s ! i)) = hash"
    and "res_unpack (resource_of s (trackers s ! i)) (raw_buffer bs) None = Inr (ret, content)" and "0 \<le> c_int ret"
  obtains r t where "uccn_process_incoming_unicast (receive origin (content_packet hash bs) s) = Inr (r, t)"
    and "Tracked i (tr_track (trackers s ! i)) (tr_arg (trackers s ! i)) content \<in> set (trace t)"
proof -
  have fits: "length (content_packet hash bs) \<le> 512" using length_content_packet [of bs hash] assms(8) by simp
  obtain k u b where u: "registered u" "k < num_peers u" "trackers u = trackers s" "num_trackers u = num_trackers s"
      "resources u = resources s" "sendto u = sendto s"
    and b: "b_contents b = content_packet hash bs"
    and run: "uccn_process_incoming_unicast (receive origin (content_packet hash bs) s) =
      rbind (uccn_process_packet k b u) (send_answer k)"
    using receive_run [OF assms(1,3,4,5) fits] by metis
  have len: "length bs < 2 ^ 32" using assms(8) by simp
  have i: "i < num_trackers u" "resource_of u (trackers u ! i) = resource_of s (trackers s ! i)"
    using assms(9) u(3-5) by (simp_all add: resource_of_def)
  from content_run [OF u(1,2) assms(6,7) len b i(1), unfolded i(2), OF assms(10-12)]
  obtain r v where packet: "uccn_process_packet k b u = Inr (r, v)"
    and trace: "Tracked i (tr_track (trackers s ! i)) (tr_arg (trackers s ! i)) content \<in> set (trace v)"
    by (auto simp: wpf_total u(3))
  have "keeps u v" "frame u v"
    using process_packet_keeps [OF u(1,2) unpack_safe_UNIV UNIV_I, of b] frame_process_packet [of k b u]
    by (simp_all add: packet)
  then have v: "registered v" "k < num_peers v" "delivers (sendto v)"
    using u(2,6) assms(2) frame_fields(9) [OF \<open>frame u v\<close>] by (simp_all add: keeps_def)
  from send_answer_delivers [OF this, of r] obtain r' t where "send_answer k (r, v) = Inr (r', t)" "set (trace v) \<subseteq> set (trace t)"
    by blast
  then show thesis using trace by (intro that [of r' t]) (auto simp: run packet)
qed

section \<open>The journey\<close>

text \<open>
  C1: Publishing and subscribing work end to end: if a node \<open>a\<close> has a tracker without peers, and a
  node \<open>b\<close> that does not know \<open>a\<close> yet has a provider of the same hash, the network can go, from any
  state in which both are in order and have room for another peer, to one where the callback of
  \<open>a\<close>'s tracker has been called with the content that \<open>b\<close> posts, as \<open>a\<close>'s resource unpacks it.
\<close>

theorem content_reaches_tracker:
  assumes "a \<noteq> b" and "registered (net a)" and "registered (net b)" and "\<not> mutex_locked (net b)"
    and "delivers (sendto (net a))" and "delivers (sendto (net b))"
    and "clock_works (clock_gettime (net a))" and "clock_works (clock_gettime (net b))"
    and "num_peers (net a) < CONFIG_UCCN_MAX_NUM_PEERS" and "num_peers (net b) < CONFIG_UCCN_MAX_NUM_PEERS"
    and "address (net a) \<noteq> address (net b)" and "broadcast_address (net a) = broadcast_address (net b)"
    and "\<And>k. k < num_peers (net b) \<Longrightarrow> p_address (peers (net b) ! k) \<noteq> address (net a)"
    and "\<And>j. j < num_providers (net b) \<Longrightarrow> \<not> is_full (providers (net b) ! j)"
    and "0 \<notin> set (idle_hashes (net a))" and "content_hash (idle_hashes (net a)) \<noteq> 0"
    and "i < num_trackers (net a)" and "ep_num_peers (trackers (net a) ! i) = 0"
    and "p < num_providers (net b)"
    and "res_hash (resource_of (net b) (providers (net b) ! p)) = res_hash (resource_of (net a) (trackers (net a) ! i))"
    and "res_pack (resource_of (net b) (providers (net b) ! p)) content (Some (content_buffer (net b))) =
      Inr (ret, packed, Some blob)"
    and "0 \<le> c_int ret" and "b_length blob \<le> b_size blob" and "0 < b_length blob" and "b_length blob \<le> 500"
    and "res_unpack (resource_of (net a) (trackers (net a) ! i)) (raw_buffer (b_contents blob)) None = Inr (ret', content')"
    and "0 \<le> c_int ret'"
  shows "\<exists>net'. net_step\<^sup>*\<^sup>* net net' \<and>
    Tracked i (tr_track (trackers (net a) ! i)) (tr_arg (trackers (net a) ! i)) content' \<in> set (trace (net' a))"
proof -
  let ?h = "res_hash (resource_of (net a) (trackers (net a) ! i))"
  have wf: "wf_node (net a)" using assms(2) by (simp add: registered_def)
  obtain s1 name where run1: "uccn_discover_peers (net a) = Inr (0, s1)" and r1: "registered s1" and f1: "frame (net a) s1"
    and same1: "trackers s1 = trackers (net a)" "num_peers s1 = num_peers (net a)"
    and name: "length name < 64" "0 \<notin> set name"
    and sent1: "Sent (socket (net a)) (broadcast_address (net a)) (link_packet name UCCN_TRACKED_ARRAY (idle_hashes (net a))) \<in> set (trace s1)"
    using discover_run [OF assms(2,5)] by metis
  let ?net1 = "net(a := s1)"
  have step1: "net_step net ?net1" by (rule net_step.own [of net a s1, OF own_step.discover [OF run1]])
  have addr: "address s1 = address (net a)" using frame_fields(10) [OF f1] .
  obtain r t k where run2: "uccn_process_incoming_broadcast (receive (address (net a))
        (link_packet name UCCN_TRACKED_ARRAY (idle_hashes (net a))) (net b)) = Inr (r, t)"
    and r2: "registered t" and f2: "frame (net b) (t\<lparr>recvfrom := recvfrom (net b)\<rparr>)"
    and eps: "same_endpoints (providers (net b)) (providers t)"
    and k: "p_address (peers t ! k) = address (net a)"
    and linked: "\<And>j. j < num_providers (net b) \<Longrightarrow>
      res_hash (resource_of (net b) (providers (net b) ! j)) \<in> set (idle_hashes (net a)) \<Longrightarrow> has_link k (providers t ! j)"
    using heard_run [OF assms(3,6,8,10) assms(11) assms(13) name distinct_idle_hashes [OF assms(2)]
        assms(15) length_idle_hashes [OF wf] assms(16,14)] by metis
  let ?net2 = "?net1(b := t)"
  have step2: "net_step ?net1 ?net2"
    using sent1 run2 assms(1,12) addr by (intro net_step.broadcast [where j = a]) simp_all
  have p: "ep_resource (providers t ! p) = ep_resource (providers (net b) ! p)"
    using assms(3,19) same_endpoints_nth [OF eps, of p] by (auto simp: registered_def wf_node_def wf_endpoints_def)
  have same2: "num_providers t = num_providers (net b)" "resources t = resources (net b)" "sendto t = sendto (net b)"
    "clock_gettime t = clock_gettime (net b)" "mutex_locked t = mutex_locked (net b)" "address t = address (net b)"
    "content_buffer t = content_buffer (net b)" "resource_of t (providers t ! p) = resource_of (net b) (providers (net b) ! p)"
    using f2 p by (simp_all add: frame_def resource_of_def)
  have "?h \<in> set (idle_hashes (net a))" using idle_hashes_iff [OF assms(2,17)] assms(18) by simp
  then have h: "?h \<noteq> 0" "has_link k (providers t ! p)" using assms(15,19,20) linked by auto
  obtain r' u where run3: "uccn_post p content t = Inr (r', u)" "address u = address (net b)"
    and sent3: "Sent (socket t) (address (net a)) (content_packet ?h (b_contents blob)) \<in> set (trace u)"
    by (rule posted_run [of t p content ret packed blob k, unfolded same2 k assms(20),
          OF r2 assms(6,8,19,4,21-23,25) h(2)])
  let ?net3 = "?net2(b := u)"
  have step3: "net_step ?net2 ?net3"
    using run3(1) by (intro net_step.own own_step.post) simp
  have len: "length (b_contents blob) = b_length blob" using assms(23) by (simp add: b_contents_def b_size_def)
  have bytes: "b_contents blob \<noteq> []" "length (b_contents blob) \<le> 500" using len assms(24,25) by auto
  have works: "delivers (sendto s1)" "clock_works (clock_gettime s1)" "num_peers s1 < CONFIG_UCCN_MAX_NUM_PEERS"
    "address u \<noteq> address s1" "i < num_trackers s1" "resource_of s1 (trackers s1 ! i) = resource_of (net a) (trackers (net a) ! i)"
    using assms(5,7,9,11,17) frame_fields [OF f1] same1 run3(2) by (simp_all add: resource_of_def)
  obtain r'' v where run4: "uccn_process_incoming_unicast (receive (address u) (content_packet ?h (b_contents blob)) s1) = Inr (r'', v)"
    and tracked: "Tracked i (tr_track (trackers (net a) ! i)) (tr_arg (trackers (net a) ! i)) content' \<in> set (trace v)"
    using arrived_run [OF r1 works(1-4) h(1) bytes works(5), unfolded works(6), OF refl assms(26,27)] same1 by metis
  have step4: "net_step ?net3 (?net3(a := v))"
    using sent3 run4 assms(1) addr by (intro net_step.unicast [where j = b]) simp_all
  have "net_step\<^sup>*\<^sup>* net (?net3(a := v))"
    using step1 step2 step3 step4 by (meson converse_rtranclp_into_rtranclp rtranclp.rtrancl_refl)
  then show ?thesis using tracked by (intro exI [of _ "?net3(a := v)"]) simp
qed

end
