(* ===== verification/Overruns.thy ===== *)
theory Overruns
  imports Network
begin

text \<open>
  Where the code leaves its arrays: names that fill their field, more resources than the tables have
  slots, and link packets with more hashes than the one array that both of their lists share.
\<close>

section \<open>Names\<close>

text \<open>
  The initialisation accepts a name of 64 or more characters and cuts it off without a
  terminating zero: the first discovery packet of such a node reads past the field.
\<close>

theorem long_name_overruns:
  assumes "uccn_node_init an network name s = (ret, s')" and "ret \<ge> 0"
    and "CONFIG_UCCN_MAX_NODE_NAME_SIZE \<le> length name" and "0 \<notin> set name"
  shows "ret = 0 \<and> uccn_discover_peers s' = Inl Out_Of_Bounds"
proof -
  obtain addr ev where run: "ret = 0"
      "s' = sync_done ev \<lparr>pipe_pending = 0, pipe_capacity = an_capacity an\<rparr> (init_fields network name
        (s\<lparr>broadcast_socket := an_broadcast_socket an, socket := an_socket an, address := addr\<rparr>))"
    by (rule node_init_done [OF assms(1,2)])
  have "node_name s' = c_strncpy CONFIG_UCCN_MAX_NODE_NAME_SIZE name"
    by (simp add: run(2) sync_done_def init_fields_def)
  then have "c_string (node_name s') = Inl Out_Of_Bounds"
    using c_string_c_strncpy_overrun [OF assms(4,3)] by simp
  then show ?thesis
    using run(1) by (simp add: uccn_discover_peers_def uccn_prepare_discovery_packet_def mpack_write_cstr_def Let_def)
qed

section \<open>Tables\<close>

text \<open>
  C35: Registering a further resource with a full table writes past the table: neither
  \<open>uccn_track\<close> nor \<open>uccn_advertise\<close> looks at the capacity.
\<close>

theorem full_tables_overrun:
  assumes "registered s" and "\<not> mutex_locked s"
    and "num_trackers s = CONFIG_UCCN_MAX_NUM_TRACKERS" and "num_providers s = CONFIG_UCCN_MAX_NUM_PROVIDERS"
    and "res_hash (resources s r) \<notin> (\<lambda>t. res_hash (resource_of s t)) ` set (take (num_trackers s) (trackers s))"
    and "res_hash (resources s r) \<notin> (\<lambda>p. res_hash (resource_of s p)) ` set (take (num_providers s) (providers s))"
  shows "uccn_track r f a s = Inl Out_Of_Bounds \<and> uccn_advertise r s = Inl Out_Of_Bounds"
proof -
  have wf: "wf_node s" using assms(1) by (simp add: registered_def)
  have len: "num_trackers s \<le> length (trackers s)" "num_providers s \<le> length (providers s)"
    using wf by (simp_all add: wf_node_def wf_endpoints_def)
  have t: "res_hash (resource_of s (trackers s ! i)) \<noteq> res_hash (resources s r)" if "i < num_trackers s" for i
    using assms(5) that len(1) nth_mem [of i "take (num_trackers s) (trackers s)"] by (auto simp: image_iff)
  have p: "res_hash (resource_of s (providers s ! i)) \<noteq> res_hash (resources s r)" if "i < num_providers s" for i
    using assms(6) that len(2) nth_mem [of i "take (num_providers s) (providers s)"] by (auto simp: image_iff)
  from wf assms(2) have "uccn_track r f a s = Inl Out_Of_Bounds"
  proof (cases rule: uccn_track_cases [where r = r and f = f and a = a])
    case (same i)
    then show ?thesis using t by (auto simp: resource_of_def)
  qed (use t assms(3) in auto)
  moreover from wf assms(2) have "uccn_advertise r s = Inl Out_Of_Bounds"
  proof (cases rule: uccn_advertise_cases [where r = r])
    case (same i)
    then show ?thesis using p by (auto simp: resource_of_def)
  qed (use p assms(4) in auto)
  ultimately show ?thesis ..
qed

section \<open>Link packets\<close>

text \<open>A link packet with both arrays, as the library itself would write it.\<close>

definition both_arrays :: "bytes \<Rightarrow> u32 list \<Rightarrow> u32 list \<Rightarrow> item list" where
  "both_arrays name provided tracked =
     [Item_Map 1, Item_U8 UCCN_LINK_GROUP, Item_Map 3, Item_U8 UCCN_NODE_NAME, Item_Str name,
      Item_U8 UCCN_PROVIDED_ARRAY, Item_Array (word_of_nat (length provided))] @ map Item_U32 provided @
     [Item_U8 UCCN_TRACKED_ARRAY, Item_Array (word_of_nat (length tracked))] @ map Item_U32 tracked"

lemma read_hashes_overflow:
  assumes "0 \<notin> set hs" and "length acc \<le> CONFIG_UCCN_MAX_NUM_RESOURCES"
    and "CONFIG_UCCN_MAX_NUM_RESOURCES < length acc + length hs"
  shows "for_loop read_hash_body j (j + length hs) (False, reading (enc_items (map Item_U32 hs) @ rest), acc) = Inl Out_Of_Bounds"
  using assms
proof (induction hs arbitrary: j acc)
  case (Cons h hs)
  show ?case
  proof (cases "length acc < CONFIG_UCCN_MAX_NUM_RESOURCES")
    case True
    have "read_hash_body j (False, reading (enc_item (Item_U32 h) @ enc_items (map Item_U32 hs) @ rest), acc) =
        Inr (Continue (False, reading (enc_items (map Item_U32 hs) @ rest), acc @ [h]))"
      using Cons.prems True by (simp add: read_hash_body_def expect_u32_roundtrip push_def del: enc_item.simps)
    then show ?thesis using Cons.IH [of "acc @ [h]" "Suc j"] Cons.prems True
      by (simp add: for_loop_step del: enc_item.simps)
  next
    case False
    then have "read_hash_body j (False, reading (enc_item (Item_U32 h) @ enc_items (map Item_U32 hs) @ rest), acc) = Inl Out_Of_Bounds"
      using Cons.prems by (simp add: read_hash_body_def expect_u32_roundtrip push_def del: enc_item.simps)
    then show ?thesis by (simp add: for_loop_step del: enc_item.simps)
  qed
qed simp

lemma tracked_array_overflow:
  assumes "registered (lg_node g)" and "peer < num_peers (lg_node g)" and "0 \<notin> set hs"
    and "length (lg_hashes g) \<le> CONFIG_UCCN_MAX_NUM_RESOURCES" and "length hs \<le> CONFIG_UCCN_MAX_NUM_RESOURCES"
    and "CONFIG_UCCN_MAX_NUM_RESOURCES < length (lg_hashes g) + length hs"
    and "lg_reader g = reading (enc_item (Item_U8 UCCN_TRACKED_ARRAY) @
      enc_item (Item_Array (word_of_nat (length hs))) @ enc_items (map Item_U32 hs))"
  shows "link_group_body peer i g = Inl Out_Of_Bounds"
proof -
  have codes: "UCCN_TRACKED_ARRAY \<noteq> UCCN_NODE_NAME" "UCCN_TRACKED_ARRAY \<noteq> UCCN_PROVIDED_ARRAY"
    by (simp_all add: config_simps)
  have expect: "mpack_expect_array_max_or_nil (word_of_nat CONFIG_UCCN_MAX_NUM_RESOURCES)
      (reading (enc_item (Item_Array (word_of_nat (length hs))) @ enc_items (map Item_U32 hs))) =
      (True, word_of_nat (length hs), reading (enc_items (map Item_U32 hs)))"
    using small_count [OF assms(5)] by (simp add: expect_array_max del: enc_item.simps)
  show ?thesis
    using codes small_count [OF assms(5)] read_hashes_overflow [OF assms(3,4,6), of 0 "[]"]
    by (simp add: link_group_body_def assms(7) expect_u8_roundtrip expect del: enc_item.simps)
qed

text \<open>
  The turn that reads the provided hashes keeps them, whether or not it links for them.
\<close>

lemma provided_array_turn:
  assumes "registered (lg_node g)" and "peer < num_peers (lg_node g)" and "0 \<notin> set hs" and "distinct hs"
    and "length hs \<le> CONFIG_UCCN_MAX_NUM_RESOURCES" and "lg_hashes g = []" and "lg_tracked g = []"
    and "\<forall>i<num_trackers (lg_node g). is_full (trackers (lg_node g) ! i) \<longrightarrow> has_link peer (trackers (lg_node g) ! i)"
    and "lg_reader g = reading (enc_item (Item_U8 UCCN_PROVIDED_ARRAY) @
      enc_item (Item_Array (word_of_nat (length hs))) @ enc_items (map Item_U32 hs) @ rest)"
  shows "\<exists>g'. link_group_body peer i g = Inr (Continue g') \<and> lg_hashes g' = hs \<and> lg_reader g' = reading rest \<and>
    registered (lg_node g') \<and> peer < num_peers (lg_node g')"
proof -
  let ?s = "lg_node g"
  have wf: "wf_node ?s" using assms(1) by (simp add: registered_def)
  have k: "peer < length (peers ?s)" "peer < CONFIG_UCCN_MAX_NUM_PEERS" using peer_bound [OF assms(1,2)] by simp_all
  show ?thesis
  proof (cases "provided_content_hash (peers ?s ! peer) = content_hash hs")
    case True
    have codes: "UCCN_PROVIDED_ARRAY \<noteq> UCCN_NODE_NAME" by (simp add: config_simps)
    have "for_loop read_hash_body 0 (length hs) (False, reading (enc_items (map Item_U32 hs) @ rest), []) =
        Inr (False, reading rest, hs)"
      using read_hashes_ok [OF assms(3), of "[]" 0 rest] assms(5) by simp
    then have "link_group_body peer i g = Inr (Continue (g\<lparr>lg_reader := reading rest, lg_hashes := hs\<rparr>))"
      using k True small_count [OF assms(5)] codes
      by (simp add: link_group_body_def assms(6,9) expect_u8_roundtrip expect_array_max del: enc_item.simps)
    then show ?thesis using assms(1,2) by simp
  next
    case False
    let ?f = "\<lambda>p. p\<lparr>provided_content_hash := content_hash hs\<rparr>"
    obtain ret t where run: "relink uccn_unlink_trackers uccn_link_trackers ?f peer hs (length hs) ?s [] =
        Inr (ret, t, filter (matched ?s (num_trackers ?s) (trackers ?s)) hs, False)"
      using tracker_array.relink_ok [OF wf k(2) _ assms(4,5), where f = ?f] assms(8) by blast
    have "wpf {Out_Of_Bounds} (relink uccn_unlink_trackers uccn_link_trackers ?f peer hs (length hs) ?s [])
        (\<lambda>(ret, t, made, failed). keeps ?s t)"
      by (rule relink_keeps [OF assms(1,2) link_ops_keep(1) link_ops_keep(3)]) simp_all
    then have "keeps ?s t" by (simp add: run)
    then show ?thesis
      using link_group_provided [OF k(1) assms(3,6,7,5) False assms(9) run, of i] keepsD [of ?s t] assms(2) by simp
  qed
qed

text \<open>
  C34: A link packet that provides and tracks more than ten resources together writes past the local
  array that both lists of hashes go to, although each list alone is accepted.
\<close>

theorem link_arrays_overrun:
  assumes "registered s" and "peer < num_peers s" and "length name < 64" and "0 \<notin> set name"
    and "0 \<notin> set provided" and "distinct provided" and "0 \<notin> set tracked"
    and "length provided \<le> CONFIG_UCCN_MAX_NUM_RESOURCES" and "length tracked \<le> CONFIG_UCCN_MAX_NUM_RESOURCES"
    and "CONFIG_UCCN_MAX_NUM_RESOURCES < length provided + length tracked"
    and "\<forall>i<num_trackers s. is_full (trackers s ! i) \<longrightarrow> has_link peer (trackers s ! i)"
    and "b_contents incoming = enc_items (both_arrays name provided tracked)"
  shows "uccn_process_packet peer incoming s = Inl Out_Of_Bounds"
proof -
  let ?tracked = "enc_item (Item_U8 UCCN_TRACKED_ARRAY) @ enc_item (Item_Array (word_of_nat (length tracked))) @
      enc_items (map Item_U32 tracked)"
  let ?provided = "enc_item (Item_U8 UCCN_PROVIDED_ARRAY) @ enc_item (Item_Array (word_of_nat (length provided))) @
      enc_items (map Item_U32 provided) @ ?tracked"
  let ?names = "enc_item (Item_U8 UCCN_NODE_NAME) @ enc_item (Item_Str name) @ ?provided"
  let ?g = "\<lparr>lg_ret = 0, lg_reader = reading ?names, lg_node = s, lg_hashes = [], lg_provided = [],
      lg_tracked = [], lg_returned = False\<rparr>"
  let ?h = "?g\<lparr>lg_reader := reading ?provided, lg_node := named peer name s\<rparr>"
  have first: "link_group_body peer 0 ?g = Inr (Continue ?h)"
    using link_group_name [of ?g peer name ?provided 0] assms(1-4) by simp
  have named: "registered (named peer name s)" "num_peers (named peer name s) = num_peers s"
    using keepsD [OF registered_named [OF assms(1-3)]] by simp_all
  obtain g where second: "link_group_body peer 1 ?h = Inr (Continue g)" "lg_hashes g = provided"
      "lg_reader g = reading ?tracked" "registered (lg_node g)" "peer < num_peers (lg_node g)"
    using provided_array_turn [of ?h peer provided ?tracked 1] assms(2,5,6,8,11) named by (auto simp: named_def)
  have third: "link_group_body peer 2 g = Inl Out_Of_Bounds"
    using tracked_array_overflow [OF second(4,5) assms(7) _ assms(9) _ second(3)] second(2) assms(8,10) by simp
  have loop: "for_loop (link_group_body peer) 0 3 ?g = Inl Out_Of_Bounds"
    using for_loop_step [of 0 3 "link_group_body peer" ?g] for_loop_step [of 1 3 "link_group_body peer" ?h]
      for_loop_step [of 2 3 "link_group_body peer" g] first second(1) third
    by (simp del: enc_item.simps add: numeral_2_eq_2 [symmetric])
  have head: "mpack_expect_map_max_or_nil UCCN_MAX_NUM_LINK_DATA (reading (enc_item (Item_Map 3) @ ?names)) = (True, 3, reading ?names)"
    by (rule expect_map_max) (simp add: config_simps word_le_nat_alt)
  have group: "uccn_process_link_group peer (reading (enc_item (Item_Map 3) @ ?names)) w s = Inl Out_Of_Bounds" for w
    using loop by (simp add: uccn_process_link_group_def head del: enc_item.simps)
  have "enc_item (Item_Map 1) = [0x81]" by (simp add: mpack_encode_fixmap_def)
  then have bytes: "b_contents incoming = 0x81 # enc_item (Item_U8 UCCN_LINK_GROUP) @ enc_item (Item_Map 3) @ ?names"
    by (simp add: assms(12) both_arrays_def del: enc_item.simps)
  have "UCCN_LINK_GROUP \<noteq> UCCN_CONTENT_GROUP" by (simp add: config_simps)
  then show ?thesis
    by (simp add: one_group [OF bytes] process_packet_body_def expect_u8_roundtrip group del: enc_item.simps)
qed

end
