(* ===== verification/Network_Demo.thy ===== *)
theory Network_Demo
  imports Spin_Demo Journey Overruns
begin

text \<open>The theorems on the network and on overruns, at concrete nodes.\<close>

section \<open>Two nodes that have just started\<close>

definition demo_started :: "buffer sys" where
  "demo_started = snd (uccn_node_init demo_answers demo_network [110] demo_a)"

lemma demo_started_run: "uccn_node_init demo_answers demo_network [110] demo_a = (0, demo_started)"
  by (simp add: demo_started_def uccn_node_init_def demo_answers_def init_sync_def eventfd_init_def Let_def
      init_fields_def)

lemma node_memory_demo: "node_memory demo_a"
  by (simp add: node_memory_def demo_a_def demo_node_def demo_buffer_def)

lemma demo_a_trace: "trace demo_a = []"
  by (simp add: demo_a_def)

lemma started_demo [simp]: "started demo_started"
  unfolding started_def
  by (intro exI [of _ demo_answers] exI [of _ demo_network] exI [of _ "[110]"] exI [of _ demo_a])
    (simp add: demo_started_run node_memory_demo config_simps demo_a_trace)

lemma demo_started_fields [simp]:
  "sendto demo_started = (\<lambda>_ len. int len)" "resources demo_started = demo_resource"
  by (simp_all add: demo_started_def uccn_node_init_def demo_answers_def init_sync_def eventfd_init_def Let_def
      init_fields_def demo_a_def)

lemma demo_reachable: "\<exists>net fd addr bs. reachable net \<and> Sent fd addr bs \<in> set (trace (net (0 :: nat))) \<and>
  net 1 = demo_started"
proof -
  have start: "reachable (\<lambda>_ :: nat. demo_started)" by (rule reachable.start) simp
  have s: "registered demo_started" using reachable_sane [OF start] by (simp add: sane_def)
  obtain t name where "uccn_discover_peers demo_started = Inr (0, t)"
    and sent: "Sent (socket demo_started) (broadcast_address demo_started)
      (link_packet name UCCN_TRACKED_ARRAY (idle_hashes demo_started)) \<in> set (trace t)"
    by (rule discover_run [OF s]) simp
  then have "net_step (\<lambda>_. demo_started) ((\<lambda>_. demo_started)(0 := t))"
    by (intro net_step.own own_step.discover)
  then have "reachable ((\<lambda>_. demo_started)(0 := t))" using start by (rule reachable.step [rotated])
  then show ?thesis using sent by (intro exI [of _ "(\<lambda>_. demo_started)(0 := t)"]) auto
qed

theorem network_stays_in_order_witness:
  "\<exists>net. reachable net \<and> trace (net 0) \<noteq> [] \<and> registered (net 0) \<and> harmless_events (trace (net 0 :: buffer sys))"
proof -
  obtain net fd addr bs where net: "reachable (net :: nat \<Rightarrow> buffer sys)" "Sent fd addr bs \<in> set (trace (net 0))"
    using demo_reachable by blast
  show ?thesis using network_stays_in_order [OF net(1), of 0] net by (intro exI [of _ net]) auto
qed

theorem network_packets_are_safe_witness:
  "\<exists>(net :: nat \<Rightarrow> buffer sys) fd addr bs. reachable net \<and> Sent fd addr bs \<in> set (trace (net 0)) \<and>
    wpf {} (uccn_process_incoming_broadcast (receive (address (net 0)) bs (net 1))) (\<lambda>(ret, s). registered s)"
proof -
  obtain net fd addr bs where net: "reachable (net :: nat \<Rightarrow> buffer sys)" "Sent fd addr bs \<in> set (trace (net 0))"
    and one: "net 1 = demo_started"
    using demo_reachable by blast
  have "unpack_safe {} (resources (net 1))" "datagrams (sendto (net 1))" unfolding one by simp_all
  from network_packets_are_safe [OF net this] net show ?thesis by blast
qed

section \<open>A content on its way\<close>

text \<open>The first node tracks resource 1, the second one provides it and has another address.\<close>

definition demo_tracking :: "buffer sys" where
  "demo_tracking = demo_node [] [demo_tracker 1 []] []"

definition demo_providing :: "buffer sys" where
  "demo_providing = demo_b\<lparr>address := \<lparr>sin_addr = 0xC0A80002, sin_port = 40001\<rparr>\<rparr>"

definition demo_net :: "nat \<Rightarrow> buffer sys" where
  "demo_net i = (if i = 0 then demo_tracking else demo_providing)"

lemma demo_net_simps [simp]: "demo_net 0 = demo_tracking" "demo_net (Suc i) = demo_providing"
  by (simp_all add: demo_net_def)

lemma registered_tracking [simp]: "registered demo_tracking"
  by (auto simp: demo_tracking_def demo_slots_ok_def intro!: demo_registered)

lemma registered_providing [simp]: "registered demo_providing"
  using registered_demo(2) by (simp add: demo_providing_def registered_def wf_node_def hash_table_def resource_of_def)

lemma idle_tracking: "idle_hashes demo_tracking = [2]"
  by (simp add: demo_tracking_def idle_hashes_def resource_of_def)

lemma demo_tracking_eqs:
  "num_peers demo_tracking = 0" "num_trackers demo_tracking = 1" "trackers demo_tracking ! 0 = demo_tracker 1 []"
  "resources demo_tracking = demo_resource" "sendto demo_tracking = (\<lambda>_ len. int len)"
  "clock_gettime demo_tracking = (\<lambda>_. (0, at 10))" "address demo_tracking = \<lparr>sin_addr = 0xC0A80001, sin_port = 40000\<rparr>"
  "broadcast_address demo_tracking = \<lparr>sin_addr = 0xC0A800FF, sin_port = CONFIG_UCCN_PORT\<rparr>"
  by (simp_all add: demo_tracking_def demo_node_def)

lemma demo_providing_eqs:
  "num_peers demo_providing = 1" "num_providers demo_providing = 2" "\<not> mutex_locked demo_providing"
  "peers demo_providing ! 0 = demo_peer 3 12 11 0"
  "providers demo_providing ! 0 = demo_provider 1 []" "providers demo_providing ! 1 = demo_provider 3 []"
  "resources demo_providing = demo_resource" "sendto demo_providing = (\<lambda>_ len. int len)"
  "clock_gettime demo_providing = (\<lambda>_. (0, at 10))" "address demo_providing = \<lparr>sin_addr = 0xC0A80002, sin_port = 40001\<rparr>"
  "broadcast_address demo_providing = \<lparr>sin_addr = 0xC0A800FF, sin_port = CONFIG_UCCN_PORT\<rparr>"
  "content_buffer demo_providing = demo_buffer CONFIG_UCCN_MAX_CONTENT_SIZE"
  by (simp_all add: demo_providing_def demo_node_eqs) (simp_all add: demo_b_def demo_node_def)

theorem content_reaches_tracker_witness:
  "\<exists>net'. net_step\<^sup>*\<^sup>* demo_net net' \<and> Tracked 0 101 201 (Some (raw_buffer [1, 2, 3])) \<in> set (trace (net' 0))"
proof -
  have room: "\<not> is_full (providers demo_providing ! j)" if "j < 2" for j
    using that by (auto simp: less_2_cases_iff demo_providing_eqs [unfolded One_nat_def] is_full_def config_simps)
  show ?thesis
    using content_reaches_tracker [of 0 1 demo_net 0 0 "Some demo_content" 3 "Some (demo_buffer 256)" demo_content 3 "Some (raw_buffer [1, 2, 3])"]
      content_hash_demo room
    by (simp add: demo_tracking_eqs demo_providing_eqs idle_tracking resource_of_def config_simps raw_buffer_def)
qed

section \<open>Overruns\<close>

theorem long_name_overruns_witness:
  "\<exists>s'. uccn_node_init demo_answers demo_network (replicate 64 110) demo_a = (0, s') \<and>
    uccn_discover_peers s' = Inl Out_Of_Bounds"
proof -
  obtain ret s' where run: "uccn_node_init demo_answers demo_network (replicate 64 110) demo_a = (ret, s')"
    by (cases "uccn_node_init demo_answers demo_network (replicate 64 110) demo_a")
  moreover have "ret = 0"
    using run by (simp add: uccn_node_init_def demo_answers_def init_sync_def eventfd_init_def Let_def
        init_fields_def)
  ultimately show ?thesis
    using long_name_overruns [of demo_answers demo_network "replicate 64 110" demo_a ret s'] by (simp add: config_simps)
qed

text \<open>A node whose tables are full.\<close>

definition demo_full :: "buffer sys" where
  "demo_full = demo_node [] (map (\<lambda>r. demo_tracker r []) [0..<10]) (map (\<lambda>r. demo_provider r []) [0..<10])"

lemma registered_full [simp]: "registered demo_full"
  unfolding demo_full_def
  by (rule demo_registered) (simp_all add: demo_slots_ok_def list_all_iff upt_rec)

theorem full_tables_overrun_witness:
  "uccn_track 20 1 2 demo_full = Inl Out_Of_Bounds \<and> uccn_advertise 20 demo_full = Inl Out_Of_Bounds"
  by (rule full_tables_overrun [OF registered_full]) (simp_all add: demo_full_def config_simps resource_of_def upt_rec)

theorem link_arrays_overrun_witness:
  "uccn_process_packet 1 (raw_buffer (enc_items (both_arrays [110] [1, 2, 3, 4, 5, 6, 7, 8, 9, 10] [11]))) demo_a =
    Inl Out_Of_Bounds"
proof (rule link_arrays_overrun)
  show "\<forall>i<num_trackers demo_a. is_full (trackers demo_a ! i) \<longrightarrow> has_link 1 (trackers demo_a ! i)"
    by (auto simp: less_2_cases_iff demo_node_Suc is_full_def config_simps)
  show "b_contents (raw_buffer (enc_items (both_arrays [110] [1, 2, 3, 4, 5, 6, 7, 8, 9, 10] [11]))) =
      enc_items (both_arrays [110] [1, 2, 3, 4, 5, 6, 7, 8, 9, 10] [11])"
    by (simp add: b_contents_def raw_buffer_def)
qed (simp_all add: demo_node_eqs config_simps)

end
