(* ===== verification/Cpp_Node.thy ===== *)
theory Cpp_Node
  imports Spin Delivery
begin

text \<open>
  The C++ wrapper \<open>src/include/uccn/uccn.hpp\<close>: exceptions, the node class with the functions that it
  calls for tracked contents, providers, and the conversion of \<open>std::chrono\<close> times. The function that
  the constructor of \<open>raw_data\<close> calls is declared and not defined, and a parameter here. Not modelled
  are the templates of \<open>raw_provider::post\<close> for arrays, which assign a pointer to constant data to one
  to plain data and use a member \<open>length\<close> that vectors do not have; and the mutex of the wrapper, which
  is taken and given back within \<open>generic_track\<close>.
\<close>

section \<open>Exceptions\<close>

datatype exn = Logic_Error bytes | Runtime_Error bytes | Bad_Function_Call

text \<open>The result of a member function: an exception or a value.\<close>

type_synonym 'a outcome = "exn + 'a"

definition ascii :: "string \<Rightarrow> bytes" where
  "ascii = map of_char"

text \<open>The characters that \<open>c_str\<close> shows to C code.\<close>

definition c_str :: "bytes \<Rightarrow> bytes" where
  "c_str name = takeWhile (\<lambda>c. c \<noteq> 0) name"

section \<open>Networks\<close>

text \<open>The parser \<open>inet_aton\<close> of the C library is a parameter.\<close>

definition network_create :: "(bytes \<Rightarrow> u32 option) \<Rightarrow> bytes \<Rightarrow> bytes \<Rightarrow> uccn_network_s outcome" where
  "network_create inet_aton addr nmask =
     (case inet_aton (c_str addr) of
        None \<Rightarrow> Inl (Runtime_Error (addr @ ascii '' is not a valid IP address''))
      | Some a \<Rightarrow>
          (case inet_aton (c_str nmask) of
             None \<Rightarrow> Inl (Runtime_Error (nmask @ ascii '' is not a valid IP address''))
           | Some m \<Rightarrow> Inr \<lparr>inetaddr = a, netmask = m\<rparr>))"

text \<open>The constructor for addresses that are numbers already.\<close>

definition network_of :: "u32 \<Rightarrow> u32 \<Rightarrow> uccn_network_s" where
  "network_of addr nmask = \<lparr>inetaddr = addr, netmask = nmask\<rparr>"

section \<open>Resources\<close>

text \<open>\<open>uccn_raw_data_init\<close> is a parameter: what it makes of a path.\<close>

definition raw_data_create :: "(bytes \<Rightarrow> 'c resource result) \<Rightarrow> bytes \<Rightarrow> 'c resource result" where
  "raw_data_create raw_data_init path = raw_data_init (c_str path)"

definition record_create :: "('c \<Rightarrow> buffer) \<Rightarrow> (buffer \<Rightarrow> 'c) \<Rightarrow> bytes \<Rightarrow> 'c typesupport \<Rightarrow> 'c resource result" where
  "record_create as_buffer of_buffer path typesupport =
     uccn_record_init as_buffer of_buffer (c_str path) (Some typesupport)"

text \<open>What \<open>path\<close> makes of the characters of the C structure.\<close>

definition resource_path :: "'c resource \<Rightarrow> bytes result" where
  "resource_path c_resource = c_string (res_path c_resource)"

section \<open>Nodes\<close>

text \<open>
  The function objects that \<open>track\<close> wraps the user's functions in; a function is a number. What a
  call of one hands to the user's function is a value of \<open>function_call\<close>. A function on vectors comes
  with the size of an element, which is part of its type.
\<close>

datatype wrapper = Record_Function nat | Raw_Function nat | Data_Function nat | Vector_Function nat nat

datatype 'c function_call =
  Record_Call nat 'c
| Raw_Call nat "buffer option"
| Data_Call nat bytes nat
| Vector_Call nat "bytes list"

text \<open>
  The elements between two pointers, for elements of \<open>elem\<close> bytes each. Pointers to \<open>void\<close> count bytes, as the
  GNU compilers have it; the distance of two pointers that are not a number of elements apart is
  not defined.
\<close>

function chunks :: "nat \<Rightarrow> bytes \<Rightarrow> bytes list" where
  "chunks elem bs = (if elem = 0 \<or> bs = [] then [] else take elem bs # chunks elem (drop elem bs))"
  by auto
termination by (relation "measure (\<lambda>(elem, bs). length bs)") auto

declare chunks.simps [simp del]

definition vector_elements :: "nat \<Rightarrow> buffer \<Rightarrow> bytes list result" where
  "vector_elements elem b =
     rbind (blob_bytes b) (\<lambda>bs.
     if length bs mod elem = 0 then Inr (chunks elem bs) else Inl Out_Of_Bounds)"

definition run_wrapper :: "('c \<Rightarrow> buffer) \<Rightarrow> wrapper \<Rightarrow> 'c option \<Rightarrow> 'c function_call result" where
  "run_wrapper as_buffer w content =
     (case w of
        Record_Function f \<Rightarrow>
          (case content of None \<Rightarrow> Inl Null_Deref | Some c \<Rightarrow> Inr (Record_Call f c))
      | Raw_Function f \<Rightarrow> Inr (Raw_Call f (map_option as_buffer content))
      | Data_Function f \<Rightarrow>
          (case content of None \<Rightarrow> Inl Null_Deref
           | Some c \<Rightarrow> Inr (Data_Call f (b_data (as_buffer c)) (b_length (as_buffer c))))
      | Vector_Function f elem \<Rightarrow>
          (case content of None \<Rightarrow> Inl Null_Deref
           | Some c \<Rightarrow> rbind (vector_elements elem (as_buffer c)) (\<lambda>xs. Inr (Vector_Call f xs))))"

text \<open>
  The state of a node object: the C structure and the table of functions by hash, where an entry
  that is missing and one that holds an empty function are the same. The last two fields are the
  numbers that stand for the object and for its static member function
  \<open>generic_track_c_function\<close> in the C structure.
\<close>

record 'c cpp_node =
  c_node :: "'c sys"
  generic_track_cpp_functions :: "u32 \<Rightarrow> wrapper option"
  this :: nat
  c_function :: nat

definition node_create :: "init_answers \<Rightarrow> uccn_network_s \<Rightarrow> bytes \<Rightarrow> nat \<Rightarrow> nat \<Rightarrow> 'c sys \<Rightarrow>
    'c cpp_node outcome \<times> 'c sys" where
  "node_create an net name self f s =
     (let (ret, s) = uccn_node_init an net (c_str name) s in
      if ret < 0 then (Inl (Runtime_Error (ascii ''Failed to initialize '' @ [39] @ name @ [39] @ ascii '' node'')), s)
      else (Inr \<lparr>c_node = s, generic_track_cpp_functions = (\<lambda>_. None), this = self, c_function = f\<rparr>, s))"

text \<open>The destructor; what it prints, when it fails, is the last component.\<close>

definition node_destroy :: "(int \<Rightarrow> int) \<Rightarrow> int \<Rightarrow> 'c cpp_node \<Rightarrow> ('c sys \<times> bytes option) result" where
  "node_destroy close destroy n =
     (let (ret, s) = uccn_node_fini close destroy (c_node n) in
      if ret < 0 then
        rbind (c_string (node_name s)) (\<lambda>name.
        Inr (s, Some (ascii ''Failed to finalize '' @ [39] @ name @ [39] @ ascii '' node'')))
      else Inr (s, None))"

text \<open>A message about a resource quotes its path; the quotation mark has the code 39.\<close>

definition about_resource :: "string \<Rightarrow> 'c resource \<Rightarrow> exn result" where
  "about_resource what r =
     rbind (c_string (res_path r)) (\<lambda>path.
     Inr (Runtime_Error (ascii what @ [39] @ path @ [39] @ ascii '' resource'')))"

definition about_node :: "string \<Rightarrow> string \<Rightarrow> 'c cpp_node \<Rightarrow> exn result" where
  "about_node before behind n =
     rbind (c_string (node_name (c_node n))) (\<lambda>name.
     Inr (Runtime_Error (ascii before @ name @ ascii behind)))"

definition node_advertise :: "nat \<Rightarrow> 'c cpp_node \<Rightarrow> (nat outcome \<times> 'c cpp_node) result" where
  "node_advertise r n =
     rbind (uccn_advertise r (c_node n)) (\<lambda>(c_provider, s).
     let n = n\<lparr>c_node := s\<rparr> in
     case c_provider of
       None \<Rightarrow> rbind (about_resource ''Failed to advertise '' (resources s r)) (\<lambda>e. Inr (Inl e, n))
     | Some p \<Rightarrow> Inr (Inr p, n))"

definition generic_track :: "nat \<Rightarrow> wrapper \<Rightarrow> 'c cpp_node \<Rightarrow> (unit outcome \<times> 'c cpp_node) result" where
  "generic_track r w n =
     (let n = n\<lparr>generic_track_cpp_functions := (generic_track_cpp_functions n)(res_hash (resources (c_node n) r) := Some w)\<rparr> in
      rbind (uccn_track r (c_function n) (this n) (c_node n)) (\<lambda>(c_tracker, s).
      let n = n\<lparr>c_node := s\<rparr> in
      case c_tracker of
        None \<Rightarrow> rbind (about_resource ''Failed to track '' (resources s r)) (\<lambda>e. Inr (Inl e, n))
      | Some _ \<Rightarrow> Inr (Inr (), n)))"

definition node_track :: "nat \<Rightarrow> nat \<Rightarrow> 'c cpp_node \<Rightarrow> (unit outcome \<times> 'c cpp_node) result" where
  "node_track r f = generic_track r (Record_Function f)"

definition node_track_raw :: "nat \<Rightarrow> nat \<Rightarrow> 'c cpp_node \<Rightarrow> (unit outcome \<times> 'c cpp_node) result" where
  "node_track_raw r f = generic_track r (Raw_Function f)"

definition node_track_data :: "nat \<Rightarrow> nat \<Rightarrow> 'c cpp_node \<Rightarrow> (unit outcome \<times> 'c cpp_node) result" where
  "node_track_data r f = generic_track r (Data_Function f)"

definition node_track_vector :: "nat \<Rightarrow> nat \<Rightarrow> nat \<Rightarrow> 'c cpp_node \<Rightarrow> (unit outcome \<times> 'c cpp_node) result" where
  "node_track_vector r f elem = generic_track r (Vector_Function f elem)"

text \<open>The static member function that the C node calls for the tracker \<open>i\<close>.\<close>

definition generic_track_c_function ::
    "('c \<Rightarrow> buffer) \<Rightarrow> nat \<Rightarrow> 'c option \<Rightarrow> 'c cpp_node \<Rightarrow> 'c function_call outcome result" where
  "generic_track_c_function as_buffer i content n =
     rbind (arr_get (trackers (c_node n)) i) (\<lambda>tracker.
     case generic_track_cpp_functions n (res_hash (resource_of (c_node n) tracker)) of
       None \<Rightarrow> Inr (Inl Bad_Function_Call)
     | Some w \<Rightarrow> rbind (run_wrapper as_buffer w content) (\<lambda>call. Inr (Inr call)))"

definition node_stop :: "'c cpp_node \<Rightarrow> (unit outcome \<times> 'c cpp_node) result" where
  "node_stop n =
     (let (ret, s) = uccn_stop (c_node n); n = n\<lparr>c_node := s\<rparr> in
      if ret < 0 then
        rbind (c_string (node_name s)) (\<lambda>name.
        Inr (Inl (Runtime_Error (ascii ''Failed to stop '' @ [39] @ name @ [39] @ ascii '' node from spinning'')), n))
      else Inr (Inr (), n))"

section \<open>Providers\<close>

definition record_post :: "nat option \<Rightarrow> 'c \<Rightarrow> 'c cpp_node \<Rightarrow> (int outcome \<times> 'c cpp_node) result" where
  "record_post c_provider content n =
     (case c_provider of
        None \<Rightarrow> Inr (Inl (Logic_Error (ascii ''uninitialized record provider'')), n)
      | Some p \<Rightarrow>
          rbind (uccn_post p (Some content) (c_node n)) (\<lambda>(ret, s).
          let n = n\<lparr>c_node := s\<rparr> in
          if ret < 0 then
            rbind (arr_get (providers s) p) (\<lambda>provider.
            rbind (about_resource ''Failed to post content to '' (resource_of s provider)) (\<lambda>e. Inr (Inl e, n)))
          else Inr (Inr ret, n)))"

definition raw_post :: "(buffer \<Rightarrow> 'c) \<Rightarrow> nat option \<Rightarrow> buffer option \<Rightarrow> 'c cpp_node \<Rightarrow>
    (int outcome \<times> 'c cpp_node) result" where
  "raw_post of_buffer c_provider content n =
     (case c_provider of
        None \<Rightarrow> Inr (Inl (Logic_Error (ascii ''uninitialized raw content provider'')), n)
      | Some p \<Rightarrow>
          rbind (uccn_post p (map_option of_buffer content) (c_node n)) (\<lambda>(ret, s).
          let n = n\<lparr>c_node := s\<rparr> in
          if ret < 0 then
            rbind (arr_get (providers s) p) (\<lambda>provider.
            rbind (about_resource ''Failed to post content to '' (resource_of s provider)) (\<lambda>e. Inr (Inl e, n)))
          else Inr (Inr ret, n)))"

section \<open>Spinning\<close>

text \<open>
  A duration is its number of nanoseconds. \<open>duration_cast\<close> rounds towards zero, so that a negative
  duration becomes a time with a negative number of nanoseconds.
\<close>

definition c_timeout :: "int \<Rightarrow> timespec" where
  "c_timeout timeout =
     (let secs = timeout sdiv 1000000000; nsecs = timeout - secs * 1000000000 in
      \<lparr>tv_sec = secs, tv_nsec = nsecs\<rparr>)"

definition spun :: "'c cpp_node \<Rightarrow> (int \<times> 'c sys) result option \<Rightarrow> (unit outcome \<times> 'c cpp_node) result option" where
  "spun n = map_option (\<lambda>m. rbind m (\<lambda>(ret, s).
     let n = n\<lparr>c_node := s\<rparr> in
     if ret < 0 then rbind (about_node ''Failed to spin '' '' node'' n) (\<lambda>e. Inr (Inl e, n)) else Inr (Inr (), n)))"

definition node_spin_until :: "nat \<Rightarrow> nat \<Rightarrow> timespec \<Rightarrow> 'c cpp_node \<Rightarrow> (unit outcome \<times> 'c cpp_node) result option" where
  "node_spin_until fuel active timeout_time n = spun n (uccn_spin_until fuel active timeout_time (c_node n))"

definition node_spin_until_point :: "nat \<Rightarrow> nat \<Rightarrow> int \<Rightarrow> 'c cpp_node \<Rightarrow> (unit outcome \<times> 'c cpp_node) result option" where
  "node_spin_until_point fuel active timeout_time n = node_spin_until fuel active (c_timeout timeout_time) n"

definition node_spin :: "nat \<Rightarrow> nat \<Rightarrow> timespec option \<Rightarrow> 'c cpp_node \<Rightarrow> (unit outcome \<times> 'c cpp_node) result option" where
  "node_spin fuel active timeout n = spun n (uccn_spin fuel active timeout (c_node n))"

definition node_spin_for :: "nat \<Rightarrow> nat \<Rightarrow> int \<Rightarrow> 'c cpp_node \<Rightarrow> (unit outcome \<times> 'c cpp_node) result option" where
  "node_spin_for fuel active timeout n = node_spin fuel active (Some (c_timeout timeout)) n"

definition node_spin_forever :: "nat \<Rightarrow> nat \<Rightarrow> 'c cpp_node \<Rightarrow> (unit outcome \<times> 'c cpp_node) result option" where
  "node_spin_forever fuel active n = node_spin fuel active None n"

section \<open>Times\<close>

text \<open>
  A duration is handed to the C library as a time of as many nanoseconds; it is a normal time
  exactly when the duration is not negative, since the conversion rounds towards zero.
\<close>

theorem c_timeout_exact: "nanos (c_timeout t) = t \<and> (normal (c_timeout t) \<longleftrightarrow> t \<ge> 0)"
proof (cases "t \<ge> 0")
  case True
  then have "t sdiv 1000000000 = t div 1000000000" by (simp add: signed_divide_int_def sgn_if)
  then show ?thesis using True by (simp add: c_timeout_def nanos_def normal_def minus_div_mult_eq_mod)
next
  case False
  then have neg: "t sdiv 1000000000 = - ((- t) div 1000000000)" by (simp add: signed_divide_int_def sgn_if)
  have "t - - ((- t) div 1000000000) * 1000000000 = - ((- t) mod 1000000000)"
    using minus_div_mult_eq_mod [of "- t" 1000000000] by simp
  then have time: "c_timeout t = \<lparr>tv_sec = - ((- t) div 1000000000), tv_nsec = - ((- t) mod 1000000000)\<rparr>"
    by (simp add: c_timeout_def neg)
  have "- ((- t) div 1000000000) < 0 \<or> - ((- t) mod 1000000000) < 0"
    using False div_mult_mod_eq [of "- t" 1000000000] pos_mod_sign [of 1000000000 "- t"] by linarith
  then have "\<not> normal (c_timeout t)" unfolding time normal_def timespec.simps by linarith
  moreover have "nanos (c_timeout t) = t"
    using div_mult_mod_eq [of "- t" 1000000000] unfolding time nanos_def timespec.simps by linarith
  ultimately show ?thesis using False by simp
qed

text \<open>
  A duration of minus one second or less is a time without end to the C library, so that a node object
  that is told to spin for it spins until it is stopped.
\<close>

theorem negative_duration_has_no_end:
  assumes "t \<le> -1000000000" and "sys_clock (c_node n) = (0, now, s)"
  shows "node_spin_for fuel active t n = spun n (uccn_spin_until fuel active TIMESPEC_INF_INIT s)"
proof -
  have "t sdiv 1000000000 = - ((- t) div 1000000000)" using assms(1) by (simp add: signed_divide_int_def sgn_if)
  moreover have "1 \<le> (- t) div 1000000000" using assms(1) zdiv_mono1 [of 1000000000 "- t" 1000000000] by simp
  ultimately have "tv_sec (c_timeout t) < 0" by (simp add: c_timeout_def Let_def)
  then show ?thesis using assms(2) by (simp add: node_spin_for_def node_spin_def uccn_spin_def add_infinite)
qed

section \<open>Functions and trackers\<close>

text \<open>
  A node object in order: the C node is, and each of its trackers calls the object's dispatching
  function with the object, which has a function for the hash of the tracker's resource.
\<close>

definition tracked_hash :: "'c cpp_node \<Rightarrow> nat \<Rightarrow> u32" where
  "tracked_hash n i = res_hash (resource_of (c_node n) (trackers (c_node n) ! i))"

definition wf_cpp :: "'c cpp_node \<Rightarrow> bool" where
  "wf_cpp n \<longleftrightarrow> registered (c_node n) \<and> (\<forall>i<num_trackers (c_node n).
     tr_track (trackers (c_node n) ! i) = c_function n \<and> tr_arg (trackers (c_node n) ! i) = this n \<and>
     generic_track_cpp_functions n (tracked_hash n i) \<noteq> None)"

lemma dispatch:
  assumes "registered (c_node n)" and "i < num_trackers (c_node n)"
    and "generic_track_cpp_functions n (tracked_hash n i) = Some w"
  shows "generic_track_c_function as_buffer i content n = rbind (run_wrapper as_buffer w content) (\<lambda>c. Inr (Inr c))"
proof -
  have "i < length (trackers (c_node n))" using assms(1,2) by (simp add: registered_def wf_node_def wf_endpoints_def)
  then show ?thesis using assms(3) by (simp add: generic_track_c_function_def tracked_hash_def)
qed

text \<open>Registering in the C node on each branch, as a node object in order does it.\<close>

lemma wf_cppD:
  assumes "wf_cpp n" and "i < num_trackers (c_node n)"
  shows "i < length (trackers (c_node n))" "tr_track (trackers (c_node n) ! i) = c_function n"
    "tr_arg (trackers (c_node n) ! i) = this n" "generic_track_cpp_functions n (tracked_hash n i) \<noteq> None"
  using assms by (auto simp: wf_cpp_def registered_def wf_node_def wf_endpoints_def)

lemma tracked_hash_inj:
  assumes "registered (c_node n)" and "i < num_trackers (c_node n)" and "j < num_trackers (c_node n)"
    and "tracked_hash n i = tracked_hash n j"
  shows "i = j"
proof -
  have "num_trackers (c_node n) \<le> length (trackers (c_node n))"
    "hash_table (c_node n) (num_trackers (c_node n)) (trackers (c_node n))"
    using assms(1) by (simp_all add: registered_def wf_node_def wf_endpoints_def)
  then show ?thesis using assms(2-4) unfolding tracked_hash_def by (metis hash_table_nth)
qed

lemma generic_track_ok:
  assumes "wf_cpp n" and "generic_track r w n = Inr (Inr (), n')"
  obtains i where "i < num_trackers (c_node n')" and "ep_resource (trackers (c_node n') ! i) = r"
    and "resources (c_node n') = resources (c_node n)" and "num_peers (c_node n') = num_peers (c_node n)"
    and "generic_track_cpp_functions n' = (generic_track_cpp_functions n)(res_hash (resources (c_node n) r) := Some w)"
    and "wf_cpp n'"
    and "\<And>j. j < num_trackers (c_node n) \<Longrightarrow> j < num_trackers (c_node n') \<and>
      ep_resource (trackers (c_node n') ! j) = ep_resource (trackers (c_node n) ! j)"
proof -
  let ?s = "c_node n" and ?h = "res_hash (resources (c_node n) r)"
  have s: "registered ?s" using assms(1) by (simp add: wf_cpp_def)
  then have wf: "wf_node ?s" by (simp add: registered_def)
  obtain i t where run: "uccn_track r (c_function n) (this n) ?s = Inr (Some i, t)"
    and n': "n' = n\<lparr>generic_track_cpp_functions := (generic_track_cpp_functions n)(?h := Some w), c_node := t\<rparr>"
    using assms(2) by (auto simp: generic_track_def rbind_eq_Inr Let_def split: option.splits)
  have unlocked: "\<not> mutex_locked ?s" using run uccn_track_locked [of ?s r "c_function n" "this n"] by auto
  have t: "registered t" using uccn_track_keeps [OF s unlocked, of r "c_function n" "this n"] by (simp add: run)
  from wf unlocked show thesis
  proof (cases rule: uccn_track_cases [where r = r and f = "c_function n" and a = "this n"])
    case (same j)
    show thesis
      by (rule that [of j])
        (use same run t n' wf_cppD [OF assms(1)] in
          \<open>auto simp: wf_cpp_def tracked_hash_def resource_of_def nth_list_update\<close>)
  next
    case (collision j)
    then show thesis using run by simp
  next
    case new
    show thesis
      by (rule that [of "num_trackers ?s"])
        (use new run t n' wf_cppD [OF assms(1)] wf in
          \<open>auto simp: wf_cpp_def tracked_hash_def resource_of_def nth_list_update wf_node_def wf_endpoints_def less_Suc_eq split: if_splits\<close>)
  qed
qed

lemma generic_track_refused:
  assumes "wf_cpp n" and "generic_track r w n = Inr (Inl e, n')"
  obtains i where "i < num_trackers (c_node n)" and "ep_resource (trackers (c_node n) ! i) \<noteq> r"
    and "tracked_hash n i = res_hash (resources (c_node n) r)" and "\<exists>m. e = Runtime_Error m"
    and "n' = n\<lparr>generic_track_cpp_functions :=
      (generic_track_cpp_functions n)(res_hash (resources (c_node n) r) := Some w)\<rparr>"
proof -
  let ?s = "c_node n" and ?h = "res_hash (resources (c_node n) r)"
  have wf: "wf_node ?s" using assms(1) by (simp add: wf_cpp_def registered_def)
  obtain t where run: "uccn_track r (c_function n) (this n) ?s = Inr (None, t)" and e: "\<exists>m. e = Runtime_Error m"
    and n': "n' = n\<lparr>generic_track_cpp_functions := (generic_track_cpp_functions n)(?h := Some w), c_node := t\<rparr>"
    using assms(2) by (auto simp: generic_track_def about_resource_def rbind_eq_Inr Let_def split: option.splits)
  have unlocked: "\<not> mutex_locked ?s" using run uccn_track_locked [of ?s r "c_function n" "this n"] by auto
  from wf unlocked show thesis
  proof (cases rule: uccn_track_cases [where r = r and f = "c_function n" and a = "this n"])
    case (collision i)
    show thesis by (rule that [of i]) (use collision run n' e in \<open>simp_all add: tracked_hash_def\<close>)
  qed (use run in \<open>simp_all split: if_splits\<close>)
qed

text \<open>
  C40: What the C++ class tells its user of a resource that it refuses to track, because another
  resource with the same hash is tracked, is not the whole truth: the other resource's contents go to
  the refused function from then on.
\<close>

theorem refused_track_replaces:
  assumes "wf_cpp n" and "generic_track r w n = Inr (Inl e, n')"
  shows "\<exists>i<num_trackers (c_node n). ep_resource (trackers (c_node n) ! i) \<noteq> r \<and> c_node n' = c_node n \<and>
    (\<forall>content. generic_track_c_function as_buffer i content n' =
      rbind (run_wrapper as_buffer w content) (\<lambda>c. Inr (Inr c)))"
proof -
  obtain i where i: "i < num_trackers (c_node n)" "ep_resource (trackers (c_node n) ! i) \<noteq> r"
      "tracked_hash n i = res_hash (resources (c_node n) r)"
    and n': "n' = n\<lparr>generic_track_cpp_functions :=
      (generic_track_cpp_functions n)(res_hash (resources (c_node n) r) := Some w)\<rparr>"
    using generic_track_refused [OF assms] by blast
  have "registered (c_node n')" "i < num_trackers (c_node n')" "generic_track_cpp_functions n' (tracked_hash n' i) = Some w"
    using assms(1) i by (simp_all add: n' wf_cpp_def tracked_hash_def)
  from dispatch [OF this] show ?thesis using i(1,2) by (intro exI [of _ i]) (simp add: n')
qed

section \<open>Contents reach the functions\<close>

text \<open>Steps of the C node that leave the trackers' resources and callbacks alone keep the object in order.\<close>

lemma wf_cpp_step:
  assumes "wf_cpp n" and "registered s" and "num_trackers s = num_trackers (c_node n)"
    and "resources s = resources (c_node n)" and "same_endpoints (trackers (c_node n)) (trackers s)"
  shows "wf_cpp (n\<lparr>c_node := s\<rparr>)"
proof -
  have "tr_track (trackers s ! i) = c_function n \<and> tr_arg (trackers s ! i) = this n \<and>
      generic_track_cpp_functions n (tracked_hash (n\<lparr>c_node := s\<rparr>) i) \<noteq> None" if i: "i < num_trackers (c_node n)" for i
  proof -
    note old = wf_cppD [OF assms(1) i]
    have same: "ep_resource (trackers s ! i) = ep_resource (trackers (c_node n) ! i)"
      "endpoint.more (trackers s ! i) = endpoint.more (trackers (c_node n) ! i)"
      using same_endpoints_nth [OF assms(5) old(1)] by simp_all
    from same(2) have "tr_track (trackers s ! i) = tr_track (trackers (c_node n) ! i) \<and>
        tr_arg (trackers s ! i) = tr_arg (trackers (c_node n) ! i)"
      by (cases "trackers s ! i"; cases "trackers (c_node n) ! i") simp
    moreover have "tracked_hash (n\<lparr>c_node := s\<rparr>) i = tracked_hash n i"
      using same(1) assms(4) by (simp add: tracked_hash_def resource_of_def)
    ultimately show ?thesis using old(2-4) by simp
  qed
  then show ?thesis using assms(2,3) by (simp add: wf_cpp_def)
qed

lemma function_reached:
  assumes "wf_cpp n" and "generic_track r w n = Inr (Inr (), n')" and "peer < num_peers (c_node n)"
    and "res_hash (resources (c_node n) r) \<noteq> 0" and "bs \<noteq> []" and "length bs < 2 ^ 32"
    and "b_contents incoming = content_packet (res_hash (resources (c_node n) r)) bs"
    and "res_unpack (resources (c_node n) r) (raw_buffer bs) None = Inr (ret, content)" and "0 \<le> c_int ret"
  shows "wpf {} (uccn_process_packet peer incoming (c_node n')) (\<lambda>(ret, s). \<exists>i.
    trace s = trace (c_node n') @ [Tracked i (c_function n) (this n) content] \<and> wf_cpp (n'\<lparr>c_node := s\<rparr>) \<and>
    generic_track_c_function as_buffer i content (n'\<lparr>c_node := s\<rparr>) =
      rbind (run_wrapper as_buffer w content) (\<lambda>c. Inr (Inr c)))"
proof -
  obtain i where i: "i < num_trackers (c_node n')" "ep_resource (trackers (c_node n') ! i) = r"
    and same: "resources (c_node n') = resources (c_node n)" "num_peers (c_node n') = num_peers (c_node n)"
      "generic_track_cpp_functions n' = (generic_track_cpp_functions n)(res_hash (resources (c_node n) r) := Some w)"
    and wf: "wf_cpp n'"
    using generic_track_ok [OF assms(1,2)] by metis
  have r: "registered (c_node n')" using wf by (simp add: wf_cpp_def)
  have res: "resource_of (c_node n') (trackers (c_node n') ! i) = resources (c_node n) r"
    using i(2) same(1) by (simp add: resource_of_def)
  have ids: "this n' = this n" "c_function n' = c_function n"
    using assms(2) by (auto simp: generic_track_def rbind_eq_Inr Let_def split: option.splits)
  have peer: "peer < num_peers (c_node n')" using assms(3) same(2) by simp
  obtain r' s where run: "uccn_process_packet peer incoming (c_node n') = Inr (r', s)"
    and trace: "trace s = trace (c_node n') @ [Tracked i (c_function n) (this n) content]"
    using content_run [OF r peer assms(4-7) i(1), unfolded res, OF refl assms(8,9)] wf_cppD(2,3) [OF wf i(1)]
    by (auto simp: wpf_total ids)
  have "keeps (c_node n') s" "frame (c_node n') s"
    using process_packet_keeps [OF r peer unpack_safe_UNIV UNIV_I, of incoming] frame_process_packet [of peer incoming "c_node n'"]
    by (simp_all add: run)
  then have wf': "wf_cpp (n'\<lparr>c_node := s\<rparr>)"
    by (intro wf_cpp_step [OF wf]) (simp_all add: keeps_def frame_def)
  have "same_endpoints (trackers (c_node n')) (trackers s)" using \<open>keeps (c_node n') s\<close> by (simp add: keeps_def)
  from same_endpoints_nth [OF this wf_cppD(1) [OF wf i(1)]] i(2)
  have "num_trackers s = num_trackers (c_node n')" "resource_of s (trackers s ! i) = resources (c_node n) r"
    using \<open>frame (c_node n') s\<close> same(1) by (simp_all add: frame_def resource_of_def)
  then have "generic_track_c_function as_buffer i content (n'\<lparr>c_node := s\<rparr>) =
      rbind (run_wrapper as_buffer w content) (\<lambda>c. Inr (Inr c))"
    using i(1) wf' same(3) by (intro dispatch) (simp_all add: wf_cpp_def tracked_hash_def)
  then show ?thesis using trace wf' by (auto simp: run)
qed

text \<open>
  C11: After a resource has been tracked with a function, a content packet for it calls the C++ class
  with the tracker of the resource, and the class calls that function with the unpacked content.
\<close>

theorem content_reaches_function:
  assumes "wf_cpp n" and "generic_track r w n = Inr (Inr (), n')" and "peer < num_peers (c_node n)"
    and "res_hash (resources (c_node n) r) \<noteq> 0" and "bs \<noteq> []" and "length bs < 2 ^ 32"
    and "b_contents incoming = content_packet (res_hash (resources (c_node n) r)) bs"
    and "res_unpack (resources (c_node n) r) (raw_buffer bs) None = Inr (ret, content)" and "0 \<le> c_int ret"
  shows "wpf {} (uccn_process_packet peer incoming (c_node n')) (\<lambda>(ret, s). \<exists>i.
    trace s = trace (c_node n') @ [Tracked i (c_function n) (this n) content] \<and> wf_cpp (n'\<lparr>c_node := s\<rparr>) \<and>
    generic_track_c_function as_buffer i content (n'\<lparr>c_node := s\<rparr>) =
      rbind (run_wrapper as_buffer w content) (\<lambda>c. Inr (Inr c)))"
  by (rule function_reached [OF assms])

section \<open>Vectors\<close>

lemma chunks_concat:
  assumes "0 < elem" and "\<forall>x\<in>set xs. length x = elem"
  shows "chunks elem (concat xs) = xs"
  using assms(2)
proof (induction xs)
  case (Cons x xs)
  then show ?case using assms(1) by (subst chunks.simps) auto
qed (simp add: chunks.simps)

lemma length_elements: "\<forall>x\<in>set xs. length x = elem \<Longrightarrow> length (concat xs) = length xs * elem"
  by (induction xs) simp_all

lemma vector_of_elements:
  assumes "0 < elem" and "\<forall>x\<in>set xs. length x = elem"
  shows "vector_elements elem (raw_buffer (concat xs)) = Inr xs"
  using chunks_concat [OF assms] length_elements [OF assms(2)]
  by (simp add: vector_elements_def blob_bytes_def b_contents_def b_size_def raw_buffer_def)

lemma c_int_length_nonneg: "n < 2 ^ 31 \<Longrightarrow> 0 \<le> c_int (int n)"
  using c_int_small [of "int n"] by simp

text \<open>
  C12: The elements of an array that is posted as raw data are those of the vector that a C++ node hands
  to the function that tracks the resource with vectors of such elements.
\<close>

theorem vectors_arrive:
  assumes "wf_cpp n" and "node_track_vector r f elem n = Inr (Inr (), n')" and "peer < num_peers (c_node n)"
    and "res_hash (resources (c_node n) r) \<noteq> 0" and "res_unpack (resources (c_node n) r) = passthrough_unpack of_buffer"
    and "\<And>b. as_buffer (of_buffer b) = b" and "xs \<noteq> []" and "0 < elem" and "\<forall>x\<in>set xs. length x = elem"
    and "length xs * elem < 2 ^ 31"
    and "b_contents incoming = content_packet (res_hash (resources (c_node n) r)) (concat xs)"
  shows "wpf {} (uccn_process_packet peer incoming (c_node n')) (\<lambda>(ret, s). \<exists>i content.
    trace s = trace (c_node n') @ [Tracked i (c_function n) (this n) content] \<and>
    generic_track_c_function as_buffer i content (n'\<lparr>c_node := s\<rparr>) = Inr (Inr (Vector_Call f xs)))"
proof -
  let ?bs = "concat xs" and ?content = "Some (of_buffer (raw_buffer (concat xs)))"
  have len: "length ?bs = length xs * elem" by (rule length_elements [OF assms(9)])
  moreover have "0 < length xs * elem" using assms(7,8) by simp
  ultimately have "0 < length ?bs" by (simp only:)
  then have bs: "?bs \<noteq> []" by (rule length_greater_0_conv [THEN iffD1])
  have short: "length ?bs < 2 ^ 32" using assms(10) len by simp
  have unpack: "res_unpack (resources (c_node n) r) (raw_buffer ?bs) None = Inr (int (length ?bs), ?content)"
    by (simp add: assms(5) passthrough_unpack_def content_passthrough_def raw_buffer_def)
  have ret: "0 \<le> c_int (int (length ?bs))" using assms(10) len by (intro c_int_length_nonneg) simp
  have call: "run_wrapper as_buffer (Vector_Function f elem) ?content = Inr (Vector_Call f xs)"
    using vector_of_elements [OF assms(8,9)] by (simp add: run_wrapper_def assms(6))
  show ?thesis
    by (rule wpf_conseq [OF function_reached [OF assms(1) assms(2) [unfolded node_track_vector_def] assms(3,4) bs short
          assms(11) unpack ret, of as_buffer]]) (auto simp: call)
qed

end
