(* ===== verification/Spin_Tables.thy ===== *)
theory Spin_Tables
  imports Spin_Inv
begin

text \<open>
  What a spinning node leaves of its tables: the operations between two waits leave the resources of
  its endpoints and the callbacks of its trackers alone. With what they leave of the rest this is an
  invariant of spins (\<open>spun_from\<close>), and posts and stops have it as well.
\<close>

section \<open>What a spinning node leaves of its tables\<close>

abbreviation tables :: "'c sys \<Rightarrow> tracker list \<times> provider list" where
  "tables s \<equiv> (trackers s, providers s)"

definition same_tables :: "'c sys \<Rightarrow> 'c sys \<Rightarrow> bool" where
  "same_tables s t \<longleftrightarrow> same_endpoints (trackers s) (trackers t) \<and> same_endpoints (providers s) (providers t)"

lemma same_tables_refl [simp]: "tables t = tables s \<Longrightarrow> same_tables s t"
  by (simp add: same_tables_def same_endpoints_def)

lemma same_tables_trans: "same_tables s t \<Longrightarrow> same_tables t u \<Longrightarrow> same_tables s u"
  by (simp add: same_tables_def same_endpoints_def)

lemma same_tables_updates [simp]:
  "same_tables s (t\<lparr>peers := ps\<rparr>) = same_tables s t" "same_tables s (t\<lparr>num_peers := n\<rparr>) = same_tables s t"
  "same_tables s (t\<lparr>outgoing_buffer := b\<rparr>) = same_tables s t"
  "same_tables s (t\<lparr>incoming_buffer := b\<rparr>) = same_tables s t" "same_tables s (t\<lparr>mutex_locked := l\<rparr>) = same_tables s t"
  "same_tables s (t\<lparr>stop_pipe := p\<rparr>) = same_tables s t"
  by (simp_all add: same_tables_def)

lemma tables_system:
  "sys_clock s = (ret, c, t) \<Longrightarrow> tables t = tables s"
  "sys_sendto fd addr packet s = (n, t) \<Longrightarrow> tables t = tables s"
  "sys_recvfrom fd s = (r, t) \<Longrightarrow> tables t = tables s"
  "sys_pselect d s = (a, t) \<Longrightarrow> tables t = tables s"
  by (auto simp: sys_clock_def sys_sendto_def sys_recvfrom_def sys_pselect_def Let_def
      split: prod.splits if_splits received.splits)

lemma tables_register_peer:
  assumes "uccn_register_peer addr s = Inr (k, t)"
  shows "tables t = tables s"
proof -
  obtain ret c u where clock: "sys_clock s = (ret, c, u)" by (cases "sys_clock s")
  show ?thesis using assms tables_system(1) [OF clock]
    by (auto simp: uccn_register_peer_def clock rbind_eq_Inr Let_def split: option.splits if_splits)
qed

lemma same_tables_incoming:
  assumes "registered s" and "uccn_process_incoming origin incoming s = Inr (ret, t)"
  shows "same_tables s t"
proof -
  obtain k u where reg: "uccn_register_peer origin s = Inr (k, u)"
    using assms(2) by (auto simp: uccn_process_incoming_def rbind_eq_Inr)
  have u: "tables u = tables s" by (rule tables_register_peer [OF reg])
  show ?thesis
  proof (cases k)
    case None
    then show ?thesis using assms(2) u by (simp add: uccn_process_incoming_def reg)
  next
    case (Some j)
    have r: "registered u" "j < num_peers u"
      using wpf_InrD [OF uccn_register_peer_keeps [OF assms(1)] reg] Some by simp_all
    obtain r' v where packet: "uccn_process_packet j incoming u = Inr (r', v)"
      using assms(2) by (auto simp: uccn_process_incoming_def reg Some rbind_eq_Inr)
    have "keeps u v" using wpf_InrD [OF process_packet_keeps [OF r unpack_safe_UNIV UNIV_I] packet] by simp
    then have v: "same_tables s v" using u by (simp add: keeps_def same_tables_def)
    obtain n w where send: "sys_sendto (socket v) (p_address (peers v ! j)) (b_contents (outgoing_buffer v)) v = (n, w)"
      by fastforce
    have "same_tables s w" using v tables_system(2) [OF send] by (simp add: same_tables_def)
    then show ?thesis using assms(2) v
      by (auto simp: uccn_process_incoming_def reg Some packet rbind_eq_Inr arr_get_eq_Inr send Let_def split: if_splits)
  qed
qed

text \<open>Unlinking the dead peers of endpoints.\<close>

lemma unlink_dead_same:
  "uccn_unlink_dead_peers ep ps = Inr ep' \<Longrightarrow> ep_resource ep' = ep_resource ep \<and> endpoint.more ep' = endpoint.more ep"
proof -
  have "ep_resource ep' = ep_resource ep \<and> endpoint.more ep' = endpoint.more ep"
    if "unlink_dead_from i ep ps = Inr ep'" for i and ep ep' :: "'e endpoint_scheme"
    using that
  proof (induction i ep ps rule: unlink_dead_from.induct)
    case (1 i ep ps)
    note run = "1.prems" [unfolded unlink_dead_from.simps [of i ep ps]]
    show ?case
    proof (cases "i < ep_num_peers ep")
      case True
      obtain k p where get: "arr_get (ep_peers ep) i = Inr (Some k)" "arr_get ps k = Inr p"
        using run True by (auto simp: rbind_eq_Inr split: option.splits)
      show ?thesis
      proof (cases "alive p")
        case alive: True
        then show ?thesis using run True get by (intro "1.IH" (2) [OF True get(1) refl get(2)]) simp_all
      next
        case False
        then obtain slots where shift: "shift_down i (ep_num_peers ep) (ep_peers ep) = Inr slots"
          and rest: "unlink_dead_from i (ep\<lparr>ep_peers := slots, ep_num_peers := ep_num_peers ep - 1\<rparr>) ps = Inr ep'"
          using run True get by (auto simp: rbind_eq_Inr)
        show ?thesis using "1.IH" (1) [OF True get(1) refl get(2) False shift rest] by simp
      qed
    qed (use run in simp)
  qed
  then show "uccn_unlink_dead_peers ep ps = Inr ep' \<Longrightarrow> ?thesis" by (simp add: uccn_unlink_dead_peers_def)
qed

lemma same_endpoints_update:
  assumes "same_endpoints eps es" and "i < length es" and "ep_resource ep = ep_resource (es ! i)"
    and "endpoint.more ep = endpoint.more (es ! i)"
  shows "same_endpoints eps (es[i := ep])"
  using assms by (simp add: same_endpoints_def map_update_same)

lemma prune_loop_same:
  fixes eps :: "'e endpoint_scheme list"
  shows "wpf UNIV (for_loop (prune_body ps) 0 n (a, eps)) (\<lambda>(a', es). same_endpoints eps es)"
proof (rule wpf_for_loop [where P = "\<lambda>i x. same_endpoints eps (snd x)"])
  fix i and x :: "nat option \<times> 'e endpoint_scheme list" assume "same_endpoints eps (snd x)"
  then show "wpf UNIV (prune_body ps i x) (\<lambda>c. case c of Continue y \<Rightarrow> same_endpoints eps (snd y)
      | Break (a', es) \<Rightarrow> same_endpoints eps es)"
    by (cases x) (auto simp: prune_body_def wpf_UNIV_arr_get intro!: wpf_UNIV_I same_endpoints_update dest: unlink_dead_same)
qed (auto simp: same_endpoints_def)

lemma pruned_same:
  fixes eps es :: "'e endpoint_scheme list"
  shows "for_loop (prune_body ps) 0 n (a, eps) = Inr (a', es) \<Longrightarrow> same_endpoints eps es"
  using wpf_InrD [OF prune_loop_same] by fastforce

lemma same_tables_probe:
  "wpf UNIV (uccn_probe_endpoints a b c s) (\<lambda>(ret, a, b, c, t). same_tables s t)"
proof -
  obtain ret now u where clock: "sys_clock s = (ret, now, u)" by (cases "sys_clock s")
  have u: "trackers u = trackers s" "providers u = providers s" using tables_system(1) [OF clock] by simp_all
  show ?thesis
    by (auto simp: uccn_probe_endpoints_def clock same_tables_def u Let_def rbind_eq_Inr
        same_endpoints_refl intro!: wpf_UNIV_I dest!: pruned_same)
qed

lemma same_tables_assert: "wpf UNIV (uccn_assert_liveliness d s) (\<lambda>(ret, d, t). same_tables s t)"
proof -
  have loop: "wpf UNIV (for_loop (assert_body now packet) 0 n (ret, d, u)) (\<lambda>(ret, d, t). same_tables s t)"
    if "tables u = tables s" for now packet n ret d u
  proof (rule wpf_for_loop [where P = "\<lambda>i x. tables (snd (snd x)) = tables s"])
    fix i and x :: "int \<times> timespec option \<times> 'a sys" assume "tables (snd (snd x)) = tables s"
    then show "wpf UNIV (assert_body now packet i x) (\<lambda>c. case c of Continue y \<Rightarrow> tables (snd (snd y)) = tables s
        | Break (ret, d, t) \<Rightarrow> same_tables s t)"
      by (auto simp: assert_body_def wpf_UNIV_arr_get Let_def c_assert_def dest: tables_system split: prod.splits)
  qed (use that in auto)
  have "tables u = tables s" if "sys_clock (s\<lparr>outgoing_buffer := p\<rparr>) = (r, n, u)" for p r n u
    using tables_system(1) [OF that] by simp
  then show ?thesis
    by (auto simp: uccn_assert_liveliness_def Let_def split: prod.splits intro!: loop)
qed

lemma same_tables_discover: "wpf UNIV (uccn_discover_peers s) (\<lambda>(ret, t). same_tables s t)"
proof -
  have "tables u = tables s" if "sys_sendto fd addr packet (s\<lparr>outgoing_buffer := b\<rparr>) = (n, u)" for fd addr packet b n u
    using tables_system(2) [OF that] by simp
  then show ?thesis
    by (auto simp: uccn_discover_peers_def Let_def c_assert_def split: prod.splits intro!: wpf_UNIV_I)
qed

lemma same_tables_cast:
  assumes "registered s"
  shows "wpf UNIV (uccn_process_incoming_unicast s) (\<lambda>(ret, t). same_tables s t)"
    and "wpf UNIV (uccn_process_incoming_broadcast s) (\<lambda>(ret, t). same_tables s t)"
proof -
  have step: "wpf UNIV (uccn_process_incoming addr b (t\<lparr>incoming_buffer := (incoming_buffer t)\<lparr>b_length := length d\<rparr>\<rparr>))
      (\<lambda>(ret, u). same_tables s u)" if "sys_recvfrom fd s = (Recv addr' d, t)" for fd addr addr' b d t
    using same_tables_incoming [OF registered_recvfrom [OF assms that]] tables_system(3) [OF that]
    by (auto intro!: wpf_UNIV_I simp: same_tables_def)
  show "wpf UNIV (uccn_process_incoming_unicast s) (\<lambda>(ret, t). same_tables s t)"
    by (auto simp: uccn_process_incoming_unicast_def Let_def dest: tables_system intro!: step
        split: prod.splits received.splits)
  show "wpf UNIV (uccn_process_incoming_broadcast s) (\<lambda>(ret, t). same_tables s t)"
    by (auto simp: uccn_process_incoming_broadcast_def Let_def dest: tables_system intro!: step
        split: prod.splits received.splits)
qed

section \<open>A node against what it was before\<close>

text \<open>What posts, stops and spins keep of a node.\<close>

definition same_setup :: "'c sys \<Rightarrow> 'c sys \<Rightarrow> bool" where
  "same_setup s t \<longleftrightarrow> num_trackers t = num_trackers s \<and> resources t = resources s \<and> node_name t = node_name s \<and>
     socket t = socket s \<and> broadcast_socket t = broadcast_socket s \<and> stop_event t = stop_event s \<and>
     clock_gettime t = clock_gettime s \<and> pselect t = pselect s"

lemma same_setup_frame: "frame s t \<Longrightarrow> same_setup s t"
  by (simp add: frame_def same_setup_def)

lemma same_setup_trans: "same_setup s t \<Longrightarrow> same_setup t u \<Longrightarrow> same_setup s u"
  by (simp add: same_setup_def)

definition spun_from :: "'c sys \<Rightarrow> 'c sys \<Rightarrow> bool" where
  "spun_from s t \<longleftrightarrow> registered t \<and> same_setup s t \<and> same_tables s t"

lemma spun_from_trans: "spun_from s t \<Longrightarrow> spun_from t u \<Longrightarrow> spun_from s u"
  using same_setup_trans same_tables_trans by (auto simp: spun_from_def)

lemma spun_from_op:
  assumes "spun_from s t" and "wpf F m (\<lambda>x. registered (get x))" and "wpf UNIV m (\<lambda>x. frame t (get x))"
    and "wpf UNIV m (\<lambda>x. same_tables t (get x))"
  shows "wpf UNIV m (\<lambda>x. spun_from s (get x))"
  using assms same_tables_trans [of s t] same_setup_trans [of s t] same_setup_frame
  by (cases m) (auto simp: spun_from_def)

interpretation spin_tables: spin_invariant "spun_from s" UNIV for s
proof unfold_locales
  fix t assume t: "spun_from s t"
  then have r: "registered t" by (simp add: spun_from_def)
  have u: "unpack_safe (spin_faults UNIV) (resources t)" by simp
  show "wpf UNIV (uccn_process_incoming_unicast t) (\<lambda>(ret, u). spun_from s u)"
    using spun_from_op [OF t, of _ _ snd] process_incoming_cast_keeps(1) [OF r u]
      frame_process_incoming_cast(1) [of t] same_tables_cast(1) [OF r] by (simp add: split_def)
  show "wpf UNIV (uccn_process_incoming_broadcast t) (\<lambda>(ret, u). spun_from s u)"
    using spun_from_op [OF t, of _ _ snd] process_incoming_cast_keeps(2) [OF r u]
      frame_process_incoming_cast(2) [of t] same_tables_cast(2) [OF r] by (simp add: split_def)
  show "wpf UNIV (uccn_assert_liveliness (Some d) t) (\<lambda>(ret, d, u). spun_from s u)" for d
    using spun_from_op [OF t, of "{Assert_Failed}" _ "\<lambda>x. snd (snd x)"]
      wpf_conseq [OF uccn_assert_liveliness_keeps [OF r, of "Some d"], of "\<lambda>x. registered (snd (snd x))"]
      frame_assert_liveliness [of "Some d" t] same_tables_assert [of "Some d" t] by (auto simp: split_def)
  show "wpf UNIV (uccn_probe_endpoints (Some n) None (Some d) t) (\<lambda>(ret, a, b, d, u). spun_from s u)" for n d
    using spun_from_op [OF t, of "{}" _ "\<lambda>x. snd (snd (snd (snd x)))"]
      wpf_conseq [OF uccn_probe_endpoints_keeps [OF r, of "Some n" None "Some d"], of "\<lambda>x. registered (snd (snd (snd (snd x))))"]
      frame_probe_endpoints [of "Some n" None "Some d" t] same_tables_probe [of "Some n" None "Some d" t] by (auto simp: split_def)
  show "wpf UNIV (uccn_discover_peers t) (\<lambda>(ret, u). spun_from s u)"
    using spun_from_op [OF t, of "{Assert_Failed}" _ snd]
      wpf_conseq [OF uccn_discover_peers_keeps [OF r], of "\<lambda>x. registered (snd x)"]
      frame_discover_peers [of t] same_tables_discover [of t] by (auto simp: split_def)
  show "spun_from s u" if "sys_clock t = (ret, c, u)" for ret c u
    using t registered_clock [OF r that] same_setup_frame [OF frame_clock [OF that]] tables_system(1) [OF that]
    by (auto simp: spun_from_def same_tables_def intro: same_setup_trans)
  show "spun_from s u" if "sys_pselect d t = (a, u)" for d a u
    using that t by (auto simp: spun_from_def same_tables_def same_setup_def sys_pselect_def Let_def registered_def wf_node_def
        hash_table_def resource_of_def)
  show "spun_from s (t\<lparr>mutex_locked := b\<rparr>)" for b using t by (simp add: spun_from_def same_setup_def registered_buffers)
  have "registered (t\<lparr>stop_pipe := p\<rparr>)" for p
    using r by (simp add: registered_def wf_node_def hash_table_def resource_of_def)
  then show "spun_from s (t\<lparr>stop_pipe := p\<rparr>)" for p using t by (simp add: spun_from_def same_setup_def)
qed simp_all

lemma spun_from_refl: "registered s \<Longrightarrow> spun_from s s"
  by (simp add: spun_from_def same_setup_def)

lemma post_spun_from: "registered s \<Longrightarrow> uccn_post p content s = Inr (ret, t) \<Longrightarrow> spun_from s t"
  using wpf_InrD [OF uccn_post_keeps, of s p content "(ret, t)"] by (simp add: spun_from_def same_setup_def post_frame_def)

lemma stop_spun_from: "registered s \<Longrightarrow> uccn_stop s = (ret, t) \<Longrightarrow> spun_from s t"
  by (auto simp: uccn_stop_def Let_def spun_from_def same_setup_def registered_def wf_node_def hash_table_def resource_of_def split: prod.splits)

lemma spin_spun_from:
  assumes "registered s" and "uccn_spin_until fuel active t s = Some (Inr (ret, u))"
  shows "spun_from s u"
  using spin_tables.spin_until [OF spun_from_refl [OF assms(1)] assms(2)] by simp

lemma spin_timeout_spun_from:
  assumes "registered s" and "uccn_spin fuel active timeout s = Some (Inr (ret, u))"
  shows "spun_from s u"
proof (cases timeout)
  case None
  then show ?thesis using assms spin_spun_from by (simp add: uccn_spin_def)
next
  case (Some d)
  obtain r c v where clock: "sys_clock s = (r, c, v)" by (cases "sys_clock s")
  have v: "spun_from s v" using spin_tables.clock [OF spun_from_refl [OF assms(1)] clock] .
  then show ?thesis using assms(2) Some spin_tables.spin_until [OF v, of fuel active "timespec_add c d"]
    by (auto simp: uccn_spin_def clock split: if_splits)
qed

end
