(* ===== verification/Cpp_Spin.thy ===== *)
theory Cpp_Spin
  imports Cpp_Node Spin_Tables
begin

text \<open>
  Whatever the user of a node object calls and whatever arrives, the object stays in order, and the
  functions of its user are called for every content that arrives.
\<close>

section \<open>Whatever a node object does\<close>

text \<open>The member functions that change a node object; a provider acts on the node it belongs to.\<close>

inductive node_step :: "'c cpp_node \<Rightarrow> 'c cpp_node \<Rightarrow> bool" where
  track: "generic_track r w n = Inr (o1, n') \<Longrightarrow> node_step n n'"
| advertise: "node_advertise r n = Inr (o2, n') \<Longrightarrow> node_step n n'"
| record_post: "record_post p content n = Inr (o3, n') \<Longrightarrow> node_step n n'"
| raw_post: "raw_post of_buffer p raw n = Inr (o3, n') \<Longrightarrow> node_step n n'"
| stop: "node_stop n = Inr (o1, n') \<Longrightarrow> node_step n n'"
| spin_until: "node_spin_until fuel active t n = Some (Inr (o1, n')) \<Longrightarrow> node_step n n'"
| spin: "node_spin fuel active timeout n = Some (Inr (o1, n')) \<Longrightarrow> node_step n n'"

inductive_cases node_stepE: "node_step n n'"

lemma wf_cpp_track:
  assumes "wf_cpp n" and "generic_track r w n = Inr (o1, n')"
  shows "wf_cpp n'"
proof (cases o1)
  case (Inl e)
  obtain i where n': "n' = n\<lparr>generic_track_cpp_functions :=
      (generic_track_cpp_functions n)(res_hash (resources (c_node n) r) := Some w)\<rparr>"
    using generic_track_refused [OF assms(1), of r w e n'] assms(2) Inl by metis
  then show ?thesis using assms(1) by (auto simp: wf_cpp_def tracked_hash_def)
next
  case (Inr u)
  then show ?thesis using generic_track_ok [OF assms(1), of r w n'] assms(2) by (cases u) metis
qed

text \<open>What the order of a node object relies on when its C node changes.\<close>

definition keeps_trackers :: "'c sys \<Rightarrow> 'c sys \<Rightarrow> bool" where
  "keeps_trackers s t \<longleftrightarrow> registered t \<and> num_trackers t = num_trackers s \<and> resources t = resources s \<and>
     same_endpoints (trackers s) (trackers t)"

lemma wf_cpp_node: "wf_cpp n \<Longrightarrow> keeps_trackers (c_node n) s \<Longrightarrow> wf_cpp (n\<lparr>c_node := s\<rparr>)"
  using wf_cpp_step [of n s] by (simp add: keeps_trackers_def)

lemma spun_from_trackers: "spun_from s t \<Longrightarrow> keeps_trackers s t"
  by (simp add: spun_from_def same_setup_def same_tables_def keeps_trackers_def)

lemma advertise_trackers:
  assumes "registered s" and "uccn_advertise r s = Inr (p, t)"
  shows "keeps_trackers s t"
proof -
  have unlocked: "\<not> mutex_locked s" using assms(2) uccn_advertise_locked [of s r] by auto
  have t: "registered t" using wpf_InrD [OF uccn_advertise_keeps [OF assms(1) unlocked] assms(2)] by simp
  have wf: "wf_node s" using assms(1) by (simp add: registered_def)
  from wf unlocked show ?thesis
    by (cases rule: uccn_advertise_cases [where r = r]) (use assms(2) t in \<open>auto simp: keeps_trackers_def split: if_splits\<close>)
qed

lemma node_step_wf:
  assumes "node_step n n'" and "wf_cpp n"
  shows "wf_cpp n'"
proof -
  have r: "registered (c_node n)" using assms(2) by (simp add: wf_cpp_def)
  note wf = wf_cpp_node [OF assms(2)]
  show ?thesis
    using assms(1)
  proof cases
    case (track r w o1)
    then show ?thesis using wf_cpp_track [OF assms(2)] by blast
  next
    case (advertise q o2)
    then show ?thesis using wf advertise_trackers [OF r]
      by (auto simp: node_advertise_def rbind_eq_Inr Let_def split: option.splits)
  next
    case (record_post p content o3)
    then show ?thesis using wf spun_from_trackers [OF post_spun_from [OF r]] assms(2)
      by (auto simp: record_post_def rbind_eq_Inr Let_def split: option.splits if_splits)
  next
    case (raw_post of_buffer p raw o3)
    then show ?thesis using wf spun_from_trackers [OF post_spun_from [OF r]] assms(2)
      by (auto simp: raw_post_def rbind_eq_Inr Let_def split: option.splits if_splits)
  next
    case (stop o1)
    then show ?thesis using wf spun_from_trackers [OF stop_spun_from [OF r]]
      by (auto simp: node_stop_def rbind_eq_Inr Let_def split: prod.splits if_splits)
  next
    case (spin_until fuel active t o1)
    then show ?thesis using wf spun_from_trackers [OF spin_spun_from [OF r]]
      by (auto simp: node_spin_until_def spun_def rbind_eq_Inr Let_def split: if_splits)
  next
    case (spin fuel active timeout o1)
    then show ?thesis using wf spun_from_trackers [OF spin_timeout_spun_from [OF r]]
      by (auto simp: node_spin_def spun_def rbind_eq_Inr Let_def split: if_splits)
  qed
qed

lemma node_steps_wf: "node_step\<^sup>*\<^sup>* n n' \<Longrightarrow> wf_cpp n \<Longrightarrow> wf_cpp n'"
  by (induction rule: rtranclp_induct) (auto intro: node_step_wf)

lemma node_create_wf:
  assumes "node_memory m" and "length (c_str name) < CONFIG_UCCN_MAX_NODE_NAME_SIZE"
    and "node_create an net name self f m = (Inr n, s)"
  shows "wf_cpp n \<and> c_node n = s"
proof -
  obtain ret where run: "uccn_node_init an net (c_str name) m = (ret, s)" "ret \<ge> 0"
    and n: "n = \<lparr>c_node = s, generic_track_cpp_functions = (\<lambda>_. None), this = self, c_function = f\<rparr>"
    using assms(3) by (auto simp: node_create_def Let_def split: prod.splits if_splits)
  obtain addr ev where s: "s = sync_done ev \<lparr>pipe_pending = 0, pipe_capacity = an_capacity an\<rparr> (init_fields net (c_str name)
      (m\<lparr>broadcast_socket := an_broadcast_socket an, socket := an_socket an, address := addr\<rparr>))"
    by (rule node_init_done [OF run])
  let ?m = "m\<lparr>broadcast_socket := an_broadcast_socket an, socket := an_socket an, address := addr\<rparr>"
  have "node_memory ?m" using assms(1) by (simp add: node_memory_def)
  note init_fields_registered(1) [OF this assms(2), of net]
  then have "registered s" by (simp add: s)
  moreover have "num_trackers s = 0" by (simp add: s sync_done_def init_fields_def)
  ultimately show ?thesis by (simp add: n wf_cpp_def)
qed

text \<open>
  C19: A node object that was constructed stays in order whatever its user calls, in any order, and
  whatever arrives while it spins. In particular there is a function for every one of its trackers:
  the call of an empty function, an exception that would pass through the C code, never happens.
\<close>

theorem objects_stay_in_order:
  assumes "node_create an net name self f m = (Inr n, s)" and "node_memory m"
    and "length (c_str name) < CONFIG_UCCN_MAX_NODE_NAME_SIZE" and "node_step\<^sup>*\<^sup>* n n'"
    and "i < num_trackers (c_node n')"
  shows "registered (c_node n') \<and> generic_track_c_function as_buffer i content n' \<noteq> Inr (Inl Bad_Function_Call)"
proof -
  have wf: "wf_cpp n'" using node_steps_wf [OF assms(4)] node_create_wf [OF assms(2,3,1)] by blast
  then obtain w where "generic_track_cpp_functions n' (tracked_hash n' i) = Some w"
    using wf_cppD(4) [OF wf assms(5)] by blast
  from dispatch [OF _ assms(5) this] wf show ?thesis
    by (auto simp: wf_cpp_def rbind_eq_Inr)
qed

end
