(* ===== verification/Examples.thy ===== *)
theory Examples
  imports Cpp_Spin
begin

text \<open>
  The example programs of \<open>src/examples\<close>, in C and in C++: a node that posts records, and one that
  tracks them. A program is its \<open>main\<close> function, over the state of the node and the answers of the
  system. Its output and its log are not modelled, but the strings that it prints are read, and what
  the trackers print of a record is a function. Of the signals only SIGINT is modelled: one that
  arrives in a wait is a stop event that the answer of \<open>pselect\<close> brings (\<open>raise_stops\<close>), and
  \<open>interrupted k\<close> says whether the program finds \<open>g_stopped\<close> set when it looks for the \<open>k\<close>-th time,
  where its handler runs. The C++ programs' \<open>scoped_ptr\<close> only hands the node to the handler.
\<close>

section \<open>The record type in C++\<close>

definition cpp_simple_data_allocate :: "examples_simple_data \<Rightarrow> unit \<Rightarrow> examples_simple_data option" where
  "cpp_simple_data_allocate buffer u = Some buffer"

definition cpp_simple_data_serialize :: "examples_simple_data \<Rightarrow> buffer \<Rightarrow> (int \<times> buffer) result" where
  "cpp_simple_data_serialize content blob =
     (let writer = mpack_writer_init (b_size blob);
          writer = mpack_write_u32 (number content) writer
      in
      rbind (mpack_write_cstr (data content) writer) (\<lambda>writer.
      let blob = b_written writer blob in
      Inr (if mpack_writer_destroy writer \<noteq> mpack_ok then -1 else int (b_length blob), blob)))"

definition cpp_simple_data_deserialize :: "buffer \<Rightarrow> examples_simple_data \<Rightarrow> int \<times> examples_simple_data" where
  "cpp_simple_data_deserialize blob content =
     (let reader = mpack_reader_init_data (b_contents blob);
          (n, reader) = mpack_expect_u32 reader;
          content = content\<lparr>number := n\<rparr>;
          (d, reader) = mpack_expect_cstr reader (data content);
          content = content\<lparr>data := d\<rparr>
      in (if mpack_reader_destroy reader \<noteq> mpack_ok then -1 else int (b_length blob), content))"

definition cpp_simple_data_typesupport :: "examples_simple_data \<Rightarrow> examples_simple_data typesupport" where
  "cpp_simple_data_typesupport buffer =
     \<lparr>ts_allocate = Some (cpp_simple_data_allocate buffer), ts_serialize = Some cpp_simple_data_serialize,
      ts_deserialize = Some cpp_simple_data_deserialize\<rparr>"

text \<open>The C and the C++ programs put the same bytes on the network and read them alike.\<close>

lemma cpp_typesupport_eq: "cpp_simple_data_typesupport buffer = g_simple_data_typesupport buffer"
proof -
  have "cpp_simple_data_serialize content blob = simple_data_serialize content blob" for content blob
    unfolding cpp_simple_data_serialize_def simple_data_serialize_def Let_def
    by (rule arg_cong2 [where f = rbind]) (simp_all add: fun_eq_iff)
  moreover have "cpp_simple_data_deserialize blob content = simple_data_deserialize blob content" for blob content
    by (cases content) (simp add: cpp_simple_data_deserialize_def simple_data_deserialize_def Let_def split_def)
  ultimately show ?thesis
    by (simp add: cpp_simple_data_typesupport_def g_simple_data_typesupport_def fun_eq_iff
        cpp_simple_data_allocate_def simple_data_allocate_def)
qed

section \<open>What the programs share\<close>

definition loopback :: uccn_network_s where
  "loopback = \<lparr>inetaddr = 0x7F000001, netmask = 0xFF000000\<rparr>"

definition TIMESPEC_SECONDS_INIT :: "int \<Rightarrow> timespec" where
  "TIMESPEC_SECONDS_INIT secs = \<lparr>tv_sec = secs, tv_nsec = 0\<rparr>"

text \<open>The handler stops the node; that it also sets \<open>g_stopped\<close> is the answer of \<open>interrupted\<close>.\<close>

definition sigint_handler :: "'c sys \<Rightarrow> 'c sys" where
  "sigint_handler s = snd (uccn_stop s)"

definition store_resource :: "nat \<Rightarrow> 'c resource \<Rightarrow> 'c sys \<Rightarrow> 'c sys" where
  "store_resource r res s = s\<lparr>resources := (resources s)(r := res)\<rparr>"

text \<open>
  The content of the providers, from the first argument of the program.
\<close>

definition provider_content :: "bytes option \<Rightarrow> examples_simple_data" where
  "provider_content argument =
     \<lparr>number = 0, data = c_strncpy 64 (case argument of Some a \<Rightarrow> a | None \<Rightarrow> ascii ''Hello world'')\<rparr>"

text \<open>The program that a main function is run as: its exit code and the node it leaves, in the end.\<close>

type_synonym program = "(int \<times> examples_simple_data sys) result option"

definition finish :: "(int \<Rightarrow> int) \<Rightarrow> int \<Rightarrow> examples_simple_data sys result option \<Rightarrow> program" where
  "finish close destroy = map_option (\<lambda>m. rbind m (\<lambda>s. Inr (uccn_node_fini close destroy s)))"

section \<open>The provider in C\<close>

text \<open>A turn of the loop: whether it goes on, and the node.\<close>

definition provider_turn :: "nat \<Rightarrow> nat \<Rightarrow> nat \<Rightarrow> examples_simple_data \<Rightarrow> examples_simple_data sys \<Rightarrow>
    (bool \<times> examples_simple_data sys) result option" where
  "provider_turn fuel active p content s =
     (case rbind (c_string (data content)) (\<lambda>_.
           rbind (arr_get (providers s) p) (\<lambda>provider.
           rbind (c_string (res_path (resource_of s provider))) (\<lambda>_.
           uccn_post p (Some content) s))) of
        Inl e \<Rightarrow> Some (Inl e)
      | Inr (ret, s) \<Rightarrow>
          if ret < 0 then Some (Inr (False, s))
          else map_option (\<lambda>m. rbind m (\<lambda>(ret, s). Inr (\<not> ret < 0, s)))
            (uccn_spin fuel active (Some (TIMESPEC_SECONDS_INIT 1)) s))"

fun provider_loop :: "nat \<Rightarrow> (nat \<Rightarrow> bool) \<Rightarrow> nat \<Rightarrow> nat \<Rightarrow> nat \<Rightarrow> examples_simple_data \<Rightarrow>
    examples_simple_data sys \<Rightarrow> examples_simple_data sys result option" where
  "provider_loop 0 interrupted k active p content s = None"
| "provider_loop (Suc fuel) interrupted k active p content s =
     (if interrupted k then Some (Inr (sigint_handler s))
      else
        case provider_turn fuel active p content s of
          None \<Rightarrow> None
        | Some (Inl e) \<Rightarrow> Some (Inl e)
        | Some (Inr (going_on, s)) \<Rightarrow>
            if going_on then
              provider_loop fuel interrupted (Suc k) active p (content\<lparr>number := number content + 1\<rparr>) s
            else Some (Inr s))"

definition provider_main where
  "provider_main fuel interrupted active as_buffer of_buffer slot an close destroy r argument s =
     (let (ret, s) = uccn_node_init an loopback (ascii ''provider'') s in
      if ret \<noteq> 0 then Some (Inr (-1, s))
      else
        case rbind (uccn_record_init as_buffer of_buffer (ascii ''/test'') (Some (g_simple_data_typesupport slot)))
            (\<lambda>record. uccn_advertise r (store_resource r record s)) of
          Inl e \<Rightarrow> Some (Inl e)
        | Inr (None, s) \<Rightarrow> Some (Inr (-1, s))
        | Inr (Some p, s) \<Rightarrow>
            finish close destroy (provider_loop fuel interrupted 0 active p (provider_content argument) s))"

section \<open>The tracker in C\<close>

text \<open>Interrupted or not before it spins; the callback \<open>print_simple_record\<close> is a number.\<close>

definition tracker_main where
  "tracker_main fuel interrupted active as_buffer of_buffer slot an close destroy r print_simple_record null s =
     (let (ret, s) = uccn_node_init an loopback (ascii ''tracker'') s in
      if ret \<noteq> 0 then Some (Inr (-1, s))
      else
        case rbind (uccn_record_init as_buffer of_buffer (ascii ''/test'') (Some (g_simple_data_typesupport slot)))
            (\<lambda>record. uccn_track r print_simple_record null (store_resource r record s)) of
          Inl e \<Rightarrow> Some (Inl e)
        | Inr (None, s) \<Rightarrow> Some (Inr (-1, s))
        | Inr (Some _, s) \<Rightarrow>
            finish close destroy (map_option (\<lambda>m. rbind m (\<lambda>(ret, s). Inr s))
              (uccn_spin fuel active None (if interrupted then sigint_handler s else s))))"

text \<open>
  What the callback prints of a content, apart from the time: its string, its number, which
  \<open>%d\<close> reads as a signed one, and the path of the tracker's resource.
\<close>

definition print_simple_record :: "nat \<Rightarrow> examples_simple_data option \<Rightarrow> examples_simple_data sys \<Rightarrow>
    (bytes \<times> int \<times> bytes) result" where
  "print_simple_record i test_content s =
     (case test_content of None \<Rightarrow> Inl Null_Deref
      | Some c \<Rightarrow>
          rbind (c_string (data c)) (\<lambda>text.
          rbind (arr_get (trackers s) i) (\<lambda>tracker.
          rbind (c_string (res_path (resource_of s tracker))) (\<lambda>path.
          Inr (text, sint (number c), path)))))"

section \<open>The programs in C++\<close>

text \<open>
  An exception that leaves the block of a program is printed, and the node object is destroyed on the
  way; the programs answer 0 in any case.
\<close>

definition leave :: "(int \<Rightarrow> int) \<Rightarrow> int \<Rightarrow> examples_simple_data cpp_node result option \<Rightarrow> program" where
  "leave close destroy =
     map_option (\<lambda>m. rbind m (\<lambda>n. rbind (node_destroy close destroy n) (\<lambda>(s, printed). Inr (0, s))))"

definition cpp_sigint_handler :: "'c cpp_node \<Rightarrow> 'c cpp_node result" where
  "cpp_sigint_handler n = rbind (node_stop n) (\<lambda>(ended, n). Inr n)"

definition cpp_provider_turn :: "nat \<Rightarrow> nat \<Rightarrow> nat \<Rightarrow> nat \<Rightarrow> examples_simple_data \<Rightarrow> examples_simple_data cpp_node \<Rightarrow>
    (unit outcome \<times> examples_simple_data cpp_node) result option" where
  "cpp_provider_turn fuel active r p content n =
     (case rbind (c_string (data content)) (\<lambda>_.
           rbind (resource_path (resources (c_node n) r)) (\<lambda>_.
           record_post (Some p) content n)) of
        Inl e \<Rightarrow> Some (Inl e)
      | Inr (Inl ex, n) \<Rightarrow> Some (Inr (Inl ex, n))
      | Inr (Inr _, n) \<Rightarrow> node_spin_for fuel active 1000000000 n)"

fun cpp_provider_loop :: "nat \<Rightarrow> (nat \<Rightarrow> bool) \<Rightarrow> nat \<Rightarrow> nat \<Rightarrow> nat \<Rightarrow> nat \<Rightarrow> examples_simple_data \<Rightarrow>
    examples_simple_data cpp_node \<Rightarrow> examples_simple_data cpp_node result option" where
  "cpp_provider_loop 0 interrupted k active r p content n = None"
| "cpp_provider_loop (Suc fuel) interrupted k active r p content n =
     (if interrupted k then Some (cpp_sigint_handler n)
      else
        case cpp_provider_turn fuel active r p content n of
          None \<Rightarrow> None
        | Some (Inl e) \<Rightarrow> Some (Inl e)
        | Some (Inr (Inl ex, n)) \<Rightarrow> Some (Inr n)
        | Some (Inr (Inr _, n)) \<Rightarrow>
            cpp_provider_loop fuel interrupted (Suc k) active r p (content\<lparr>number := number content + 1\<rparr>) n)"

definition cpp_provider_main where
  "cpp_provider_main fuel interrupted active as_buffer of_buffer slot inet_aton an close destroy self f r argument s =
     (case network_create inet_aton (ascii ''127.0.0.1'') (ascii ''255.0.0.0'') of
        Inl ex \<Rightarrow> Some (Inr (0, s))
      | Inr net \<Rightarrow>
          case node_create an net (ascii ''provider'') self f s of
            (Inl ex, s) \<Rightarrow> Some (Inr (0, s))
          | (Inr n, s) \<Rightarrow>
              case rbind (record_create as_buffer of_buffer (ascii ''/test'') (cpp_simple_data_typesupport slot))
                  (\<lambda>record. node_advertise r (n\<lparr>c_node := store_resource r record (c_node n)\<rparr>)) of
                Inl e \<Rightarrow> Some (Inl e)
              | Inr (Inl ex, n) \<Rightarrow> leave close destroy (Some (Inr n))
              | Inr (Inr p, n) \<Rightarrow>
                  leave close destroy (cpp_provider_loop fuel interrupted 0 active r p (provider_content argument) n))"

text \<open>The function that the tracker gives the node object, for the resource \<open>r\<close>.\<close>

definition print_data :: "nat \<Rightarrow> examples_simple_data \<Rightarrow> examples_simple_data sys \<Rightarrow> (bytes \<times> nat \<times> bytes) result" where
  "print_data r d s =
     rbind (c_string (data d)) (\<lambda>text.
     rbind (resource_path (resources s r)) (\<lambda>path.
     Inr (text, unat (number d), path)))"

definition cpp_tracker_main where
  "cpp_tracker_main fuel interrupted active as_buffer of_buffer slot inet_aton an close destroy self f r print_record s =
     (case network_create inet_aton (ascii ''127.0.0.1'') (ascii ''255.0.0.0'') of
        Inl ex \<Rightarrow> Some (Inr (0, s))
      | Inr net \<Rightarrow>
          case node_create an net (ascii ''tracker'') self f s of
            (Inl ex, s) \<Rightarrow> Some (Inr (0, s))
          | (Inr n, s) \<Rightarrow>
              case rbind (record_create as_buffer of_buffer (ascii ''/test'') (cpp_simple_data_typesupport slot))
                  (\<lambda>record. node_track r print_record (n\<lparr>c_node := store_resource r record (c_node n)\<rparr>)) of
                Inl e \<Rightarrow> Some (Inl e)
              | Inr (Inl ex, n) \<Rightarrow> leave close destroy (Some (Inr n))
              | Inr (Inr _, n) \<Rightarrow>
                  leave close destroy
                    (case if interrupted then cpp_sigint_handler n else Inr n of
                       Inl e \<Rightarrow> Some (Inl e)
                     | Inr n \<Rightarrow>
                         map_option (\<lambda>m. rbind m (\<lambda>(ended, n). Inr n)) (node_spin_forever fuel active n)))"

section \<open>Starting\<close>

text \<open>A resource that a node which has just been initialised advertises gets the first slot.\<close>

lemma init_fresh:
  assumes "uccn_node_init an net name m = (ret, s)" and "ret \<ge> 0" and "node_memory m"
    and "length name < CONFIG_UCCN_MAX_NODE_NAME_SIZE"
  shows "ret = 0 \<and> registered s \<and> \<not> mutex_locked s \<and> num_trackers s = 0 \<and> num_providers s = 0 \<and>
    clock_gettime s = clock_gettime m \<and> pselect s = pselect m \<and> 0 \<in> set (node_name s) \<and>
    stop_pipe s = \<lparr>pipe_pending = 0, pipe_capacity = an_capacity an\<rparr>"
proof -
  obtain addr ev where run: "ret = 0" "s = sync_done ev \<lparr>pipe_pending = 0, pipe_capacity = an_capacity an\<rparr> (init_fields net name
      (m\<lparr>broadcast_socket := an_broadcast_socket an, socket := an_socket an, address := addr\<rparr>))"
    by (rule node_init_done [OF assms(1,2)])
  let ?m = "m\<lparr>broadcast_socket := an_broadcast_socket an, socket := an_socket an, address := addr\<rparr>"
  have "node_memory ?m" using assms(3) by (simp add: node_memory_def)
  note init_fields_registered(1) [OF this assms(4), of net]
  then show ?thesis using run(1) zero_in_strncpy [OF assms(4)] by (simp add: run(2)) (simp add: sync_done_def init_fields_def)
qed

lemma stored_resource [simp]: "resources (store_resource r res s) r = res"
  by (simp add: store_resource_def)

lemma registered_stored: "registered s \<Longrightarrow> num_trackers s = 0 \<Longrightarrow> num_providers s = 0 \<Longrightarrow> registered (store_resource r res s)"
  by (simp add: store_resource_def registered_def wf_node_def hash_table_def)

lemma first_advertised:
  assumes "registered s" and "\<not> mutex_locked s" and "num_trackers s = 0" and "num_providers s = 0"
  shows "\<exists>prs. uccn_advertise r (store_resource r res s) =
    Inr (Some 0, (store_resource r res s)\<lparr>providers := prs, num_providers := 1\<rparr>) \<and>
    length prs = CONFIG_UCCN_MAX_NUM_PROVIDERS \<and> ep_resource (prs ! 0) = r"
proof -
  let ?s = "store_resource r res s"
  have wf: "wf_node ?s" "\<not> mutex_locked ?s" using registered_stored [OF assms(1,3,4)] assms(2)
    by (simp_all add: registered_def store_resource_def)
  have n: "num_providers ?s = 0" using assms(4) by (simp add: store_resource_def)
  have len: "length (providers ?s) = CONFIG_UCCN_MAX_NUM_PROVIDERS" using wf(1) by (simp add: wf_node_def)
  from wf show ?thesis
  proof (cases rule: uccn_advertise_cases [where r = r])
    case new
    then show ?thesis using n len
      by (intro exI [of _ "(providers ?s)[0 := (providers ?s ! 0)\<lparr>ep_resource := r, ep_num_peers := 0\<rparr>]"]) (simp add: config_simps)
  qed (use n in simp_all)
qed

lemma record_initialised:
  "\<exists>res. uccn_record_init as_buffer of_buffer path (Some (g_simple_data_typesupport slot)) = Inr res \<and>
    res_path res = c_strncpy CONFIG_UCCN_MAX_RESOURCE_PATH_SIZE path"
  by (simp add: uccn_record_init_def g_simple_data_typesupport_def uccn_resource_init_def c_assert_def)

lemma program_names:
  "length (ascii ''provider'') < CONFIG_UCCN_MAX_NODE_NAME_SIZE" "c_str (ascii ''provider'') = ascii ''provider''"
  "length (ascii ''tracker'') < CONFIG_UCCN_MAX_NODE_NAME_SIZE" "c_str (ascii ''tracker'') = ascii ''tracker''"
  "c_str (ascii ''/test'') = ascii ''/test''"
  by (simp_all add: ascii_def c_str_def config_simps)

text \<open>
  The main functions up to their loops, at a system whose node initialises and whose C library can
  read the programs' two addresses.
\<close>

definition can_start :: "(bytes \<Rightarrow> u32 option) \<Rightarrow> init_answers \<Rightarrow> examples_simple_data sys \<Rightarrow> bool" where
  "can_start inet_aton an m \<longleftrightarrow> node_memory m \<and>
     fst (uccn_node_init an loopback (ascii ''provider'') m) = 0 \<and>
     fst (uccn_node_init an loopback (ascii ''tracker'') m) = 0 \<and>
     inet_aton (ascii ''127.0.0.1'') = Some 0x7F000001 \<and> inet_aton (ascii ''255.0.0.0'') = Some 0xFF000000"

lemma can_start_network:
  "can_start inet_aton an m \<Longrightarrow> network_create inet_aton (ascii ''127.0.0.1'') (ascii ''255.0.0.0'') = Inr loopback"
proof -
  have "c_str (ascii ''127.0.0.1'') = ascii ''127.0.0.1''" "c_str (ascii ''255.0.0.0'') = ascii ''255.0.0.0''"
    by (simp_all add: ascii_def c_str_def)
  then show "can_start inet_aton an m \<Longrightarrow> ?thesis" by (simp add: can_start_def network_create_def loopback_def)
qed

definition started_node :: "init_answers \<Rightarrow> string \<Rightarrow> examples_simple_data sys \<Rightarrow> examples_simple_data sys" where
  "started_node an name m = snd (uccn_node_init an loopback (ascii name) m)"

lemma can_start_init:
  assumes "can_start inet_aton an m"
  shows "uccn_node_init an loopback (ascii ''provider'') m = (0, started_node an ''provider'' m)"
    and "uccn_node_init an loopback (ascii ''tracker'') m = (0, started_node an ''tracker'' m)"
  using assms by (simp_all add: can_start_def started_node_def prod_eq_iff)

text \<open>What the providers rely on: a registered provider of the resource \<open>r\<close>, and strings that end.\<close>

definition provides_test :: "nat \<Rightarrow> examples_simple_data sys \<Rightarrow> bool" where
  "provides_test r s \<longleftrightarrow> registered s \<and> ep_resource (providers s ! 0) = r \<and> 0 \<in> set (res_path (resources s r)) \<and>
     0 \<in> set (node_name s)"

definition descriptors :: "'c sys \<Rightarrow> int list" where
  "descriptors s = [socket s, broadcast_socket s, fd_read (stop_event s), fd_write (stop_event s)]"

lemma record_path:
  "uccn_record_init as_buffer of_buffer (ascii ''/test'') (Some ts) = Inr res \<Longrightarrow>
   res_path res = c_strncpy CONFIG_UCCN_MAX_RESOURCE_PATH_SIZE (ascii ''/test'')"
  by (auto simp: uccn_record_init_def uccn_resource_init_def rbind_eq_Inr)

lemma test_path: "0 \<in> set (c_strncpy CONFIG_UCCN_MAX_RESOURCE_PATH_SIZE (ascii ''/test''))"
  by (rule zero_in_strncpy) (simp add: ascii_def config_simps)

lemma provider_starts:
  assumes "can_start inet_aton an m"
  defines "s \<equiv> started_node an ''provider'' m"
  shows "\<exists>u. provides_test r u \<and> descriptors u = descriptors s \<and> clock_gettime u = clock_gettime m \<and> pselect u = pselect m \<and>
    (\<forall>fuel interrupted active close destroy argument.
      provider_main fuel interrupted active as_buffer of_buffer slot an close destroy r argument m =
        finish close destroy (provider_loop fuel interrupted 0 active 0 (provider_content argument) u)) \<and>
    (\<forall>fuel interrupted active close destroy argument self f.
      cpp_provider_main fuel interrupted active as_buffer of_buffer slot inet_aton an close destroy self f r argument m =
        leave close destroy (cpp_provider_loop fuel interrupted 0 active r 0 (provider_content argument)
          \<lparr>c_node = u, generic_track_cpp_functions = (\<lambda>_. None), this = self, c_function = f\<rparr>))"
proof -
  note init = can_start_init(1) [OF assms(1), folded s_def]
  have m: "node_memory m" using assms(1) by (simp add: can_start_def)
  note s = init_fresh [OF init _ m program_names(1), simplified]
  obtain res where res: "uccn_record_init as_buffer of_buffer (ascii ''/test'') (Some (g_simple_data_typesupport slot)) = Inr res"
    using record_initialised by blast
  obtain prs where adv: "uccn_advertise r (store_resource r res s) =
      Inr (Some 0, (store_resource r res s)\<lparr>providers := prs, num_providers := 1\<rparr>)" and prs: "ep_resource (prs ! 0) = r"
    using first_advertised [of s r res] s by auto
  let ?u = "(store_resource r res s)\<lparr>providers := prs, num_providers := 1\<rparr>"
  have "registered (store_resource r res s)" "\<not> mutex_locked (store_resource r res s)"
    using registered_stored s by (auto simp: store_resource_def)
  from wpf_InrD [OF uccn_advertise_keeps [OF this] adv] have "registered ?u" by simp
  then have "provides_test r ?u" using prs s test_path record_path [OF res]
    by (simp add: provides_test_def) (simp add: store_resource_def)
  moreover have "clock_gettime ?u = clock_gettime m" "pselect ?u = pselect m" "descriptors ?u = descriptors s"
    using s by (simp_all add: store_resource_def descriptors_def)
  ultimately show ?thesis
    by (intro exI [of _ ?u])
      (simp add: provider_main_def cpp_provider_main_def init res adv can_start_network [OF assms(1)] node_create_def
        program_names record_create_def cpp_typesupport_eq node_advertise_def)
qed

text \<open>The trackers, with the same numbers for their callbacks and arguments.\<close>

lemma first_tracked:
  assumes "registered s" and "\<not> mutex_locked s" and "num_trackers s = 0" and "num_providers s = 0"
  shows "\<exists>t. uccn_track r f a (store_resource r res s) = Inr (Some 0, t) \<and> registered t \<and>
    descriptors t = descriptors s \<and> node_name t = node_name s \<and> clock_gettime t = clock_gettime s \<and>
    pselect t = pselect s \<and> stop_pipe t = stop_pipe s"
proof -
  let ?s = "store_resource r res s"
  have r: "registered ?s" "\<not> mutex_locked ?s" using registered_stored [OF assms(1,3,4)] assms(2)
    by (simp_all add: store_resource_def)
  then have wf: "wf_node ?s" by (simp add: registered_def)
  have n: "num_trackers ?s = 0" using assms(3) by (simp add: store_resource_def)
  note keeps = wpf_InrD [OF uccn_track_keeps [OF r]]
  from wf r(2) show ?thesis
  proof (cases rule: uccn_track_cases [where r = r and f = f and a = a])
    case new
    obtain t where t: "uccn_track r f a ?s = Inr (Some 0, t)" "descriptors t = descriptors s" "node_name t = node_name s"
        "clock_gettime t = clock_gettime s" "pselect t = pselect s" "stop_pipe t = stop_pipe s"
      using new n by (simp add: config_simps descriptors_def store_resource_def)
    then show ?thesis using keeps [OF t(1)] by simp
  qed (use n in simp_all)
qed

lemma tracker_starts:
  assumes "can_start inet_aton an m"
  defines "s \<equiv> started_node an ''tracker'' m"
  shows "\<exists>u functions. registered u \<and> 0 \<in> set (node_name u) \<and> descriptors u = descriptors s \<and>
    clock_gettime u = clock_gettime m \<and> pselect u = pselect m \<and>
    stop_pipe u = \<lparr>pipe_pending = 0, pipe_capacity = an_capacity an\<rparr> \<and>
    (\<forall>fuel stopped active close destroy.
      tracker_main fuel stopped active as_buffer of_buffer slot an close destroy r f x m =
        finish close destroy (map_option (\<lambda>m. rbind m (\<lambda>(ret, s). Inr s))
          (uccn_spin fuel active None (if stopped then sigint_handler u else u)))) \<and>
    (\<forall>fuel stopped active close destroy.
      cpp_tracker_main fuel stopped active as_buffer of_buffer slot inet_aton an close destroy x f r print m =
        leave close destroy
          (case let n = \<lparr>c_node = u, generic_track_cpp_functions = functions, this = x, c_function = f\<rparr>
            in if stopped then cpp_sigint_handler n else Inr n of
              Inl e \<Rightarrow> Some (Inl e)
            | Inr n \<Rightarrow> map_option (\<lambda>m. rbind m (\<lambda>(ended, n). Inr n)) (node_spin_forever fuel active n)))"
proof -
  note init = can_start_init(2) [OF assms(1), folded s_def]
  have m: "node_memory m" using assms(1) by (simp add: can_start_def)
  note s = init_fresh [OF init _ m program_names(3), simplified]
  obtain res where res: "uccn_record_init as_buffer of_buffer (ascii ''/test'') (Some (g_simple_data_typesupport slot)) = Inr res"
    using record_initialised by blast
  obtain u where "uccn_track r f x (store_resource r res s) = Inr (Some 0, u)" "registered u"
    "descriptors u = descriptors s" "node_name u = node_name s" "clock_gettime u = clock_gettime s"
    "pselect u = pselect s" "stop_pipe u = stop_pipe s"
    using first_tracked [of s r f x res] s by auto
  then show ?thesis using s
    by (intro exI [of _ u] exI [of _ "(\<lambda>_. None)(res_hash res := Some (Record_Function print))"])
      (simp add: tracker_main_def cpp_tracker_main_def init res can_start_network [OF assms(1)] node_create_def
        program_names record_create_def cpp_typesupport_eq node_track_def generic_track_def)
qed

end
