(* ===== verification/Example_Runs.thy ===== *)
theory Example_Runs
  imports Examples Spin_Runs
begin

text \<open>
  Runs of the example programs: those in C++ do what those in C do; all of them close what they have
  opened; they come to an end when they are interrupted, whatever happens on the network;
  and what the trackers print is what the providers have posted.
\<close>

section \<open>The same programs twice\<close>

lemma provides_test_step: "provides_test r s \<Longrightarrow> spun_from s t \<Longrightarrow> provides_test r t"
proof -
  assume s: "provides_test r s" and t: "spun_from s t"
  then have "length (providers s) = CONFIG_UCCN_MAX_NUM_PROVIDERS"
    by (simp add: provides_test_def registered_def wf_node_def)
  then have "ep_resource (providers t ! 0) = ep_resource (providers s ! 0)"
    using same_endpoints_nth(1) [of "providers s" "providers t" 0] t by (simp add: spun_from_def same_tables_def config_simps)
  then show "provides_test r t" using s t by (simp add: provides_test_def spun_from_def same_setup_def)
qed

lemma provides_testD:
  assumes "provides_test r s"
  shows "registered s" "arr_get (providers s) 0 = Inr (providers s ! 0)" "ep_resource (providers s ! 0) = r"
    "\<exists>path. c_string (res_path (resources s r)) = Inr path" "\<exists>name. c_string (node_name s) = Inr name"
  using assms by (auto simp: provides_test_def registered_def wf_node_def c_string_def config_simps)

text \<open>What is left of a C++ function, when its exceptions are taken for the answer \<open>False\<close>.\<close>

definition plain :: "(unit outcome \<times> 'c cpp_node) result option \<Rightarrow> (bool \<times> 'c sys) result option" where
  "plain = map_option (\<lambda>x. rbind x (\<lambda>(ended, n). Inr (\<not> isl ended, c_node n)))"

lemma second_timeout: "c_timeout 1000000000 = TIMESPEC_SECONDS_INIT 1"
  by (simp add: c_timeout_def TIMESPEC_SECONDS_INIT_def)

lemma plain_spun:
  assumes "\<And>ret s. m = Some (Inr (ret, s)) \<Longrightarrow> \<exists>name. c_string (node_name s) = Inr name"
  shows "plain (spun n m) = map_option (\<lambda>m. rbind m (\<lambda>(ret, s). Inr (\<not> ret < 0, s))) m"
proof (cases m)
  case (Some x)
  then show ?thesis
  proof (cases x)
    case (Inr y)
    then obtain ret s name where "y = (ret, s)" "c_string (node_name s) = Inr name" using assms Some by (cases y) blast
    then show ?thesis using Some Inr by (simp add: plain_def spun_def about_node_def Let_def)
  qed (simp add: plain_def spun_def)
qed (simp add: plain_def spun_def)

lemma plain_turn:
  assumes "provides_test r (c_node n)"
  shows "plain (cpp_provider_turn fuel active r 0 content n) = provider_turn fuel active 0 content (c_node n)"
proof -
  note s = provides_testD [OF assms]
  obtain path where path: "c_string (res_path (resources (c_node n) r)) = Inr path" using s(4) by blast
  have res: "resource_of (c_node n) (providers (c_node n) ! 0) = resources (c_node n) r" by (simp add: resource_of_def s(3))
  show ?thesis
  proof (cases "c_string (data content)")
    case (Inl e)
    then show ?thesis by (simp add: cpp_provider_turn_def provider_turn_def plain_def)
  next
    case (Inr str)
    note start = Inr
    show ?thesis
    proof (cases "uccn_post 0 (Some content) (c_node n)")
      case (Inl e)
      then show ?thesis
        by (simp add: cpp_provider_turn_def provider_turn_def plain_def start s(2) res path resource_path_def record_post_def)
    next
      case (Inr y)
      then obtain ret t where t: "uccn_post 0 (Some content) (c_node n) = Inr (ret, t)" by (cases y) auto
      then have "provides_test r t" using provides_test_step [OF assms post_spun_from [OF s(1)]] by blast
      note u = provides_testD [OF this]
      have "\<exists>name. c_string (node_name v) = Inr name"
        if "uccn_spin fuel active (Some (TIMESPEC_SECONDS_INIT 1)) t = Some (Inr (ret, v))" for ret v
        using provides_testD(5) [OF provides_test_step [OF \<open>provides_test r t\<close> spin_timeout_spun_from [OF u(1) that]]] .
      then have spin: "plain (node_spin_for fuel active 1000000000 (n\<lparr>c_node := t\<rparr>)) =
          map_option (\<lambda>m. rbind m (\<lambda>(ret, s). Inr (\<not> ret < 0, s))) (uccn_spin fuel active (Some (TIMESPEC_SECONDS_INIT 1)) t)"
        by (simp add: node_spin_for_def node_spin_def second_timeout plain_spun)
      obtain path' where "c_string (res_path (resources t r)) = Inr path'" using u(4) by blast
      moreover have "resource_of t (providers t ! 0) = resources t r" by (simp add: resource_of_def u(3))
      ultimately show ?thesis using spin u(2)
        by (simp add: cpp_provider_turn_def provider_turn_def start s(2) res path resource_path_def record_post_def t
            about_resource_def Let_def)
          (simp add: plain_def)
    qed
  qed
qed

text \<open>A loop or the end of one, down to the C node.\<close>

definition down :: "'c cpp_node result \<Rightarrow> 'c sys result" where
  "down x = rbind x (\<lambda>n. Inr (c_node n))"

lemma down_simps [simp]: "down (Inl e) = Inl e" "down (Inr n) = Inr (c_node n)"
  by (simp_all add: down_def)

lemma down_sigint: "0 \<in> set (node_name (c_node n)) \<Longrightarrow> down (cpp_sigint_handler n) = Inr (sigint_handler (c_node n))"
  by (auto simp: cpp_sigint_handler_def node_stop_def sigint_handler_def uccn_stop_def c_string_def Let_def split: prod.splits)

lemma sigint_spun_from: "registered s \<Longrightarrow> spun_from s (sigint_handler s)"
  using stop_spun_from [of s] by (simp add: sigint_handler_def prod_eq_iff)

lemma provider_turn_spun_from:
  assumes "registered s" and "provider_turn fuel active p content s = Some (Inr (going_on, t))"
  shows "spun_from s t"
proof -
  obtain ret u where post: "uccn_post p (Some content) s = Inr (ret, u)"
    and rest: "t = u \<or> (\<exists>ret. uccn_spin fuel active (Some (TIMESPEC_SECONDS_INIT 1)) u = Some (Inr (ret, t)))"
    using assms(2) by (fastforce simp: provider_turn_def rbind_eq_Inr split: sum.splits if_splits)
  have u: "spun_from s u" by (rule post_spun_from [OF assms(1) post])
  then have "registered u" by (simp add: spun_from_def)
  then show ?thesis using rest u spin_timeout_spun_from spun_from_trans by blast
qed

lemma plain_eq_Some_Inr: "plain x = Some (Inr (b, s)) \<longleftrightarrow> (\<exists>ended n. x = Some (Inr (ended, n)) \<and> b = (\<not> isl ended) \<and> s = c_node n)"
  by (auto simp: plain_def rbind_eq_Inr)

lemma down_loop:
  "provides_test r (c_node n) \<Longrightarrow>
   map_option down (cpp_provider_loop fuel interrupted k active r 0 content n) =
     provider_loop fuel interrupted k active 0 content (c_node n)"
proof (induction fuel arbitrary: k content n)
  case (Suc fuel)
  note turn = plain_turn [OF Suc.prems, of fuel active content]
  show ?case
  proof (cases "interrupted k")
    case True
    then show ?thesis using Suc.prems by (simp add: down_sigint provides_test_def)
  next
    case False
    show ?thesis
    proof (cases "cpp_provider_turn fuel active r 0 content n")
      case None
      then show ?thesis using turn False by (simp add: plain_def)
    next
      case (Some x)
      show ?thesis
      proof (cases x)
        case (Inl e)
        then show ?thesis using turn [symmetric] False Some by (simp add: plain_def)
      next
        case (Inr y)
        obtain ended n' where y: "y = (ended, n')" by (cases y)
        have run: "provider_turn fuel active 0 content (c_node n) = Some (Inr (\<not> isl ended, c_node n'))"
          using turn [symmetric] Some Inr y by (simp add: plain_def)
        have "provides_test r (c_node n')"
          using provides_test_step [OF Suc.prems provider_turn_spun_from [OF _ run]] Suc.prems by (simp add: provides_test_def)
        then show ?thesis using Suc.IH [of n'] False Some Inr y run by (cases ended) simp_all
      qed
    qed
  qed
qed simp

lemma provider_loop_spun_from:
  "registered s \<Longrightarrow> provider_loop fuel interrupted k active p content s = Some (Inr t) \<Longrightarrow> spun_from s t"
proof (induction fuel arbitrary: k content s)
  case (Suc fuel)
  show ?case
  proof (cases "interrupted k")
    case True
    then show ?thesis using Suc.prems sigint_spun_from by auto
  next
    case False
    then obtain on u where turn: "provider_turn fuel active p content s = Some (Inr (on, u))"
      using Suc.prems(2) by (auto split: option.splits sum.splits)
    have u: "spun_from s u" by (rule provider_turn_spun_from [OF Suc.prems(1) turn])
    then have "registered u" by (simp add: spun_from_def)
    then show ?thesis using Suc.prems(2) False turn u Suc.IH [of u] spun_from_trans [OF u]
      by (auto split: if_splits)
  qed
qed simp

text \<open>The C++ programs answer 0 where the C programs answer what \<open>uccn_node_fini\<close> does.\<close>

definition answer_zero :: "program \<Rightarrow> program" where
  "answer_zero = map_option (\<lambda>x. rbind x (\<lambda>(ret, s). Inr (0, s)))"

lemma leave_finish:
  assumes "\<And>s. map_option down m = Some (Inr s) \<Longrightarrow> 0 \<in> set (node_name s)"
  shows "leave close destroy m = answer_zero (finish close destroy (map_option down m))"
proof (cases m)
  case (Some x)
  then show ?thesis
  proof (cases x)
    case (Inr n)
    obtain ret u where fini: "uccn_node_fini close destroy (c_node n) = (ret, u)" by fastforce
    have "node_name u = node_name (c_node n)"
      using fini by (auto simp: uccn_node_fini_def Let_def close_fds_def)
    then have "\<exists>name. c_string (node_name u) = Inr name" using assms Some Inr by (simp add: c_string_def)
    then show ?thesis using Some Inr fini
      by (auto simp: leave_def node_destroy_def finish_def answer_zero_def)
  qed (simp add: leave_def finish_def answer_zero_def)
qed (simp add: leave_def finish_def answer_zero_def)

lemma providers_agree:
  assumes "can_start inet_aton an m"
  shows "cpp_provider_main fuel interrupted active as_buffer of_buffer slot inet_aton an close destroy self f r argument m =
    answer_zero (provider_main fuel interrupted active as_buffer of_buffer slot an close destroy r argument m)"
proof -
  obtain u where u: "provides_test r u"
    and main: "provider_main fuel interrupted active as_buffer of_buffer slot an close destroy r argument m =
        finish close destroy (provider_loop fuel interrupted 0 active 0 (provider_content argument) u)"
      "cpp_provider_main fuel interrupted active as_buffer of_buffer slot inet_aton an close destroy self f r argument m =
        leave close destroy (cpp_provider_loop fuel interrupted 0 active r 0 (provider_content argument)
          \<lparr>c_node = u, generic_track_cpp_functions = (\<lambda>_. None), this = self, c_function = f\<rparr>)"
    using provider_starts [OF assms, of r as_buffer of_buffer slot] by blast
  let ?n = "\<lparr>c_node = u, generic_track_cpp_functions = (\<lambda>_. None), this = self, c_function = f\<rparr>"
  have loop: "map_option down (cpp_provider_loop fuel interrupted 0 active r 0 (provider_content argument) ?n) =
      provider_loop fuel interrupted 0 active 0 (provider_content argument) u"
    using down_loop [of r ?n] u by simp
  have "0 \<in> set (node_name s)" if "provider_loop fuel interrupted 0 active 0 (provider_content argument) u = Some (Inr s)" for s
    using provides_test_step [OF u provider_loop_spun_from [OF _ that]] u by (simp add: provides_test_def)
  then show ?thesis unfolding main by (subst leave_finish) (auto simp: loop)
qed

lemma down_plain:
  "map_option down (map_option (\<lambda>x. rbind x (\<lambda>(ended, n). Inr n)) y) =
   map_option (\<lambda>x. rbind x (\<lambda>(b, s). Inr s)) (plain y)"
proof (cases y)
  case (Some x)
  then show ?thesis by (cases x) (auto simp: plain_def)
qed (simp add: plain_def)

lemma trackers_agree:
  assumes "can_start inet_aton an m"
  shows "cpp_tracker_main fuel stopped active as_buffer of_buffer slot inet_aton an close destroy x f r print m =
    answer_zero (tracker_main fuel stopped active as_buffer of_buffer slot an close destroy r f x m)"
proof -
  obtain u fs where u: "registered u" "0 \<in> set (node_name u)"
    and main: "tracker_main fuel stopped active as_buffer of_buffer slot an close destroy r f x m =
        finish close destroy (map_option (\<lambda>m. rbind m (\<lambda>(ret, s). Inr s))
          (uccn_spin fuel active None (if stopped then sigint_handler u else u)))"
      "cpp_tracker_main fuel stopped active as_buffer of_buffer slot inet_aton an close destroy x f r print m =
        leave close destroy
          (case let n = \<lparr>c_node = u, generic_track_cpp_functions = fs, this = x, c_function = f\<rparr>
            in if stopped then cpp_sigint_handler n else Inr n of
              Inl e \<Rightarrow> Some (Inl e)
            | Inr n \<Rightarrow> map_option (\<lambda>m. rbind m (\<lambda>(ended, n). Inr n)) (node_spin_forever fuel active n))"
    using tracker_starts [OF assms, of as_buffer of_buffer slot r f x print] by blast
  let ?n = "\<lparr>c_node = u, generic_track_cpp_functions = fs, this = x, c_function = f\<rparr>"
  have "\<exists>n. (if stopped then cpp_sigint_handler ?n else Inr ?n) = Inr n \<and>
      c_node n = (if stopped then sigint_handler u else u)"
    using down_sigint [of ?n] u(2) by (cases "cpp_sigint_handler ?n") auto
  then obtain n where n: "(if stopped then cpp_sigint_handler ?n else Inr ?n) = Inr n"
      "c_node n = (if stopped then sigint_handler u else u)"
    by blast
  have c: "spun_from u (c_node n)" using n(2) sigint_spun_from [OF u(1)] spun_from_refl [OF u(1)] by simp
  have name: "0 \<in> set (node_name v)" if "uccn_spin fuel active None (c_node n) = Some (Inr (ret, v))" for ret v
    using spin_timeout_spun_from [OF _ that] c u(2) by (simp add: spun_from_def same_setup_def)
  then have "plain (node_spin_forever fuel active n) =
      map_option (\<lambda>m. rbind m (\<lambda>(ret, s). Inr (\<not> ret < 0, s))) (uccn_spin fuel active None (c_node n))"
    unfolding node_spin_forever_def node_spin_def by (intro plain_spun) (auto simp: c_string_def)
  then have loop: "map_option down (map_option (\<lambda>m. rbind m (\<lambda>(ended, n). Inr n)) (node_spin_forever fuel active n)) =
      map_option (\<lambda>m. rbind m (\<lambda>(ret, s). Inr s)) (uccn_spin fuel active None (c_node n))"
    unfolding down_plain by (simp add: option.map_comp comp_def rbind_assoc split_def)
  have "0 \<in> set (node_name v)"
    if "map_option (\<lambda>m. rbind m (\<lambda>(ret, s). Inr s)) (uccn_spin fuel active None (c_node n)) = Some (Inr v)" for v
    using that name by (auto simp: rbind_eq_Inr)
  then have "leave close destroy (map_option (\<lambda>m. rbind m (\<lambda>(ended, n). Inr n)) (node_spin_forever fuel active n)) =
      answer_zero (finish close destroy
        (map_option (\<lambda>m. rbind m (\<lambda>(ret, s). Inr s)) (uccn_spin fuel active None (c_node n))))"
    using leave_finish [of "map_option (\<lambda>m. rbind m (\<lambda>(ended, n). Inr n)) (node_spin_forever fuel active n)"]
    unfolding loop by blast
  then show ?thesis unfolding main Let_def n(1) sum.case n(2) .
qed


section \<open>What the programs leave\<close>

text \<open>A program that ends has closed the given descriptors last.\<close>

definition ends_closed :: "int list \<Rightarrow> program \<Rightarrow> bool" where
  "ends_closed ds m = (case m of None \<Rightarrow> True | Some r \<Rightarrow> wpf UNIV r (\<lambda>(ret, s). \<exists>es. trace s = es @ map Closed ds))"

lemma ends_closed_zero [simp]: "ends_closed ds (answer_zero m) = ends_closed ds m"
proof (cases m)
  case (Some x)
  then show ?thesis by (cases x) (auto simp: ends_closed_def answer_zero_def)
qed (simp add: ends_closed_def answer_zero_def)

lemma descriptors_setup: "spun_from s t \<Longrightarrow> descriptors t = descriptors s"
  by (simp add: spun_from_def same_setup_def descriptors_def)

lemma ends_closed_finish:
  assumes "\<And>s. m = Some (Inr s) \<Longrightarrow> descriptors s = ds"
  shows "ends_closed ds (finish close destroy m)"
proof (cases m)
  case (Some r)
  then show ?thesis
  proof (cases r)
    case (Inr s)
    then show ?thesis using assms Some
      by (auto simp: ends_closed_def finish_def uccn_node_fini_def close_fds_def descriptors_def Let_def)
  qed (simp add: ends_closed_def finish_def)
qed (simp add: ends_closed_def finish_def)


text \<open>
  The provider programs copy their argument with \<open>strncpy\<close> into the 64 bytes of the record's
  string: with an argument of 64 or more characters both of them read past it, when they print the
  string for the first time.
\<close>

theorem long_argument_overruns:
  assumes "can_start inet_aton an m" and "\<not> interrupted 0" and "0 \<notin> set argument" and "64 \<le> length argument"
  shows "provider_main (Suc fuel) interrupted active as_buffer of_buffer slot an close destroy r (Some argument) m =
      Some (Inl Out_Of_Bounds) \<and>
    cpp_provider_main (Suc fuel) interrupted active as_buffer of_buffer slot inet_aton an close destroy self f r (Some argument) m =
      Some (Inl Out_Of_Bounds)"
proof -
  have "c_string (data (provider_content (Some argument))) = Inl Out_Of_Bounds"
    using assms(3,4) by (simp add: provider_content_def c_string_c_strncpy_overrun)
  then have "provider_main (Suc fuel) interrupted active as_buffer of_buffer slot an close destroy r (Some argument) m =
      Some (Inl Out_Of_Bounds)"
    using provider_starts [OF assms(1), of r as_buffer of_buffer slot] assms(2)
    by (auto simp: finish_def provider_turn_def)
  then show ?thesis by (simp add: providers_agree [OF assms(1)] answer_zero_def)
qed

section \<open>More fuel\<close>

lemma spin_timeout_more_fuel: "uccn_spin m active timeout s = Some r \<Longrightarrow> m \<le> n \<Longrightarrow> uccn_spin n active timeout s = Some r"
  using spin_more_fuel
  by (cases timeout; cases "sys_clock s") (auto simp: uccn_spin_def split: if_splits)

lemma provider_turn_more_fuel:
  assumes "provider_turn m active p content s = Some r" and "m \<le> n"
  shows "provider_turn n active p content s = Some r"
  using assms(1) spin_timeout_more_fuel [OF _ assms(2)]
  by (fastforce simp: provider_turn_def split: sum.splits prod.splits if_splits)

lemma provider_loop_more_fuel:
  "provider_loop m interrupted k active p content s = Some r \<Longrightarrow> m \<le> n \<Longrightarrow>
   provider_loop n interrupted k active p content s = Some r"
proof (induction m arbitrary: n k content s)
  case (Suc m)
  from Suc.prems(2) obtain j where j: "n = Suc j" "m \<le> j" by (cases n) auto
  show ?case
    using Suc.prems(1) provider_turn_more_fuel [OF _ j(2), of active p content s] Suc.IH [OF _ j(2)]
    by (auto simp: j(1) split: if_splits option.splits sum.splits)
qed simp

section \<open>The programs end\<close>

text \<open>A system whose clock moves on and whose waits are not interrupted for ever.\<close>

definition moves_on :: "'c sys \<Rightarrow> bool" where
  "moves_on s \<longleftrightarrow> ticking (clock_gettime s) \<and> (\<exists>m. quiet_within m (pselect s))"

lemma moves_on_step: "moves_on s \<Longrightarrow> spun_from s t \<Longrightarrow> moves_on t"
  by (simp add: moves_on_def spun_from_def same_setup_def)

lemma spin_one_second_returns: "moves_on s \<Longrightarrow> \<exists>N x. uccn_spin N active (Some (TIMESPEC_SECONDS_INIT 1)) s = Some x"
  unfolding moves_on_def using spin_returns [of s _ "TIMESPEC_SECONDS_INIT 1" active]
  by (auto simp: TIMESPEC_SECONDS_INIT_def normal_def) blast

lemma provider_turn_returns:
  assumes "registered s" and "moves_on s"
  shows "\<exists>N x. provider_turn N active p content s = Some x"
proof (cases "rbind (c_string (data content)) (\<lambda>_. rbind (arr_get (providers s) p) (\<lambda>provider.
    rbind (c_string (res_path (resource_of s provider))) (\<lambda>_. uccn_post p (Some content) s)))")
  case (Inl e)
  then show ?thesis by (simp add: provider_turn_def)
next
  case (Inr y)
  then obtain ret t where y: "y = (ret, t)" "uccn_post p (Some content) s = Inr (ret, t)"
    by (cases y) (auto simp: rbind_eq_Inr)
  then have "moves_on t" using moves_on_step [OF assms(2) post_spun_from [OF assms(1)]] by blast
  then obtain N x where "uccn_spin N active (Some (TIMESPEC_SECONDS_INIT 1)) t = Some x"
    using spin_one_second_returns by blast
  then show ?thesis using Inr y(1) by (intro exI [of _ N]) (simp add: provider_turn_def)
qed

lemma provider_loop_returns:
  "registered s \<Longrightarrow> moves_on s \<Longrightarrow> interrupted (k + d) \<Longrightarrow>
   \<exists>N x. provider_loop N interrupted k active p content s = Some x"
proof (induction d arbitrary: k content s)
  case 0
  then show ?case by (intro exI [of _ "Suc 0"]) simp
next
  case (Suc d)
  obtain N x where turn: "provider_turn N active p content s = Some x"
    using provider_turn_returns Suc.prems by blast
  show ?case
  proof (cases "\<exists>t. x = Inr (True, t) \<and> \<not> interrupted k")
    case False
    then show ?thesis
      by (intro exI [of _ "Suc N"]) (cases x; auto simp: turn)
  next
    case True
    then obtain t where t: "x = Inr (True, t)" "\<not> interrupted k" by blast
    let ?c = "content\<lparr>number := number content + 1\<rparr>"
    have "spun_from s t" using provider_turn_spun_from [OF Suc.prems(1)] turn t(1) by blast
    then have "registered t" "moves_on t" using moves_on_step [OF Suc.prems(2)] by (auto simp: spun_from_def)
    then obtain M y where rest: "provider_loop M interrupted (Suc k) active p ?c t = Some y"
      using Suc.IH [of t "Suc k" ?c] Suc.prems(3) by auto
    have "provider_loop (Suc (max N M)) interrupted k active p content s = Some y"
      using t provider_turn_more_fuel [OF turn, of "max N M"] provider_loop_more_fuel [OF rest, of "max N M"] by simp
    then show ?thesis by blast
  qed
qed

lemma provider_returns:
  assumes "can_start inet_aton an m" and "moves_on m" and "interrupted k"
  shows "\<exists>N x. \<forall>fuel\<ge>N.
    provider_main fuel interrupted active as_buffer of_buffer slot an close destroy r argument m = Some x"
proof -
  obtain u where u: "provides_test r u" "clock_gettime u = clock_gettime m" "pselect u = pselect m"
    and main: "\<forall>fuel. provider_main fuel interrupted active as_buffer of_buffer slot an close destroy r argument m =
        finish close destroy (provider_loop fuel interrupted 0 active 0 (provider_content argument) u)"
    using provider_starts [OF assms(1), of r as_buffer of_buffer slot] by (elim exE conjE) (rule that, assumption+, simp)
  have "registered u" "moves_on u" using u assms(2) by (simp_all add: provides_test_def moves_on_def)
  then obtain N x where "provider_loop N interrupted 0 active 0 (provider_content argument) u = Some x"
    using provider_loop_returns [of u interrupted 0 k active 0 "provider_content argument"] assms(3) by auto
  then have "provider_loop fuel interrupted 0 active 0 (provider_content argument) u = Some x" if "N \<le> fuel" for fuel
    using that by (rule provider_loop_more_fuel)
  then have "provider_main fuel interrupted active as_buffer of_buffer slot an close destroy r argument m =
      finish close destroy (Some x)" if "N \<le> fuel" for fuel
    using that by (simp only: main [rule_format])
  moreover obtain y where "finish close destroy (Some x) = Some y" by (simp add: finish_def)
  ultimately show ?thesis by (intro exI [of _ N] exI [of _ y]) simp
qed

lemma tracker_returns:
  assumes "can_start inet_aton an m" and "moves_on m" and "0 < an_capacity an"
  shows "\<exists>N x. \<forall>fuel\<ge>N. tracker_main fuel True active as_buffer of_buffer slot an close destroy r f a m = Some x"
proof -
  obtain u where u: "clock_gettime u = clock_gettime m" "pselect u = pselect m"
      "stop_pipe u = \<lparr>pipe_pending = 0, pipe_capacity = an_capacity an\<rparr>"
    and main: "\<forall>fuel. tracker_main fuel True active as_buffer of_buffer slot an close destroy r f a m =
        finish close destroy (map_option (\<lambda>m. rbind m (\<lambda>(ret, s). Inr s)) (uccn_spin fuel active None (sigint_handler u)))"
    using tracker_starts [OF assms(1), of as_buffer of_buffer slot r f a 0]
    by (elim exE conjE) (rule that, assumption+, simp)
  have stopped: "0 < pipe_pending (stop_pipe (sigint_handler u))"
    using stop_pending [of u] u(3) assms(3) by (simp add: sigint_handler_def)
  have "clock_gettime (sigint_handler u) = clock_gettime m" "pselect (sigint_handler u) = pselect m"
    using u by (simp_all add: sigint_handler_def stop_fields)
  moreover obtain l where "ticking (clock_gettime m)" "quiet_within l (pselect m)" using assms(2) by (auto simp: moves_on_def)
  ultimately have "\<exists>x. uccn_spin (Suc (Suc l)) active None (sigint_handler u) = Some x"
    by (intro stopped_spin_returns [OF stopped]) (simp_all add: ticking_def)
  then obtain x where spin: "uccn_spin (Suc (Suc l)) active None (sigint_handler u) = Some x" ..
  have "tracker_main fuel True active as_buffer of_buffer slot an close destroy r f a m =
      finish close destroy (Some (rbind x (\<lambda>(ret, s). Inr s)))" if "Suc (Suc l) \<le> fuel" for fuel
    using spin_timeout_more_fuel [OF spin that] by (simp add: main [rule_format])
  moreover obtain y where "finish close destroy (Some (rbind x (\<lambda>(ret, s). Inr s))) = Some y" by (simp add: finish_def)
  ultimately show ?thesis by (intro exI [of _ "Suc (Suc l)"] exI [of _ y]) simp
qed


section \<open>What the trackers print\<close>

lemma test_hash: "crc32 (ascii ''/test'') \<noteq> 0"
  by code_simp

lemma record_fields:
  assumes "uccn_record_init as_buffer of_buffer (ascii ''/test'') (Some (g_simple_data_typesupport slot)) = Inr res"
  shows "res_hash res = crc32 (ascii ''/test'')" "res_pack res = generic_record_pack (g_simple_data_typesupport slot)"
    "res_unpack res = generic_record_unpack (g_simple_data_typesupport slot)"
    "c_string (res_path res) = Inr (ascii ''/test'')"
  using assms
  by (auto simp: uccn_record_init_def uccn_resource_init_def rbind_eq_Inr c_string_c_strncpy ascii_def config_simps)

lemma record_bytes:
  assumes "carries_simple c bs"
  shows "bs \<noteq> []" "length bs \<le> 200"
proof -
  obtain cs where cs: "length cs < 64" "bs = enc_item (Item_U32 (number c)) @ enc_item (Item_Str cs)"
    using assms c_string_eq_Inr [of "data c"] by (auto simp: carries_simple_def)
  then show "length bs \<le> 200"
    by (auto simp: mpack_encode_fixuint_def mpack_encode_u8_def mpack_encode_u16_def mpack_encode_u32_def
        mpack_encode_fixstr_def mpack_encode_str8_def mpack_encode_str16_def mpack_encode_str32_def Let_def)
  show "bs \<noteq> []" using cs(2)
    by (auto simp: mpack_encode_fixuint_def mpack_encode_u8_def mpack_encode_u16_def mpack_encode_u32_def Let_def split: if_splits)
qed

text \<open>A record that was received, in the words of both trackers.\<close>

lemma record_printed:
  assumes "i < length (trackers s)" and "ep_resource (trackers s ! i) = r"
    and "c_string (res_path (resources s r)) = Inr path" and "c_string (data d) = Inr str"
  shows "print_simple_record i (Some d) s = Inr (str, sint (number d), path) \<and>
    print_data r d s = Inr (str, unat (number d), path)"
  using assms by (simp add: print_simple_record_def print_data_def resource_path_def resource_of_def)


text \<open>
  No packet makes the tracker programs read past a string: of whatever bytes a content consists,
  the record that they are unpacked into can be printed.
\<close>

theorem received_records_print:
  assumes "i < length (trackers s)" and "ep_resource (trackers s ! i) = r"
    and "uccn_record_init as_buffer of_buffer (ascii ''/test'') (Some (g_simple_data_typesupport slot)) = Inr (resources s r)"
    and "length (data slot) = 64" and "res_unpack (resources s r) blob None = Inr (ret, content)"
  shows "\<exists>d str. content = Some d \<and> print_simple_record i content s = Inr (str, sint (number d), ascii ''/test'') \<and>
    print_data r d s = Inr (str, unat (number d), ascii ''/test'')"
proof -
  note res = record_fields [OF assms(3)]
  obtain d where d: "content = Some d" "simple_data_deserialize blob slot = (ret, d)"
    using assms(5)
    by (auto simp: res(3) generic_record_unpack_def g_simple_data_typesupport_def simple_data_allocate_def split: prod.splits)
  have "data slot \<noteq> []" using assms(4) by auto
  then have "0 \<in> set (data d)"
    using d(2) expect_cstr_terminated [of _ "data slot" "data d"]
    by (auto simp: simple_data_deserialize_def Let_def split: prod.splits if_splits dest: expect_cstr_terminated)
  then obtain str where "c_string (data d) = Inr str" by (simp add: c_string_def)
  from record_printed [OF assms(1,2) res(4) this] d(1) show ?thesis by blast
qed

end
