(* ===== verification/Cpp_Demo.thy ===== *)
theory Cpp_Demo
  imports Network_Demo Example_Runs
begin

text \<open>The theorems on node objects and on the example programs, at concrete nodes.\<close>

section \<open>Node objects\<close>

text \<open>An object over a node with one peer; then it tracks resource 1 with the function 40.\<close>

definition demo_object :: "buffer cpp_node" where
  "demo_object = \<lparr>c_node = demo_b, generic_track_cpp_functions = (\<lambda>_. None), this = 300, c_function = 400\<rparr>"

lemma demo_b_fields [simp]:
  "num_trackers demo_b = 0" "num_peers demo_b = Suc 0" "\<not> mutex_locked demo_b" "resources demo_b = demo_resource"
  "length (trackers demo_b) = 10"
  by (simp_all add: demo_b_def config_simps)

lemma wf_cpp_demo: "wf_cpp demo_object"
  by (simp add: wf_cpp_def demo_object_def)

definition demo_tracking_node :: "buffer sys" where
  "demo_tracking_node = demo_b\<lparr>trackers := (trackers demo_b)[0 :=
     (trackers demo_b ! 0)\<lparr>ep_resource := 1, ep_num_peers := 0, tr_track := 400, tr_arg := 300\<rparr>], num_trackers := 1\<rparr>"

definition demo_tracking_object :: "buffer cpp_node" where
  "demo_tracking_object = demo_object\<lparr>c_node := demo_tracking_node,
     generic_track_cpp_functions := (\<lambda>_. None)(2 := Some (Record_Function 40))\<rparr>"

lemma demo_track_run: "generic_track 1 (Record_Function 40) demo_object = Inr (Inr (), demo_tracking_object)"
proof -
  have "uccn_track 1 400 300 demo_b = Inr (Some 0, demo_tracking_node)"
    by (cases rule: uccn_track_cases [OF wf_demo(2), of 1 400 300])
      (simp_all add: demo_tracking_node_def config_simps)
  then show ?thesis by (simp add: generic_track_def demo_tracking_object_def demo_object_def)
qed

lemma wf_cpp_tracking: "wf_cpp demo_tracking_object"
  using generic_track_ok [OF wf_cpp_demo demo_track_run] by blast

theorem content_reaches_function_witness:
  "wpf {} (uccn_process_packet 0 (raw_buffer (content_packet 2 [1, 2, 3])) demo_tracking_node) (\<lambda>(ret, s). \<exists>i.
    trace s = trace demo_tracking_node @ [Tracked i 400 300 (Some (raw_buffer [1, 2, 3]))] \<and>
    wf_cpp (demo_tracking_object\<lparr>c_node := s\<rparr>) \<and>
    generic_track_c_function (\<lambda>b. b) i (Some (raw_buffer [1, 2, 3])) (demo_tracking_object\<lparr>c_node := s\<rparr>) =
      Inr (Inr (Record_Call 40 (raw_buffer [1, 2, 3]))))"
  using content_reaches_function [OF wf_cpp_demo demo_track_run, of 0 "[1, 2, 3]" "raw_buffer (content_packet 2 [1, 2, 3])"
      3 "Some (raw_buffer [1, 2, 3])" "\<lambda>b. b"]
  by (simp add: demo_object_def demo_tracking_object_def run_wrapper_def b_contents_def raw_buffer_def)

text \<open>Two elements of two bytes each, for a function that takes vectors.\<close>

definition demo_vector_object :: "buffer cpp_node" where
  "demo_vector_object = demo_object\<lparr>c_node := demo_tracking_node,
     generic_track_cpp_functions := (\<lambda>_. None)(2 := Some (Vector_Function 40 2))\<rparr>"

lemma demo_vector_run: "node_track_vector 1 40 2 demo_object = Inr (Inr (), demo_vector_object)"
proof -
  have "uccn_track 1 400 300 demo_b = Inr (Some 0, demo_tracking_node)"
    by (cases rule: uccn_track_cases [OF wf_demo(2), of 1 400 300])
      (simp_all add: demo_tracking_node_def config_simps)
  then show ?thesis by (simp add: node_track_vector_def generic_track_def demo_vector_object_def demo_object_def)
qed

theorem vectors_arrive_witness:
  "wpf {} (uccn_process_packet 0 (raw_buffer (content_packet 2 [1, 2, 3, 4])) demo_tracking_node) (\<lambda>(ret, s). \<exists>i content.
    trace s = trace demo_tracking_node @ [Tracked i 400 300 content] \<and>
    generic_track_c_function (\<lambda>b. b) i content (demo_vector_object\<lparr>c_node := s\<rparr>) = Inr (Inr (Vector_Call 40 [[1, 2], [3, 4]])))"
proof -
  have "res_unpack (resources (c_node demo_object) 1) = passthrough_unpack (\<lambda>b. b)"
    by (simp add: demo_object_def demo_resource_def)
  from vectors_arrive [OF wf_cpp_demo demo_vector_run, of 0, OF _ _ this, of "\<lambda>b. b" "[[1, 2], [3, 4]]"
      "raw_buffer (content_packet 2 [1, 2, 3, 4])"]
  show ?thesis by (simp add: demo_object_def demo_vector_object_def)
qed

text \<open>The hashes of resources are words: those of 1 and of one that is \<open>2 ^ 32\<close> ahead are the same.\<close>

lemma demo_refused_run:
  "\<exists>e n'. generic_track (2 ^ 32 + 1) (Raw_Function 41) demo_tracking_object = Inr (Inl e, n')"
proof -
  have wf: "wf_node demo_tracking_node" and unlocked: "\<not> mutex_locked demo_tracking_node"
    using wf_cpp_tracking
    by (simp_all add: wf_cpp_def registered_def demo_tracking_object_def demo_tracking_node_def)
  have one: "num_trackers demo_tracking_node = 1" "ep_resource (trackers demo_tracking_node ! 0) = 1"
    "resources demo_tracking_node = demo_resource"
    by (simp_all add: demo_tracking_node_def)
  have same: "(word_of_nat (Suc (2 ^ 32 + 1)) :: u32) = 2" by simp
  have path: "c_string (res_path (demo_resource i)) = Inr []" for i
    by (simp add: demo_resource_def c_string_def config_simps)
  have "uccn_track (2 ^ 32 + 1) 400 300 demo_tracking_node = Inr (None, demo_tracking_node)"
    using wf unlocked
    by (cases rule: uccn_track_cases [where r = "2 ^ 32 + 1" and f = 400 and a = 300])
      (use one same in \<open>auto simp: resource_of_def\<close>)
  then show ?thesis
    by (simp add: generic_track_def demo_tracking_object_def demo_object_def about_resource_def one path)
qed

theorem refused_track_replaces_witness:
  "\<exists>e n' i. generic_track (2 ^ 32 + 1) (Raw_Function 41) demo_tracking_object = Inr (Inl e, n') \<and>
    ep_resource (trackers (c_node demo_tracking_object) ! i) \<noteq> 2 ^ 32 + 1 \<and>
    generic_track_c_function (\<lambda>b. b) i None n' = Inr (Inr (Raw_Call 41 None))"
proof -
  obtain e n' where run: "generic_track (2 ^ 32 + 1) (Raw_Function 41) demo_tracking_object = Inr (Inl e, n')"
    using demo_refused_run by blast
  from refused_track_replaces [OF wf_cpp_tracking run, of "\<lambda>b. b"] run show ?thesis
    by (fastforce simp: run_wrapper_def)
qed

text \<open>An object that is constructed, and then tracks resource 1.\<close>

definition demo_created :: "buffer cpp_node" where
  "demo_created = \<lparr>c_node = demo_started, generic_track_cpp_functions = (\<lambda>_. None), this = 300, c_function = 400\<rparr>"

lemma demo_create_run:
  "node_create demo_answers demo_network [110] 300 400 demo_a = (Inr demo_created, demo_started)"
  by (simp add: node_create_def c_str_def demo_started_run demo_created_def)

theorem objects_stay_in_order_witness:
  "\<exists>n'. node_step\<^sup>*\<^sup>* demo_created n' \<and> num_trackers (c_node n') = 1 \<and> registered (c_node n') \<and>
    generic_track_c_function (\<lambda>b. b) 0 (None :: buffer option) n' \<noteq> Inr (Inl Bad_Function_Call)"
proof -
  let ?s = "demo_started"
  have s: "wf_node ?s" "\<not> mutex_locked ?s" "num_trackers ?s = 0"
    using init_fresh [OF demo_started_run _ node_memory_demo] by (simp_all add: registered_def config_simps)
  obtain t where track: "uccn_track 1 400 300 ?s = Inr (Some 0, t)" and t: "num_trackers t = 1"
    using s(1,2) by (cases rule: uccn_track_cases [where r = 1 and f = 400 and a = 300])
      (use s(3) in \<open>simp_all add: config_simps\<close>)
  let ?n = "demo_created\<lparr>generic_track_cpp_functions := (\<lambda>_. None)(2 := Some (Raw_Function 41)), c_node := t\<rparr>"
  have "generic_track 1 (Raw_Function 41) demo_created = Inr (Inr (), ?n)"
    using track by (simp add: generic_track_def demo_created_def)
  then have step: "node_step\<^sup>*\<^sup>* demo_created ?n" by (intro r_into_rtranclp node_step.track)
  have "0 < num_trackers (c_node ?n)" by (simp add: t)
  from objects_stay_in_order [OF demo_create_run node_memory_demo _ step this] step t show ?thesis
    by (intro exI [of _ ?n]) (simp add: c_str_def config_simps)
qed

section \<open>The example programs\<close>

text \<open>The memory of a program's node, and the calls of the system.\<close>

definition demo_memory :: "examples_simple_data sys" where
  "demo_memory = node.extend (node.truncate demo_a)
     (sys.fields (\<lambda>_. \<lparr>res_path = [], res_hash = 0, res_unpack = (\<lambda>_ _. Inl Null_Deref), res_pack = (\<lambda>_ _. Inl Null_Deref)\<rparr>)
       (\<lambda>_. (0, at 10)) 0 (\<lambda>_ len. int len) 0 (\<lambda>_ _. Recv_Error (-1)) 0 \<lparr>pipe_pending = 0, pipe_capacity = 65536\<rparr>
       (\<lambda>_ _. Selected 0 False False) 0 [])"

lemma node_memory_program: "node_memory demo_memory"
  using node_memory_demo by (simp add: node_memory_def demo_memory_def node.defs sys.defs)

definition demo_inet_aton :: "bytes \<Rightarrow> u32 option" where
  "demo_inet_aton a = (if a = ascii ''127.0.0.1'' then Some 0x7F000001 else if a = ascii ''255.0.0.0'' then Some 0xFF000000 else None)"

lemma demo_starts: "fst (uccn_node_init demo_answers loopback name m) = 0"
  by (simp add: uccn_node_init_def demo_answers_def init_sync_def eventfd_init_def Let_def init_fields_def)

lemma can_start_demo: "can_start demo_inet_aton demo_answers demo_memory"
  "can_start demo_inet_aton demo_answers (demo_memory\<lparr>clock_gettime := \<lambda>i. (0, at (int i))\<rparr>)"
  using node_memory_program by (simp_all add: can_start_def demo_starts demo_inet_aton_def ascii_def node_memory_def)

abbreviation demo_provider_main where
  "demo_provider_main fuel interrupted argument m \<equiv>
     provider_main fuel interrupted 0 (\<lambda>_. raw_buffer []) (\<lambda>_. provider_content None) (provider_content None) demo_answers
       (\<lambda>_. 0) 0 0 argument m"

abbreviation demo_cpp_provider_main where
  "demo_cpp_provider_main fuel interrupted argument m \<equiv>
     cpp_provider_main fuel interrupted 0 (\<lambda>_. raw_buffer []) (\<lambda>_. provider_content None) (provider_content None)
       demo_inet_aton demo_answers (\<lambda>_. 0) 0 300 400 0 argument m"

abbreviation demo_tracker_main where
  "demo_tracker_main fuel stopped m \<equiv>
     tracker_main fuel stopped 0 (\<lambda>_. raw_buffer []) (\<lambda>_. provider_content None) (provider_content None) demo_answers
       (\<lambda>_. 0) 0 0 400 300 m"

abbreviation demo_cpp_tracker_main where
  "demo_cpp_tracker_main fuel stopped m \<equiv>
     cpp_tracker_main fuel stopped 0 (\<lambda>_. raw_buffer []) (\<lambda>_. provider_content None) (provider_content None)
       demo_inet_aton demo_answers (\<lambda>_. 0) 0 300 400 0 40 m"



theorem long_argument_overruns_witness:
  "demo_provider_main (Suc 0) (\<lambda>_. False) (Some (replicate 64 65)) demo_memory = Some (Inl Out_Of_Bounds) \<and>
   demo_cpp_provider_main (Suc 0) (\<lambda>_. False) (Some (replicate 64 65)) demo_memory = Some (Inl Out_Of_Bounds)"
  by (rule long_argument_overruns [OF can_start_demo(1)]) simp_all

lemma demo_moves_on: "moves_on (demo_memory\<lparr>clock_gettime := \<lambda>i. (0, at (int i))\<rparr>)"
  unfolding moves_on_def
  by (intro conjI exI [of _ 1])
    (simp_all add: ticking_def quiet_within_def interrupts_def demo_memory_def node.defs sys.defs)


section \<open>Records on their way\<close>

text \<open>A node that tracks the examples' resource, whose number is 7, and has one peer.\<close>

definition demo_test_resource :: "examples_simple_data resource" where
  "demo_test_resource = \<lparr>res_path = c_strncpy CONFIG_UCCN_MAX_RESOURCE_PATH_SIZE (ascii ''/test''),
     res_hash = crc32 (ascii ''/test''), res_unpack = generic_record_unpack (g_simple_data_typesupport (provider_content None)),
     res_pack = generic_record_pack (g_simple_data_typesupport (provider_content None))\<rparr>"

lemma demo_test_resource:
  "uccn_record_init (\<lambda>_. raw_buffer []) (\<lambda>_. provider_content None) (ascii ''/test'')
    (Some (g_simple_data_typesupport (provider_content None))) = Inr demo_test_resource"
  by (simp add: uccn_record_init_def uccn_resource_init_def g_simple_data_typesupport_def c_assert_def demo_test_resource_def)

definition demo_printing :: "examples_simple_data sys" where
  "demo_printing = node.extend (node.truncate (demo_node [demo_peer 3 12 11 0] [demo_tracker 7 []] []))
     (sys.fields (\<lambda>_. demo_test_resource) (\<lambda>_. (0, at 10)) 0 (\<lambda>_ len. int len) 0 (\<lambda>_ _. Recv_Error (-1)) 0
       \<lparr>pipe_pending = 0, pipe_capacity = 65536\<rparr> (\<lambda>_ _. Selected 0 False False) 0 [])"

lemma demo_printing_fields [simp]:
  "trackers demo_printing = demo_tracker 7 [] # replicate 9 zero_tracker" "num_trackers demo_printing = Suc 0"
  "num_peers demo_printing = Suc 0" "resources demo_printing = (\<lambda>_. demo_test_resource)" "trace demo_printing = []"
  by (simp_all add: demo_printing_def node.defs sys.defs config_simps)

lemma registered_printing: "registered demo_printing"
proof -
  have "registered (demo_node [demo_peer 3 12 11 0] [demo_tracker 7 []] [])"
    by (auto simp: demo_slots_ok_def intro!: demo_registered)
  then show ?thesis
    by (simp add: registered_def wf_node_def hash_table_def demo_printing_def node.defs sys.defs)
qed

lemma hello: "length (data (provider_content None)) = 64" "number (provider_content None) = 0"
  "c_string (data (provider_content None)) = Inr (ascii ''Hello world'')"
  by (simp_all add: provider_content_def c_string_c_strncpy ascii_def)


theorem received_records_print_witness:
  "\<exists>ret d str. res_unpack demo_test_resource (raw_buffer [193, 0, 255]) None = Inr (ret, Some d) \<and>
    print_simple_record 0 (Some d) demo_printing = Inr (str, sint (number d), ascii ''/test'') \<and>
    print_data 7 d demo_printing = Inr (str, unat (number d), ascii ''/test'')"
proof -
  obtain ret content where unpack: "res_unpack demo_test_resource (raw_buffer [193, 0, 255]) None = Inr (ret, content)"
    by (cases "simple_data_deserialize (raw_buffer [193, 0, 255]) (provider_content None)")
      (simp add: demo_test_resource_def generic_record_unpack_def g_simple_data_typesupport_def simple_data_allocate_def)
  show ?thesis
    using received_records_print [of 0 demo_printing 7 "\<lambda>_. raw_buffer []" "\<lambda>_. provider_content None" "provider_content None"
        "raw_buffer [193, 0, 255]" ret content] unpack demo_test_resource hello(1)
    by auto
qed

end
