(* ===== verification/Threads.thy ===== *)
theory Threads
  imports Network Spin_Runs
begin

text \<open>
  A node that several threads use: \<open>uccn_spin_until\<close> as a thread that takes the node's mutex for every
  turn and waits between two turns, other threads that register, post, stop and spin meanwhile, and
  the interleavings of all of them as a step relation. A turn is split where the code calls its
  parts, so that other threads may move in between; the mutex is what keeps them out. A thread that
  wants a mutex that is held has no step until it is given back.
\<close>

section \<open>The parts of a turn\<close>

datatype phase = At_Input | At_Clock | At_Assert | At_Probe | At_Discover | At_Timeout

fun phase_run :: "timespec \<Rightarrow> phase \<Rightarrow> 'c spin \<Rightarrow> 'c spin ctl result" where
  "phase_run t At_Input v = spin_input v"
| "phase_run t At_Clock v = spin_clock v"
| "phase_run t At_Assert v = spin_assert v"
| "phase_run t At_Probe v = spin_probe v"
| "phase_run t At_Discover v = spin_discover v"
| "phase_run t At_Timeout v = spin_timeout t v"

definition turn_phases :: "phase list" where
  "turn_phases = [At_Input, At_Clock, At_Assert, At_Probe, At_Discover, At_Timeout]"

primrec run_phases :: "timespec \<Rightarrow> phase list \<Rightarrow> 'c spin \<Rightarrow> 'c spin ctl result" where
  "run_phases t [] v = Inr (Continue v)"
| "run_phases t (p # ps) v = cbind (phase_run t p v) (run_phases t ps)"

lemma cbind_Continue [simp]: "cbind (Inr (Continue v)) f = f v" "cbind (Inr (Break v)) f = Inr (Break v)" "cbind (Inl e) f = Inl e"
  by (simp_all add: cbind_def)

lemma cbind_Inr_Continue [simp]: "cbind m (\<lambda>v. Inr (Continue v)) = m"
  by (cases m) (auto simp: cbind_def split: ctl.splits)

lemma run_phases_fun:
  "run_phases t [] = (\<lambda>v. Inr (Continue v))"
  "run_phases t (p # ps) = (\<lambda>v. cbind (phase_run t p v) (run_phases t ps))"
  by (simp_all add: fun_eq_iff)

text \<open>A turn takes the mutex and runs its phases.\<close>

lemma spin_turn_phases:
  "spin_turn t v = rbind (mutex_lock (sp_node v)) (\<lambda>s. run_phases t turn_phases (v\<lparr>sp_ret := 0, sp_node := s\<rparr>))"
  by (simp add: spin_turn_def turn_phases_def run_phases_fun)

section \<open>Threads\<close>

text \<open>
  A thread is outside of the library, with the answer of its last call; on its way into a post, having
  seen that the resource has peers, which \<open>uccn_post\<close> looks at before it takes the mutex; or spinning
  until a time: about to take the mutex, with the mutex and what is left of its turn, or waiting. The
  variables of a spinning thread are its own; the node is not, so that \<open>sp_node\<close> of a thread that is
  not running means nothing.
\<close>

datatype 'c thread =
  Outside int
| Posting nat "'c option"
| Turning timespec "'c spin"
| Inside timespec "phase list" "'c spin"
| Waiting timespec "'c spin"

fun inside :: "'c thread \<Rightarrow> bool" where
  "inside (Inside t ps v) = True"
| "inside _ = False"

lemma inside_iff: "inside x \<longleftrightarrow> (\<exists>t ps v. x = Inside t ps v)"
  by (cases x) simp_all

fun outside :: "'c thread \<Rightarrow> bool" where
  "outside (Outside ret) = True"
| "outside _ = False"

type_synonym 'c process = "'c sys \<times> (nat \<Rightarrow> 'c thread)"

abbreviation sees :: "'c spin \<Rightarrow> 'c sys \<Rightarrow> 'c spin" where
  "sees v s \<equiv> v\<lparr>sp_node := s\<rparr>"

definition after_phase :: "timespec \<Rightarrow> phase list \<Rightarrow> 'c spin \<Rightarrow> 'c thread" where
  "after_phase t ps v = (if ps = [] then Waiting t v else Inside t ps v)"

definition after_wait :: "timespec \<Rightarrow> 'c spin \<Rightarrow> 'c thread" where
  "after_wait t v = (if sp_ret v \<ge> 0 then Turning t v else Outside (sp_ret v))"

inductive thread_step :: "'c process \<Rightarrow> 'c process \<Rightarrow> bool" where
  track: "outside (ths i) \<Longrightarrow> uccn_track r f a s = Inr (x, s') \<Longrightarrow> thread_step (s, ths) (s', ths)"
| advertise: "outside (ths i) \<Longrightarrow> uccn_advertise r s = Inr (x, s') \<Longrightarrow> thread_step (s, ths) (s', ths)"
| stop: "uccn_stop s = (ret, s') \<Longrightarrow> thread_step (s, ths) (s', ths)"
| post_alone: "outside (ths i) \<Longrightarrow> p < length (providers s) \<Longrightarrow> ep_num_peers (providers s ! p) = 0 \<Longrightarrow>
    thread_step (s, ths) (s, ths(i := Outside 0))"
| post_enter: "outside (ths i) \<Longrightarrow> p < length (providers s) \<Longrightarrow> ep_num_peers (providers s ! p) > 0 \<Longrightarrow>
    thread_step (s, ths) (s, ths(i := Posting p content))"
| post: "ths i = Posting p content \<Longrightarrow> post_locked p content s = Inr (ret, s') \<Longrightarrow>
    thread_step (s, ths) (s', ths(i := Outside ret))"
| spin: "outside (ths i) \<Longrightarrow> sys_clock s = (0, now, s') \<Longrightarrow>
    thread_step (s, ths) (s', ths(i := Turning t (spin_start active now s')))"
| spin_clockless: "outside (ths i) \<Longrightarrow> sys_clock s = (ret, now, s') \<Longrightarrow> ret \<noteq> 0 \<Longrightarrow>
    thread_step (s, ths) (s', ths(i := Outside ret))"
| lock: "ths i = Turning t v \<Longrightarrow> mutex_lock s = Inr s' \<Longrightarrow>
    thread_step (s, ths) (s', ths(i := Inside t turn_phases (v\<lparr>sp_ret := 0\<rparr>)))"
| phase: "ths i = Inside t (p # ps) v \<Longrightarrow> phase_run t p (sees v s) = Inr (Continue w) \<Longrightarrow>
    thread_step (s, ths) (sp_node w, ths(i := after_phase t ps w))"
| leave: "ths i = Inside t (p # ps) v \<Longrightarrow> phase_run t p (sees v s) = Inr (Break w) \<Longrightarrow>
    thread_step (s, ths) (sp_node w, ths(i := Outside (sp_ret w)))"
| wait: "ths i = Waiting t v \<Longrightarrow> spin_wait fuel (sees v s) = Some w \<Longrightarrow>
    thread_step (s, ths) (sp_node w, ths(i := after_wait t w))"

inductive_cases thread_stepE: "thread_step (s, ths) st"

abbreviation thread_steps :: "'c process \<Rightarrow> 'c process \<Rightarrow> bool" where
  "thread_steps \<equiv> thread_step\<^sup>*\<^sup>*"

lemma sees_simps [simp]: "sees v (sp_node v) = v" "sp_node (sees v s) = s" "sees (sees v s) u = sees v u"
  by simp_all

section \<open>Order\<close>

text \<open>What every phase keeps: the memory of the node, and the mutex until the last one gives it back.\<close>

lemma phase_memory:
  assumes "registered s \<and> unpack_safe (spin_faults G) (resources s)"
  shows "wpf (spin_faults G) (phase_run t p (sees v s))
    (on_node (\<lambda>s. registered s \<and> unpack_safe (spin_faults G) (resources s)))"
  using assms
  by (cases p) (simp_all add: spin_memory.input spin_memory.tick spin_memory.asserting spin_memory.probing
      spin_memory.discovering spin_memory.timeout)

lemma phase_mutex:
  assumes "mutex_locked s" and "clock_gettime s = clock" and "\<And>i. fst (clock i) \<le> 0" and "p \<noteq> At_Timeout"
  shows "wpf UNIV (phase_run t p (sees v s)) (mutex_kept clock)"
  using assms(4) assms(1-3)
  by (cases p) (simp_all add: mutex_input mutex_clock mutex_assert mutex_probe mutex_discover)

lemma timeout_mutex:
  assumes "clock_gettime s = clock" and "\<And>i. fst (clock i) \<le> 0"
  shows "wpf UNIV (spin_timeout t (sees v s)) (\<lambda>c. case c of
      Continue w \<Rightarrow> \<not> mutex_locked (sp_node w) \<and> clock_gettime (sp_node w) = clock
    | Break w \<Rightarrow> \<not> mutex_locked (sp_node w) \<and> clock_gettime (sp_node w) = clock \<and> sp_ret w \<le> 0)"
  using assms(1) assms(2) [of "clock_calls s"]
  by (auto simp: spin_timeout_def sys_clock_def mutex_unlock_def c_assert_def Let_def split: prod.splits)

text \<open>The phases that are left of a turn: the last one is the one that gives the mutex back.\<close>

definition turn_rest :: "phase list \<Rightarrow> bool" where
  "turn_rest ps \<longleftrightarrow> ps \<noteq> [] \<and> (\<exists>qs. turn_phases = qs @ ps)"

lemma turn_rest_phases [simp]: "turn_rest turn_phases"
  by (simp add: turn_rest_def turn_phases_def)

lemma turn_rest_Cons:
  assumes "turn_rest (p # ps)"
  shows "(p = At_Timeout \<longleftrightarrow> ps = []) \<and> (ps \<noteq> [] \<longrightarrow> turn_rest ps)"
proof -
  obtain qs where qs: "turn_phases = qs @ p # ps" using assms by (auto simp: turn_rest_def)
  then have "ps \<noteq> [] \<longrightarrow> turn_rest ps" by (auto simp: turn_rest_def intro: exI [of _ "qs @ [p]"])
  moreover have "p = At_Timeout \<longleftrightarrow> ps = []"
  proof -
    have "distinct turn_phases" "last turn_phases = At_Timeout" by (simp_all add: turn_phases_def)
    then show ?thesis using last_in_set [of ps] unfolding qs by (cases "ps = []") auto
  qed
  ultimately show ?thesis by blast
qed

text \<open>
  A process in order: the node's memory is, the clock is the one it started with, at most one thread
  is inside, and then the mutex is held.
\<close>

definition orderly :: "(nat \<Rightarrow> int \<times> timespec) \<Rightarrow> 'c process \<Rightarrow> bool" where
  "orderly clock st = (case st of (s, ths) \<Rightarrow> registered s \<and> clock_gettime s = clock \<and>
     (\<forall>i j. inside (ths i) \<longrightarrow> inside (ths j) \<longrightarrow> i = j) \<and>
     (\<forall>i t ps v. ths i = Inside t ps v \<longrightarrow> mutex_locked s \<and> turn_rest ps))"

lemma orderlyD:
  assumes "orderly clock (s, ths)"
  shows "registered s" "clock_gettime s = clock" "inside (ths i) \<Longrightarrow> inside (ths j) \<Longrightarrow> i = j"
    "ths i = Inside t ps v \<Longrightarrow> mutex_locked s \<and> turn_rest ps" "inside (ths i) \<Longrightarrow> mutex_locked s"
  using assms unfolding orderly_def inside_iff split by blast+

text \<open>One thread moves, and is not inside afterwards; or it is the one that is.\<close>

lemma orderly_out:
  assumes "orderly clock (s, ths)" and "registered s'" and "clock_gettime s' = clock" and "\<not> inside x"
    and "inside (ths i) \<or> mutex_locked s' = mutex_locked s \<or> \<not> mutex_locked s"
  shows "orderly clock (s', ths(i := x))"
proof -
  have "mutex_locked s'" if "ths j = Inside t ps v" "j \<noteq> i" for j t ps v
    using orderlyD(3) [OF assms(1), of i j] orderlyD(4) [OF assms(1) that(1)] that assms(5) by auto
  then show ?thesis
    using assms(2-4) orderlyD(3,4) [OF assms(1)] by (auto simp: orderly_def)
qed

lemma orderly_in:
  assumes "orderly clock (s, ths)" and "registered s'" and "clock_gettime s' = clock" and "mutex_locked s'" and "turn_rest ps"
    and "inside (ths i) \<or> \<not> mutex_locked s"
  shows "orderly clock (s', ths(i := Inside t ps v))"
proof -
  have "\<not> inside (ths j)" if "j \<noteq> i" for j
    using orderlyD(3) [OF assms(1), of i j] orderlyD(5) [OF assms(1), of j] that assms(6) by auto
  then have "ths j \<noteq> Inside u qs w" if "j \<noteq> i" for j u qs w using that by fastforce
  then show ?thesis using assms(2-5) \<open>\<And>j. j \<noteq> i \<Longrightarrow> \<not> inside (ths j)\<close> unfolding orderly_def by auto
qed

lemma orderly_node:
  assumes "orderly clock (s, ths)" and "registered s'" and "clock_gettime s' = clock"
    and "mutex_locked s' = mutex_locked s \<or> \<not> mutex_locked s"
  shows "orderly clock (s', ths)"
proof -
  have "mutex_locked s'" if "ths j = Inside t ps v" for j t ps v
    using orderlyD(4) [OF assms(1) that] assms(4) by auto
  then show ?thesis using assms(2,3) orderlyD(3,4) [OF assms(1)] by (auto simp: orderly_def)
qed

text \<open>Registering and posting leave the clock alone.\<close>

lemma track_clock: "registered s \<Longrightarrow> uccn_track r f a s = Inr (x, t) \<Longrightarrow> clock_gettime t = clock_gettime s \<and> \<not> mutex_locked s"
  using uccn_track_locked [of s r f a]
  by (cases "mutex_locked s")
    (auto simp: registered_def elim!: uccn_track_cases [of s r f a] split: if_splits)

lemma advertise_clock: "registered s \<Longrightarrow> uccn_advertise r s = Inr (x, t) \<Longrightarrow> clock_gettime t = clock_gettime s \<and> \<not> mutex_locked s"
  using uccn_advertise_locked [of s r]
  by (cases "mutex_locked s")
    (auto simp: registered_def elim!: uccn_advertise_cases [of s r] split: if_splits)

text \<open>A post that returns with the mutex held answers what the clock did, and that is not 0.\<close>

lemma post_loop_clock:
  fixes s :: "'c sys"
  shows "wpf UNIV (for_loop (post_body packet links) 0 n (0, False, s)) (\<lambda>(ret, returned, t).
    returned \<longrightarrow> ret \<noteq> 0 \<and> (\<exists>i. fst (clock_gettime s i) = ret))"
proof (rule wpf_for_loop [where P = "\<lambda>i r. clock_gettime (snd (snd r)) = clock_gettime s \<and> \<not> fst (snd r)"])
  fix i and r :: "int \<times> bool \<times> 'c sys" assume r: "clock_gettime (snd (snd r)) = clock_gettime s \<and> \<not> fst (snd r)"
  show "wpf UNIV (post_body packet links i r) (\<lambda>c. case c of
      Continue t' \<Rightarrow> clock_gettime (snd (snd t')) = clock_gettime s \<and> \<not> fst (snd t')
    | Break t' \<Rightarrow> case t' of (ret, returned, t) \<Rightarrow> returned \<longrightarrow> ret \<noteq> 0 \<and> (\<exists>i. fst (clock_gettime s i) = ret))"
    using r by (cases r) (auto simp: post_body_def wpf_UNIV_arr_get sys_sendto_def sys_clock_def c_assert_def Let_def
        split: option.splits prod.splits intro!: exI [of _ "clock_calls (snd (snd r))"])
qed auto

lemma post_clock:
  assumes "post_locked p content s = Inr (ret, t)"
  shows "clock_gettime t = clock_gettime s \<and> \<not> mutex_locked s \<and>
    (mutex_locked t \<longrightarrow> ret \<noteq> 0 \<and> (\<exists>i. fst (clock_gettime s i) = ret))"
proof -
  have loop: "wpf UNIV (for_loop (post_body packet links) 0 n (0, False, u)) (\<lambda>(ret, returned, t).
      clock_gettime t = clock_gettime u \<and> (returned \<longrightarrow> ret \<noteq> 0 \<and> (\<exists>i. fst (clock_gettime u i) = ret)))"
    for packet links n and u :: "'a sys"
  proof -
    have "UNIV \<inter> UNIV = (UNIV :: fault set)" by simp
    then show ?thesis
      using wpf_both [OF post_loop_keeps [of packet links n u] post_loop_clock [of packet links n u]]
      by (auto elim!: wpf_conseq dest: sends_only_fields(13))
  qed
  have "wpf UNIV (post_locked p content s) (\<lambda>(ret, t). clock_gettime t = clock_gettime s \<and> \<not> mutex_locked s \<and>
      (mutex_locked t \<longrightarrow> ret \<noteq> 0 \<and> (\<exists>i. fst (clock_gettime s i) = ret)))"
    by (cases "res_pack (resource_of (s\<lparr>mutex_locked := True\<rparr>) (providers s ! p)) content (Some (content_buffer s))")
      (auto simp: post_locked_def wpf_UNIV_arr_get mutex_lock_def mutex_unlock_def Let_def blob_bytes_def
        split: option.splits intro!: wpf_conseq [OF loop], blast+)
  then show ?thesis using assms by simp
qed

text \<open>Waiting changes the environment alone.\<close>

definition quiet :: "'c sys \<Rightarrow> 'c sys \<Rightarrow> bool" where
  "quiet s t \<longleftrightarrow> (\<exists>c p q. t = s\<lparr>clock_calls := c, pselect_calls := p, stop_pipe := q\<rparr>)"

lemma quietI: "t = s\<lparr>clock_calls := c, pselect_calls := p, stop_pipe := q\<rparr> \<Longrightarrow> quiet s t"
  by (auto simp: quiet_def)

lemma quiet_refl [simp]: "quiet s s"
  by (rule quietI [where c = "clock_calls s" and p = "pselect_calls s" and q = "stop_pipe s"]) simp

lemma quiet_trans: "quiet s t \<Longrightarrow> quiet t u \<Longrightarrow> quiet s u"
  unfolding quiet_def by (elim exE) (intro exI, simp)

lemma quiet_clock: "sys_clock s = (ret, c, t) \<Longrightarrow> quiet s t"
  by (rule quietI [where c = "clock_calls t" and p = "pselect_calls t" and q = "stop_pipe t"])
    (auto simp: sys_clock_def Let_def split: prod.splits)

lemma quiet_pselect: "sys_pselect d s = (a, t) \<Longrightarrow> quiet s t"
  by (rule quietI [where c = "clock_calls t" and p = "pselect_calls t" and q = "stop_pipe t"])
    (auto simp: sys_pselect_def Let_def)

lemma quiet_stop: "uccn_stop s = (ret, t) \<Longrightarrow> quiet s t"
  by (rule quietI [where c = "clock_calls t" and p = "pselect_calls t" and q = "stop_pipe t"])
    (auto simp: uccn_stop_def Let_def split: prod.splits)

lemma quiet_wait: "spin_wait n v = Some w \<Longrightarrow> quiet (sp_node v) (sp_node w)"
proof (induction n arbitrary: v)
  case (Suc n)
  obtain ret t s where c: "sys_clock (sp_node v) = (ret, t, s)" by (cases "sys_clock (sp_node v)")
  obtain a u where p: "sys_pselect (timespec_diff (sp_deadline v) t) s = (a, u)" by fastforce
  have s: "quiet (sp_node v) s" and u: "quiet (sp_node v) u"
    using quiet_clock [OF c] quiet_trans [OF quiet_clock [OF c] quiet_pselect [OF p]] by simp_all
  show ?case
    using Suc.prems s u quiet_trans [OF u]
    by (auto simp: c p Let_def split: if_splits selected.splits dest!: Suc.IH)
qed simp

lemma quiet_fields:
  assumes "quiet s t"
  shows "registered t = registered s" "mutex_locked t = mutex_locked s" "clock_gettime t = clock_gettime s"
proof -
  obtain c p q where t: "t = s\<lparr>clock_calls := c, pselect_calls := p, stop_pipe := q\<rparr>"
    using assms unfolding quiet_def by blast
  show "registered t = registered s" "mutex_locked t = mutex_locked s" "clock_gettime t = clock_gettime s"
    by (simp_all add: t registered_def wf_node_def hash_table_def resource_of_def)
qed

section \<open>Every interleaving keeps the order\<close>

lemma thread_step_orderly:
  assumes "thread_step st st'" and "orderly clock st" and "\<And>i. fst (clock i) \<le> 0"
  shows "orderly clock st'"
  using assms(1,2)
proof induction
  case (track ths i r f a s x s')
  then have "registered s'" "clock_gettime s' = clock" "\<not> mutex_locked s"
    using track_clock [OF _ track.hyps(2)] uccn_track_keeps [of s r f a] orderlyD(1,2) [OF track.prems] by simp_all
  then show ?case by (intro orderly_node [OF track.prems]) simp_all
next
  case (advertise ths i r s x s')
  then have "registered s'" "clock_gettime s' = clock" "\<not> mutex_locked s"
    using advertise_clock [OF _ advertise.hyps(2)] uccn_advertise_keeps [of s r] orderlyD(1,2) [OF advertise.prems] by simp_all
  then show ?case by (intro orderly_node [OF advertise.prems]) simp_all
next
  case (stop s ret s' ths)
  then show ?case
    using quiet_fields [OF quiet_stop [OF stop.hyps]] orderlyD(1,2) [OF stop.prems] by (intro orderly_node [OF stop.prems]) simp_all
next
  case (post ths i p content s ret s')
  then have "registered s'" "clock_gettime s' = clock" "\<not> mutex_locked s"
    using post_clock [OF post.hyps(2)] post_locked_keeps [of s p content] orderlyD(1,2) [OF post.prems] by simp_all
  then show ?case by (intro orderly_out [OF post.prems]) simp_all
next
  case (lock ths i t v s s')
  then have "s' = s\<lparr>mutex_locked := True\<rparr>" "\<not> mutex_locked s" by (auto simp: mutex_lock_def split: if_splits)
  then show ?case using orderlyD(1,2) [OF lock.prems] by (intro orderly_in [OF lock.prems]) (simp_all add: registered_buffers)
next
  case (phase ths i t p ps v s w)
  have i: "mutex_locked s" "turn_rest (p # ps)" "inside (ths i)" using orderlyD(4) [OF phase.prems phase.hyps(1)] phase.hyps(1) by simp_all
  note rest = turn_rest_Cons [OF i(2)]
  have w: "registered (sp_node w)"
    using phase_memory [of s UNIV t p v] orderlyD(1) [OF phase.prems] phase.hyps(2) by simp
  show ?case
  proof (cases "ps = []")
    case True
    then have "clock_gettime (sp_node w) = clock"
      using timeout_mutex [of s clock t v] orderlyD(2) [OF phase.prems] assms(3) phase.hyps(2) rest by simp
    then show ?thesis using True i w by (intro orderly_out [OF phase.prems]) (simp_all add: after_phase_def)
  next
    case False
    then have "mutex_locked (sp_node w)" "clock_gettime (sp_node w) = clock"
      using phase_mutex [of s clock p t v] i(1) orderlyD(2) [OF phase.prems] assms(3) phase.hyps(2) rest by simp_all
    then have "orderly clock (sp_node w, ths(i := Inside t ps w))" using False i w rest by (intro orderly_in [OF phase.prems]) simp_all
    then show ?thesis using False by (simp add: after_phase_def)
  qed
next
  case (leave ths i t p ps v s w)
  have i: "mutex_locked s" "turn_rest (p # ps)" "inside (ths i)" using orderlyD(4) [OF leave.prems leave.hyps(1)] leave.hyps(1) by simp_all
  have w: "registered (sp_node w)"
    using phase_memory [of s UNIV t p v] orderlyD(1) [OF leave.prems] leave.hyps(2) by simp
  have "clock_gettime (sp_node w) = clock"
    using timeout_mutex [of s clock t v] phase_mutex [of s clock p t v] i(1) orderlyD(2) [OF leave.prems] assms(3) leave.hyps(2)
    by (cases "p = At_Timeout") simp_all
  then show ?case using i w by (intro orderly_out [OF leave.prems]) simp_all
next
  case (wait ths i t v fuel s w)
  then have "quiet s (sp_node w)" using quiet_wait by fastforce
  from quiet_fields [OF this] show ?case
    using orderlyD(1,2) [OF wait.prems] by (intro orderly_out [OF wait.prems]) (simp_all add: after_wait_def)
next
  case (spin ths i s now s' t active)
  from quiet_fields [OF quiet_clock [OF spin.hyps(2)]] show ?case
    using orderlyD(1,2) [OF spin.prems] by (intro orderly_out [OF spin.prems]) simp_all
next
  case (spin_clockless ths i s ret now s')
  from quiet_fields [OF quiet_clock [OF spin_clockless.hyps(2)]] show ?case
    using orderlyD(1,2) [OF spin_clockless.prems] by (intro orderly_out [OF spin_clockless.prems]) simp_all
qed (auto intro: orderly_out dest: orderlyD)

lemma thread_steps_orderly:
  assumes "thread_steps st st'" and "orderly clock st" and "\<And>i. fst (clock i) \<le> 0"
  shows "orderly clock st'"
  using assms(1,2)
proof (induction rule: rtranclp_induct)
  case (step y z)
  from thread_step_orderly [OF step.hyps(2) step.IH [OF step.prems] assms(3)] show ?case .
qed

text \<open>A process to start with: a node in order whose mutex is free, and nobody uses it.\<close>

definition fresh_process :: "'c sys \<Rightarrow> 'c process \<Rightarrow> bool" where
  "fresh_process s st \<longleftrightarrow> registered s \<and> \<not> mutex_locked s \<and> (\<forall>i. fst (clock_gettime s i) \<le> 0) \<and> st = (s, \<lambda>_. Outside 0)"

lemma fresh_orderly: "fresh_process s st \<Longrightarrow> orderly (clock_gettime s) st"
  by (auto simp: fresh_process_def orderly_def)


section \<open>A mutex that nobody will give back\<close>

definition lost_mutex :: "'c process \<Rightarrow> bool" where
  "lost_mutex st = (case st of (s, ths) \<Rightarrow> mutex_locked s \<and> (\<forall>i. \<not> inside (ths i)))"

lemma lost_mutexI: "mutex_locked s \<Longrightarrow> (\<And>i. \<not> inside (ths i)) \<Longrightarrow> lost_mutex (s, ths)"
  by (simp add: lost_mutex_def)

lemma lost_step:
  assumes "thread_step st st'" and "lost_mutex st"
  shows "lost_mutex st' \<and> quiet (fst st) (fst st')"
  using assms
proof induction
  case (stop s ret s' ths)
  then show ?case using quiet_stop [OF stop.hyps] quiet_fields(2) by (fastforce simp: lost_mutex_def)
next
  case (wait ths i t v fuel s w)
  then have "quiet s (sp_node w)" using quiet_wait by fastforce
  then show ?case using wait.prems quiet_fields(2) by (fastforce simp: lost_mutex_def after_wait_def)
next
  case (spin ths i s now s' t active)
  then show ?case using quiet_clock [OF spin.hyps(2)] quiet_fields(2) by (fastforce simp: lost_mutex_def)
next
  case (spin_clockless ths i s ret now s')
  then show ?case using quiet_clock [OF spin_clockless.hyps(2)] quiet_fields(2) by (fastforce simp: lost_mutex_def)
next
  case (phase ths i t p ps v s w)
  then have "inside (ths i)" by simp
  then show ?case using phase.prems by (simp add: lost_mutex_def)
next
  case (leave ths i t p ps v s w)
  then have "inside (ths i)" by simp
  then show ?case using leave.prems by (simp add: lost_mutex_def)
qed (auto simp: lost_mutex_def uccn_track_locked uccn_advertise_locked mutex_lock_def dest: post_clock)

text \<open>
  Once the mutex is held and no thread is between taking it and giving it back, that is so for
  ever: whatever the threads do from then on, nothing of the node changes but its stop event and how
  often the clock was read and \<open>pselect\<close> was called. It does not send, receive or call anybody again.
\<close>

theorem lost_mutex_is_final:
  assumes "lost_mutex (s, ths)" and "thread_steps (s, ths) (s', ths')"
  shows "lost_mutex (s', ths') \<and> quiet s s'"
proof -
  have "lost_mutex st' \<and> quiet (fst st) (fst st')" if "thread_steps st st'" "lost_mutex st" for st st' :: "'c process"
    using that
  proof (induction rule: rtranclp_induct)
    case (step y z)
    then show ?case using lost_step [OF step.hyps(2)] quiet_trans by blast
  qed simp
  from this [OF assms(2,1)] show ?thesis by simp
qed

lemma cbind_eq_Inr:
  "cbind m f = Inr c \<longleftrightarrow> (\<exists>v. m = Inr (Break v) \<and> c = Break v) \<or> (\<exists>v. m = Inr (Continue v) \<and> f v = Inr c)"
  by (cases m) (auto simp: cbind_def split: ctl.splits)

text \<open>A phase that leaves the spin has given the mutex back, but for the one that takes the stop event.\<close>

lemma break_unlocks:
  assumes "phase_run t p v = Inr (Break w)" and "mutex_locked (sp_node w)"
  shows "p = At_Input \<and> sp_stop v \<and> 0 < sp_nret v"
proof -
  have incoming: "\<not> mutex_locked (sp_node x)" if "spin_incoming process ready u = Inr (Break x)" for process ready u x
    using that by (auto simp: spin_incoming_def unlock_break_def mutex_unlock_def rbind_eq_Inr split: if_splits prod.splits)
  have clock: "mutex_locked u = mutex_locked s" if "sys_clock s = (ret, c, u)" for s u :: "'a sys" and ret c
    using quiet_fields(2) [OF quiet_clock [OF that]] .
  show ?thesis
  proof (cases p)
    case At_Input
    then show ?thesis using assms
      by (auto simp: spin_input_def cbind_eq_Inr rbind_eq_Inr split: if_splits dest: incoming)
  next
    case At_Clock
    then show ?thesis using assms
      by (auto simp: spin_clock_def unlock_break_def mutex_unlock_def Let_def split: prod.splits if_splits)
  next
    case At_Assert
    then show ?thesis using assms
      by (auto simp: spin_assert_def unlock_break_def mutex_unlock_def Let_def rbind_eq_Inr split: if_splits prod.splits)
  next
    case At_Probe
    then show ?thesis using assms
      by (auto simp: spin_probe_def unlock_break_def mutex_unlock_def Let_def rbind_eq_Inr split: if_splits prod.splits)
  next
    case At_Discover
    then show ?thesis using assms
      by (auto simp: spin_discover_def cbind_eq_Inr unlock_break_def mutex_unlock_def Let_def rbind_eq_Inr
          split: if_splits prod.splits)
  next
    case At_Timeout
    then show ?thesis using assms
      by (auto simp: spin_timeout_def mutex_unlock_def Let_def rbind_eq_Inr dest: clock split: if_splits prod.splits)
  qed
qed

text \<open>Steps that do not lose the mutex: what changes the environment alone, and phases that go on.\<close>

lemma quiet_keeps_mutex:
  assumes "\<not> lost_mutex (s, ths)" and "quiet s s'" and "\<not> inside (ths i)"
  shows "\<not> lost_mutex (s', ths(i := x))"
proof
  assume lost: "lost_mutex (s', ths(i := x))"
  then obtain j where j: "inside (ths j)" using assms(1) quiet_fields(2) [OF assms(2)] by (auto simp: lost_mutex_def)
  then have "j \<noteq> i" using assms(3) by auto
  moreover have "\<not> inside ((ths(i := x)) j)" using lost unfolding lost_mutex_def split by blast
  ultimately show False using j by simp
qed

lemma phase_keeps_mutex:
  assumes "orderly clock (s, ths)" and "\<And>i. fst (clock i) \<le> 0" and "ths i = Inside t (p # ps) v"
    and "phase_run t p (sees v s) = Inr (Continue w)"
  shows "\<not> lost_mutex (sp_node w, ths(i := after_phase t ps w))"
proof (cases "ps = []")
  case True
  then have "\<not> mutex_locked (sp_node w)"
    using turn_rest_Cons [OF conjunct2 [OF orderlyD(4) [OF assms(1,3)]]] timeout_mutex [of s clock t v]
      orderlyD(2) [OF assms(1)] assms(2,4) by simp
  then show ?thesis by (simp add: lost_mutex_def)
next
  case False
  then have "inside ((ths(i := after_phase t ps w)) i)" by (simp add: after_phase_def)
  then show ?thesis unfolding lost_mutex_def split by blast
qed

text \<open>
  C6: A mutex is lost in three ways alone: a spin takes the stop event, an advertisement is refused,
  or the clock fails a thread that posts.
\<close>

theorem mutex_is_lost_by:
  assumes "fresh_process s0 st0" and "thread_steps st0 (s, ths)" and "\<not> lost_mutex (s, ths)"
    and "thread_step (s, ths) (s', ths')" and "lost_mutex (s', ths')"
  shows "(\<exists>i t ps v. ths i = Inside t (At_Input # ps) v \<and> sp_stop v \<and> 0 < sp_nret v) \<or>
    (\<exists>r. uccn_advertise r s = Inr (None, s')) \<or>
    (\<exists>i p content ret k. ths i = Posting p content \<and> post_locked p content s = Inr (ret, s') \<and> ret \<noteq> 0 \<and>
      fst (clock_gettime s k) = ret)"
proof -
  have clock: "\<And>i. fst (clock_gettime s0 i) \<le> 0" using assms(1) by (simp add: fresh_process_def)
  have o: "orderly (clock_gettime s0) (s, ths)" by (rule thread_steps_orderly [OF assms(2) fresh_orderly [OF assms(1)] clock])
  have s: "registered s" by (rule orderlyD(1) [OF o])
  have lost: "mutex_locked s'" "\<And>i. \<not> inside (ths' i)" using assms(5) by (simp_all add: lost_mutex_def)
  have out: "\<not> inside (ths i)" if "outside (ths i)" for i using that by (cases "ths i") simp_all
  note kept = quiet_keeps_mutex [OF assms(3)]
  from assms(4) show ?thesis
  proof cases
    case (track i r f a x)
    then show ?thesis using uccn_track_keeps [of s r f a] track_clock [OF s track(3)] s lost(1) by simp
  next
    case (advertise i r x)
    then show ?thesis using uccn_advertise_keeps [of s r] advertise_clock [OF s advertise(3)] s lost(1) by auto
  next
    case (post i p content ret)
    then show ?thesis using post_clock [OF post(3)] lost(1) by blast
  next
    case (leave i t p ps v w)
    have "p = At_Input \<and> sp_stop (sees v s) \<and> 0 < sp_nret (sees v s)"
      by (rule break_unlocks [OF leave(4)]) (use lost leave(1) in simp)
    then show ?thesis using leave(3) by fastforce
  next
    case (phase i t p ps v w)
    then show ?thesis using phase_keeps_mutex [OF o clock] assms(5) by blast
  next
    case (lock i t v)
    then show ?thesis using lost(2) [of i] by simp
  next
    case (wait i t v fuel w)
    then have "quiet s s'" using quiet_wait by fastforce
    then show ?thesis using kept [of s' i] wait assms(5) by simp
  next
    case (stop ret)
    then show ?thesis using kept [OF quiet_stop [OF stop(2)], of 0 "ths 0"] lost(2) [of 0] assms(5) by simp
  next
    case (spin i now t active)
    then show ?thesis using kept [OF quiet_clock [OF spin(3)] out] assms(5) by blast
  next
    case (spin_clockless i ret now)
    then show ?thesis using kept [OF quiet_clock [OF spin_clockless(3)] out] assms(5) by blast
  qed (use kept [OF quiet_refl out] assms(5) in blast)+
qed

text \<open>
  C7: Once a spinning thread has seen the stop event, its next step leaves the spin with the mutex,
  and from then on every other thread that spins, registers or posts waits for it without end,
  whatever else the threads do.
\<close>

theorem stop_strands_threads:
  assumes "fresh_process s0 st0" and "thread_steps st0 (s, ths)"
    and "ths i = Inside t (At_Input # ps) v" and "sp_stop v" and "0 < sp_nret v" and "0 < pipe_pending (stop_pipe s)"
  shows "\<exists>u. thread_step (s, ths) (u, ths(i := Outside 1)) \<and>
    (\<forall>s' ths'. thread_steps (u, ths(i := Outside 1)) (s', ths') \<longrightarrow> mutex_locked s' \<and> (\<forall>j. \<not> inside (ths' j)) \<and> quiet u s')"
proof -
  have clock: "\<And>i. fst (clock_gettime s0 i) \<le> 0" using assms(1) by (simp add: fresh_process_def)
  have o: "orderly (clock_gettime s0) (s, ths)" by (rule thread_steps_orderly [OF assms(2) fresh_orderly [OF assms(1)] clock])
  have i: "inside (ths i)" "mutex_locked s" using assms(3) orderlyD(4) [OF o assms(3)] by simp_all
  let ?u = "s\<lparr>stop_pipe := (stop_pipe s)\<lparr>pipe_pending := pipe_pending (stop_pipe s) - 1\<rparr>\<rparr>"
  have "phase_run t At_Input (sees v s) = Inr (Break (v\<lparr>sp_ret := 1, sp_node := ?u\<rparr>))"
    using assms(4-6) by (simp add: spin_input_def eventfd_clear_def)
  from thread_step.leave [where ths = ths and i = i, OF assms(3) this] have step: "thread_step (s, ths) (?u, ths(i := Outside 1))" by simp
  have "\<not> inside ((ths(i := Outside 1)) j)" for j using orderlyD(3) [OF o i(1), of j] by auto
  then have "lost_mutex (?u, ths(i := Outside 1))" using i(2) by (simp add: lost_mutex_def)
  from lost_mutex_is_final [OF this] step show ?thesis
    by (intro exI [of _ ?u]) (auto simp: lost_mutex_def)
qed

section \<open>Who holds the mutex gives it back\<close>

text \<open>A turn that is run without interruption, as steps of its thread.\<close>

definition after_turn :: "timespec \<Rightarrow> 'c spin ctl \<Rightarrow> 'c sys \<times> 'c thread" where
  "after_turn t c = (case c of Continue w \<Rightarrow> (sp_node w, Waiting t w) | Break w \<Rightarrow> (sp_node w, Outside (sp_ret w)))"

lemma after_turn_simps [simp]:
  "after_turn t (Continue w) = (sp_node w, Waiting t w)" "after_turn t (Break w) = (sp_node w, Outside (sp_ret w))"
  by (simp_all add: after_turn_def)

lemma run_phases_steps:
  assumes "ths i = Inside t ps v" and "ps \<noteq> []" and "run_phases t ps (sees v s) = Inr c"
  shows "thread_steps (s, ths) (fst (after_turn t c), ths(i := snd (after_turn t c)))"
  using assms
proof (induction ps arbitrary: s ths v)
  case (Cons p ps)
  consider (stays) w where "phase_run t p (sees v s) = Inr (Continue w)" "run_phases t ps w = Inr c"
    | (leaves) w where "phase_run t p (sees v s) = Inr (Break w)" "c = Break w"
    using Cons.prems(3) by (auto simp: cbind_eq_Inr)
  then show ?case
  proof cases
    case stays
    from thread_step.phase [where ths = ths and i = i, OF Cons.prems(1) stays(1)]
    have step: "thread_step (s, ths) (sp_node w, ths(i := after_phase t ps w))" .
    show ?thesis
    proof (cases "ps = []")
      case True
      then show ?thesis using step stays(2) by (auto simp: after_phase_def simp del: fun_upd_apply)
    next
      case False
      then have "thread_steps (sp_node w, ths(i := Inside t ps w)) (fst (after_turn t c), ths(i := snd (after_turn t c)))"
        using Cons.IH [of "ths(i := Inside t ps w)" w "sp_node w"] stays(2) by (simp add: fun_upd_same del: fun_upd_apply)
      from converse_rtranclp_into_rtranclp [OF _ this] step False show ?thesis by (simp add: after_phase_def del: fun_upd_apply)
    qed
  next
    case leaves
    from thread_step.leave [where ths = ths and i = i, OF Cons.prems(1) leaves(1)] show ?thesis using leaves(2) by (simp del: fun_upd_apply)
  qed
qed simp

lemma run_phases_mutex:
  fixes s :: "'c sys" and v :: "'c spin"
  assumes "turn_rest ps" and "mutex_locked s" and "clock_gettime s = clock" and "\<And>i. fst (clock i) \<le> 0"
    and "registered s \<and> unpack_safe (spin_faults G) (resources s)"
  shows "wpf (spin_faults G) (run_phases t ps (sees v s)) (\<lambda>c. case c of
      Continue w \<Rightarrow> \<not> mutex_locked (sp_node w)
    | Break w \<Rightarrow> mutex_locked (sp_node w) \<longleftrightarrow> 0 < sp_ret w)"
  using assms(1-3,5)
proof (induction ps arbitrary: s v)
  case (Cons p ps)
  note rest = turn_rest_Cons [OF Cons.prems(1)]
  note memory = phase_memory [OF Cons.prems(4), of t p v]
  show ?case
  proof (cases "ps = []")
    case True
    have "wpf (spin_faults G) (spin_timeout t (sees v s)) (\<lambda>c. case c of
        Continue w \<Rightarrow> \<not> mutex_locked (sp_node w) | Break w \<Rightarrow> mutex_locked (sp_node w) \<longleftrightarrow> 0 < sp_ret w)"
      using memory timeout_mutex [OF Cons.prems(3) assms(4), of t v] True rest
      by (cases "spin_timeout t (sees v s)") (auto split: ctl.splits)
    then show ?thesis using True rest by (simp add: run_phases_fun)
  next
    case False
    then have p: "p \<noteq> At_Timeout" "turn_rest ps" using rest by simp_all
    have "wpf (spin_faults G) (phase_run t p (sees v s)) (\<lambda>c. mutex_kept clock c \<and>
        on_node (\<lambda>s. registered s \<and> unpack_safe (spin_faults G) (resources s)) c)"
      using memory phase_mutex [OF Cons.prems(2,3) assms(4) p(1), of t v] by (cases "phase_run t p (sees v s)") simp_all
    moreover have "wpf (spin_faults G) (run_phases t ps w) (\<lambda>c. case c of
        Continue w \<Rightarrow> \<not> mutex_locked (sp_node w) | Break w \<Rightarrow> mutex_locked (sp_node w) \<longleftrightarrow> 0 < sp_ret w)"
      if "mutex_locked (sp_node w)" "clock_gettime (sp_node w) = clock"
        "registered (sp_node w) \<and> unpack_safe (spin_faults G) (resources (sp_node w))" for w :: "'c spin"
      using Cons.IH [OF p(2) that, of w] by simp
    ultimately show ?thesis unfolding run_phases.simps wpf_cbind
      by (elim wpf_conseq) (auto split: ctl.splits)
  qed
qed (simp add: turn_rest_def)


section \<open>A spin as a thread\<close>

lemma loop_steps:
  "spin_loop t n v = Some (Inr (ret, s')) \<Longrightarrow> thread_steps (sp_node v, ths(i := Turning t v)) (s', ths(i := Outside ret))"
proof (induction n arbitrary: v)
  case (Suc n)
  let ?ths = "\<lambda>x. ths(i := x)"
  obtain s c where lock: "mutex_lock (sp_node v) = Inr s"
    and run: "run_phases t turn_phases (v\<lparr>sp_ret := 0, sp_node := s\<rparr>) = Inr c"
    and rest: "(case c of Break w \<Rightarrow> Some (Inr (sp_ret w, sp_node w))
      | Continue w \<Rightarrow> (case spin_wait n w of None \<Rightarrow> None
         | Some w \<Rightarrow> if sp_ret w \<ge> 0 then spin_loop t n w else Some (Inr (sp_ret w, sp_node w)))) = Some (Inr (ret, s'))"
    using Suc.prems by (auto simp: spin_turn_phases rbind_eq_Inr split: sum.splits)
  have "thread_step (sp_node v, ?ths (Turning t v)) (s, ?ths (Inside t turn_phases (v\<lparr>sp_ret := 0\<rparr>)))"
    using thread_step.lock [of "?ths (Turning t v)" i t v "sp_node v" s] lock
    by (simp add: fun_upd_same del: fun_upd_apply)
  moreover have "thread_steps (s, ?ths (Inside t turn_phases (v\<lparr>sp_ret := 0\<rparr>)))
      (fst (after_turn t c), ?ths (snd (after_turn t c)))"
    using run_phases_steps [of "?ths (Inside t turn_phases (v\<lparr>sp_ret := 0\<rparr>))" i t turn_phases "v\<lparr>sp_ret := 0\<rparr>" s c] run
    by (simp add: fun_upd_same turn_rest_phases [unfolded turn_rest_def] del: fun_upd_apply)
  ultimately have turn: "thread_steps (sp_node v, ?ths (Turning t v)) (fst (after_turn t c), ?ths (snd (after_turn t c)))"
    by (rule converse_rtranclp_into_rtranclp)
  show ?case
  proof (cases c)
    case (Break w)
    then show ?thesis using turn rest by (simp del: fun_upd_apply)
  next
    case (Continue w)
    then obtain x where x: "spin_wait n w = Some x"
      "(if sp_ret x \<ge> 0 then spin_loop t n x else Some (Inr (sp_ret x, sp_node x))) = Some (Inr (ret, s'))"
      using rest by (auto split: option.splits)
    have "thread_step (sp_node w, ?ths (Waiting t w)) (sp_node x, ?ths (after_wait t x))"
      using thread_step.wait [of "?ths (Waiting t w)" i t w n "sp_node w" x] x(1)
      by (simp add: fun_upd_same del: fun_upd_apply)
    then have "thread_steps (sp_node v, ?ths (Turning t v)) (sp_node x, ?ths (after_wait t x))"
      using turn Continue by (simp del: fun_upd_apply)
    moreover have "thread_steps (sp_node x, ?ths (after_wait t x)) (s', ?ths (Outside ret))"
      using x(2) Suc.IH [of x] by (auto simp: after_wait_def simp del: fun_upd_apply split: if_splits)
    ultimately show ?thesis by (rule rtranclp_trans)
  qed
qed simp


text \<open>A spin that returns with the mutex held is a thread that has seen the stop event.\<close>

lemma run_phases_unlock:
  "run_phases t ps v = Inr (Break w) \<Longrightarrow> At_Input \<notin> set ps \<Longrightarrow> \<not> mutex_locked (sp_node w)"
  by (induction ps arbitrary: v) (auto simp: cbind_eq_Inr dest: break_unlocks)

lemma turn_saw_stop:
  assumes "spin_turn t v = Inr (Break w)" and "mutex_locked (sp_node w)"
  shows "\<not> mutex_locked (sp_node v) \<and> sp_stop v \<and> 0 < sp_nret v \<and> 0 < pipe_pending (stop_pipe (sp_node v))"
proof -
  let ?v = "v\<lparr>sp_ret := 0, sp_node := (sp_node v)\<lparr>mutex_locked := True\<rparr>\<rparr>"
  have free: "\<not> mutex_locked (sp_node v)" and run: "run_phases t turn_phases ?v = Inr (Break w)"
    using assms(1) by (auto simp: spin_turn_phases mutex_lock_def split: if_splits)
  have "\<not> (\<exists>u. spin_input ?v = Inr (Continue u) \<and> run_phases t (tl turn_phases) u = Inr (Break w))"
    using run_phases_unlock [of t "tl turn_phases" _ w] assms(2) by (auto simp: turn_phases_def)
  then have input: "phase_run t At_Input ?v = Inr (Break w)"
    using run by (auto simp: turn_phases_def cbind_eq_Inr run_phases_fun)
  note stop = break_unlocks [OF input assms(2)]
  then have "0 < pipe_pending (stop_pipe (sp_node v))"
    using input by (auto simp: spin_input_def eventfd_clear_def rbind_eq_Inr split: if_splits)
  then show ?thesis using free stop by simp
qed

lemma locked_loop_saw_stop:
  "spin_loop t n v = Some (Inr (ret, s')) \<Longrightarrow> mutex_locked s' \<Longrightarrow> \<exists>s x.
    thread_steps (sp_node v, ths(i := Turning t v)) (s, ths(i := Inside t turn_phases x)) \<and>
    sp_stop x \<and> 0 < sp_nret x \<and> 0 < pipe_pending (stop_pipe s)"
proof (induction n arbitrary: v)
  case (Suc n)
  let ?ths = "\<lambda>x. ths(i := x)"
  obtain c where turn: "spin_turn t v = Inr c"
    and rest: "(case c of Break w \<Rightarrow> Some (Inr (sp_ret w, sp_node w))
      | Continue w \<Rightarrow> (case spin_wait n w of None \<Rightarrow> None
         | Some w \<Rightarrow> if sp_ret w \<ge> 0 then spin_loop t n w else Some (Inr (sp_ret w, sp_node w)))) = Some (Inr (ret, s'))"
    using Suc.prems(1) by (auto split: sum.splits)
  obtain s where lock: "mutex_lock (sp_node v) = Inr s"
    and run: "run_phases t turn_phases (v\<lparr>sp_ret := 0, sp_node := s\<rparr>) = Inr c"
    using turn by (auto simp: spin_turn_phases rbind_eq_Inr)
  have s: "s = (sp_node v)\<lparr>mutex_locked := True\<rparr>" using lock by (auto simp: mutex_lock_def split: if_splits)
  have step: "thread_step (sp_node v, ?ths (Turning t v)) (s, ?ths (Inside t turn_phases (v\<lparr>sp_ret := 0\<rparr>)))"
    using thread_step.lock [of "?ths (Turning t v)" i t v "sp_node v" s] lock
    by (simp add: fun_upd_same del: fun_upd_apply)
  show ?case
  proof (cases c)
    case (Break w)
    have "mutex_locked (sp_node w)" using rest Suc.prems(2) Break by simp
    then have "sp_stop v \<and> 0 < sp_nret v \<and> 0 < pipe_pending (stop_pipe s)"
      using turn_saw_stop [of t v w] turn Break by (simp add: s)
    then show ?thesis using step by (intro exI [of _ s] exI [of _ "v\<lparr>sp_ret := 0\<rparr>"]) (simp add: r_into_rtranclp del: fun_upd_apply)
  next
    case (Continue w)
    obtain x where x: "spin_wait n w = Some x"
      "(if sp_ret x \<ge> 0 then spin_loop t n x else Some (Inr (sp_ret x, sp_node x))) = Some (Inr (ret, s'))"
      using rest Continue by (auto split: option.splits)
    have "thread_steps (s, ?ths (Inside t turn_phases (v\<lparr>sp_ret := 0\<rparr>))) (sp_node w, ?ths (Waiting t w))"
      using run_phases_steps [of "?ths (Inside t turn_phases (v\<lparr>sp_ret := 0\<rparr>))" i t turn_phases "v\<lparr>sp_ret := 0\<rparr>" s c] run Continue
      by (simp add: fun_upd_same turn_rest_phases [unfolded turn_rest_def] del: fun_upd_apply)
    moreover have "thread_step (sp_node w, ?ths (Waiting t w)) (sp_node x, ?ths (after_wait t x))"
      using thread_step.wait [of "?ths (Waiting t w)" i t w n "sp_node w" x] x(1)
      by (simp add: fun_upd_same del: fun_upd_apply)
    ultimately have steps: "thread_steps (sp_node v, ?ths (Turning t v)) (sp_node x, ?ths (after_wait t x))"
      using step by (meson converse_rtranclp_into_rtranclp rtranclp.rtrancl_into_rtrancl)
    have "\<not> mutex_locked (sp_node w)"
    proof
      assume "mutex_locked (sp_node w)"
      moreover have "spin_turn t v = Inr (Continue w)" using turn Continue by simp
      ultimately show False
        by (auto simp: spin_turn_def cbind_eq_Inr rbind_eq_Inr spin_timeout_def mutex_unlock_def sys_clock_def Let_def
            split: prod.splits if_splits)
    qed
    then have "0 \<le> sp_ret x \<and> spin_loop t n x = Some (Inr (ret, s'))"
      using x(2) Suc.prems(2) quiet_fields(2) [OF quiet_wait [OF x(1)]] by (auto split: if_splits)
    then show ?thesis using steps Suc.IH [of x] Suc.prems(2)
      by (auto simp: after_wait_def simp del: fun_upd_apply intro: rtranclp_trans)
  qed
qed simp

end
