(* ===== verification/Threads_Demo.thy ===== *)
theory Threads_Demo
  imports Spin_Demo Threads
begin

text \<open>The theorems on threads, at a node without peers that two threads spin.\<close>

definition nobody :: "nat \<Rightarrow> buffer thread" where
  "nobody = (\<lambda>_. Outside 0)"

lemma fresh_demo: "fresh_process demo_idle (demo_idle, nobody)"
  by (simp add: fresh_process_def nobody_def)

definition demo_clocked :: "nat \<Rightarrow> buffer sys" where
  "demo_clocked n = demo_idle\<lparr>clock_calls := n\<rparr>"

lemma demo_clock: "sys_clock (demo_clocked n) = (0, at 10, demo_clocked (Suc n))"
  by (simp add: demo_clocked_def sys_clock_def)

text \<open>Both threads have begun to spin until 20 seconds, and the first one has taken the mutex.\<close>

definition demo_spin :: "nat \<Rightarrow> buffer spin" where
  "demo_spin n = spin_start 0 (at 10) (demo_clocked (Suc n))"

definition demo_two :: "nat \<Rightarrow> buffer thread" where
  "demo_two = nobody(0 := Inside (at 20) turn_phases ((demo_spin 0)\<lparr>sp_ret := 0\<rparr>), 1 := Turning (at 20) (demo_spin 1))"

definition demo_held :: "buffer sys" where
  "demo_held = (demo_clocked 2)\<lparr>mutex_locked := True\<rparr>"

lemma demo_two_steps: "thread_steps (demo_idle, nobody) (demo_held, demo_two)"
proof -
  have idle: "demo_clocked 0 = demo_idle" by (simp add: demo_clocked_def demo_idle_def demo_node_def)
  let ?one = "nobody(0 := Turning (at 20) (demo_spin 0))"
  let ?both = "?one(1 := Turning (at 20) (demo_spin 1))"
  have first: "thread_step (demo_idle, nobody) (demo_clocked 1, ?one)"
    using thread_step.spin [of nobody 0 demo_idle "at 10" "demo_clocked 1" "at 20" 0] demo_clock [of 0]
    by (simp add: nobody_def idle demo_spin_def)
  have second: "thread_step (demo_clocked 1, ?one) (demo_clocked 2, ?both)"
    using thread_step.spin [of ?one 1 "demo_clocked 1" "at 10" "demo_clocked 2" "at 20" 0] demo_clock [of 1]
    by (simp add: nobody_def demo_spin_def numeral_2_eq_2)
  have "thread_step (demo_clocked 2, ?both) (demo_held, ?both(0 := Inside (at 20) turn_phases ((demo_spin 0)\<lparr>sp_ret := 0\<rparr>)))"
    by (rule thread_step.lock) (simp_all add: mutex_lock_def demo_held_def demo_clocked_def)
  moreover have "?both(0 := Inside (at 20) turn_phases ((demo_spin 0)\<lparr>sp_ret := 0\<rparr>)) = demo_two"
    by (simp add: demo_two_def fun_eq_iff)
  ultimately have "thread_step (demo_clocked 2, ?both) (demo_held, demo_two)" by simp
  with first second show ?thesis
    by (intro converse_rtranclp_into_rtranclp [where r = thread_step, OF first]
        converse_rtranclp_into_rtranclp [where r = thread_step, OF second] r_into_rtranclp)
qed



text \<open>A node that is stopped before it spins.\<close>

lemma fresh_stopped: "fresh_process (snd (uccn_stop demo_idle)) (snd (uccn_stop demo_idle), nobody)"
  by (simp add: fresh_process_def nobody_def stop_fields)


lemma demo_saw_stop:
  obtains s x where "thread_steps (snd (uccn_stop demo_idle), nobody) (s, nobody(0 := Inside (at 20) turn_phases x))"
    and "sp_stop x" and "0 < sp_nret x" and "0 < pipe_pending (stop_pipe s)"
proof -
  let ?s = "snd (uccn_stop demo_idle)"
  obtain s' where run: "uccn_spin_until 2 0 (at 20) ?s = Some (Inr (1, s'))" "mutex_locked s'"
    using demo_stop_run by blast
  have clock: "sys_clock ?s = (0, at 10, ?s\<lparr>clock_calls := clock_calls ?s + 1\<rparr>)"
    by (simp add: sys_clock_def stop_fields)
  let ?u = "?s\<lparr>clock_calls := clock_calls ?s + 1\<rparr>"
  have "thread_step (?s, nobody) (?u, nobody(0 := Turning (at 20) (spin_start 0 (at 10) ?u)))"
    using thread_step.spin [of nobody 0 ?s "at 10" ?u "at 20" 0] clock by (simp add: nobody_def)
  moreover have "spin_loop (at 20) 2 (spin_start 0 (at 10) ?u) = Some (Inr (1, s'))"
    using run(1) by (simp add: uccn_spin_until_def clock)
  from locked_loop_saw_stop [OF this run(2), of nobody 0]
  obtain s x where "thread_steps (?u, nobody(0 := Turning (at 20) (spin_start 0 (at 10) ?u))) (s, nobody(0 := Inside (at 20) turn_phases x))"
    "sp_stop x" "0 < sp_nret x" "0 < pipe_pending (stop_pipe s)"
    by (auto simp: spin_start_def simp del: fun_upd_apply)
  ultimately show thesis using that by (meson converse_rtranclp_into_rtranclp)
qed

theorem stop_strands_threads_witness:
  "\<exists>u. \<forall>s' ths'. thread_steps (u, nobody(0 := Outside 1)) (s', ths') \<longrightarrow> mutex_locked s' \<and> (\<forall>j. \<not> inside (ths' j))"
proof -
  obtain s x where steps: "thread_steps (snd (uccn_stop demo_idle), nobody) (s, nobody(0 := Inside (at 20) turn_phases x))"
    and x: "sp_stop x" "0 < sp_nret x" "0 < pipe_pending (stop_pipe s)"
    by (rule demo_saw_stop)
  have "(nobody(0 := Inside (at 20) turn_phases x)) 0 = Inside (at 20) (At_Input # tl turn_phases) x"
    by (simp add: turn_phases_def)
  from stop_strands_threads [OF fresh_stopped steps this x] show ?thesis by (simp del: fun_upd_apply) blast
qed

theorem mutex_is_lost_by_witness:
  "\<exists>s s' ths. thread_step (s, ths) (s', nobody(0 := Outside 1)) \<and> lost_mutex (s', nobody(0 := Outside 1)) \<and>
    ((\<exists>i t ps v. ths i = Inside t (At_Input # ps) v \<and> sp_stop v \<and> 0 < sp_nret v) \<or>
     (\<exists>r. uccn_advertise r s = Inr (None, s')) \<or>
     (\<exists>i p content ret k. ths i = Posting p content \<and> post_locked p content s = Inr (ret, s') \<and> ret \<noteq> 0 \<and>
       fst (clock_gettime s k) = ret))"
proof -
  obtain s x where steps: "thread_steps (snd (uccn_stop demo_idle), nobody) (s, nobody(0 := Inside (at 20) turn_phases x))"
    and x: "sp_stop x" "0 < sp_nret x" "0 < pipe_pending (stop_pipe s)"
    by (rule demo_saw_stop)
  let ?ths = "nobody(0 := Inside (at 20) turn_phases x)"
  let ?u = "s\<lparr>stop_pipe := (stop_pipe s)\<lparr>pipe_pending := pipe_pending (stop_pipe s) - 1\<rparr>\<rparr>"
  have inside: "inside (?ths 0)" by simp
  have locked: "mutex_locked s"
    using orderlyD(5) [OF thread_steps_orderly [OF steps fresh_orderly [OF fresh_stopped]] inside] by (simp add: stop_fields)
  have "phase_run (at 20) At_Input (sees x s) = Inr (Break (x\<lparr>sp_ret := 1, sp_node := ?u\<rparr>))"
    using x by (simp add: spin_input_def eventfd_clear_def)
  from thread_step.leave [of ?ths 0 "at 20" At_Input "tl turn_phases" x s, OF _ this]
  have step: "thread_step (s, ?ths) (?u, nobody(0 := Outside 1))" by (simp add: turn_phases_def del: fun_upd_apply add: fun_upd_same)
  have "\<not> lost_mutex (s, ?ths)" using inside unfolding lost_mutex_def split by blast
  moreover have lost: "lost_mutex (?u, nobody(0 := Outside 1))" using locked by (simp add: lost_mutex_def nobody_def)
  ultimately have "(\<exists>i t ps v. ?ths i = Inside t (At_Input # ps) v \<and> sp_stop v \<and> 0 < sp_nret v) \<or>
      (\<exists>r. uccn_advertise r s = Inr (None, ?u)) \<or>
      (\<exists>i p content ret k. ?ths i = Posting p content \<and> post_locked p content s = Inr (ret, ?u) \<and> ret \<noteq> 0 \<and>
        fst (clock_gettime s k) = ret)"
    by (intro mutex_is_lost_by [OF fresh_stopped steps _ step])
  then show ?thesis using step lost by (intro exI [of _ s] exI [of _ ?u] exI [of _ ?ths] conjI)
qed

end
