(* ===== verification/Scoped_Ptr.thy ===== *)
theory Scoped_Ptr
  imports Prelude
begin

text \<open>
  \<open>examples/scoped_ptr.hpp\<close>: the pointer by which the signal handlers of the C++ examples find the node
  object, and the guards that set it back. Pointers, and the objects that they point to, are numbers;
  objects and guards live in the scopes of a program, which C++ leaves in the opposite order, at
  their end or when an exception passes.
\<close>

section \<open>The operations\<close>

text \<open>What each \<open>scoped_ptr\<close> holds in \<open>rawptr_\<close>; a constructed one holds null.\<close>

type_synonym pointers = "nat \<Rightarrow> nat option"

definition null_pointers :: pointers where
  "null_pointers = (\<lambda>_. None)"

record guard =
  ptr :: nat
  prev_raw_ptr :: "nat option"

definition scoped_reset :: "nat \<Rightarrow> nat option \<Rightarrow> pointers \<Rightarrow> guard \<times> pointers" where
  "scoped_reset this rawptr ps =
     (let g = \<lparr>ptr = this, prev_raw_ptr = ps this\<rparr> in (g, ps(this := rawptr)))"

definition guard_destroy :: "guard \<Rightarrow> pointers \<Rightarrow> pointers" where
  "guard_destroy g ps = ps(ptr g := prev_raw_ptr g)"

definition scoped_bool :: "nat \<Rightarrow> pointers \<Rightarrow> bool" where
  "scoped_bool this ps \<longleftrightarrow> ps this \<noteq> None"

definition scoped_deref :: "nat \<Rightarrow> pointers \<Rightarrow> nat result" where
  "scoped_deref this ps = (case ps this of None \<Rightarrow> Inl Null_Deref | Some x \<Rightarrow> Inr x)"

definition scoped_arrow :: "nat \<Rightarrow> pointers \<Rightarrow> nat option" where
  "scoped_arrow this ps = ps this"

text \<open>
  \<open>reset\<close> returns a local guard. A compiler may build it in place of the caller's, as \<open>scoped_reset\<close> has
  it; one that copies it destroys the local one on the way.
\<close>

definition scoped_reset_copied :: "nat \<Rightarrow> nat option \<Rightarrow> pointers \<Rightarrow> guard \<times> pointers" where
  "scoped_reset_copied this rawptr ps =
     (let (g, ps) = scoped_reset this rawptr ps in (g, guard_destroy g ps))"

lemma guard_restores: "scoped_reset this rawptr ps = (g, qs) \<Longrightarrow> guard_destroy g qs = ps \<and> qs this = rawptr"
  by (auto simp: scoped_reset_def guard_destroy_def Let_def)

text \<open>With a compiler that copies the guard, the pointer is as it was before: the handler never finds the node.\<close>

lemma copied_guard_resets: "snd (scoped_reset_copied this rawptr ps) = ps"
  by (simp add: scoped_reset_copied_def scoped_reset_def guard_destroy_def Let_def)

section \<open>Scopes\<close>

datatype frame = Object nat | Guard guard

record scopes =
  stack :: "frame list"
  held :: pointers
  alive :: "nat set"

text \<open>The handler of the examples stops the node that the pointer \<open>this\<close> holds, if it holds one.\<close>

definition handler_target :: "nat \<Rightarrow> scopes \<Rightarrow> nat option result" where
  "handler_target this sc =
     (if scoped_bool this (held sc) then rbind (scoped_deref this (held sc)) (\<lambda>x. Inr (Some x)) else Inr None)"

inductive scope_step :: "scopes \<Rightarrow> scopes \<Rightarrow> bool" where
  construct: "x \<notin> alive sc \<Longrightarrow>
    scope_step sc (sc\<lparr>stack := Object x # stack sc, alive := insert x (alive sc)\<rparr>)"
| reset: "set_option rawptr \<subseteq> alive sc \<Longrightarrow> scoped_reset this rawptr (held sc) = (g, ps) \<Longrightarrow>
    scope_step sc (sc\<lparr>stack := Guard g # stack sc, held := ps\<rparr>)"
| destroy: "stack sc = Object x # st \<Longrightarrow> scope_step sc (sc\<lparr>stack := st, alive := alive sc - {x}\<rparr>)"
| unguard: "stack sc = Guard g # st \<Longrightarrow> scope_step sc (sc\<lparr>stack := st, held := guard_destroy g (held sc)\<rparr>)"

definition program_start :: scopes where
  "program_start = \<lparr>stack = [], held = null_pointers, alive = {}\<rparr>"

text \<open>What leaving the scopes one by one finds: at every depth the pointers hold objects that are alive there.\<close>

fun scoped :: "frame list \<Rightarrow> pointers \<Rightarrow> nat set \<Rightarrow> bool" where
  "scoped [] ps xs \<longleftrightarrow> ps = null_pointers \<and> xs = {}"
| "scoped (Object x # st) ps xs \<longleftrightarrow> x \<in> xs \<and> scoped st ps (xs - {x})"
| "scoped (Guard g # st) ps xs \<longleftrightarrow> set_option (ps (ptr g)) \<subseteq> xs \<and> scoped st (guard_destroy g ps) xs"

lemma scoped_alive: "scoped st ps xs \<Longrightarrow> ps this = Some x \<Longrightarrow> x \<in> xs"
proof (induction st ps xs rule: scoped.induct)
  case (3 g st ps xs)
  show ?case
  proof (cases "this = ptr g")
    case False
    then have "guard_destroy g ps this = Some x" using "3.prems"(2) by (simp add: guard_destroy_def)
    then show ?thesis using "3.IH" "3.prems"(1) by simp
  qed (use "3.prems" in auto)
qed (auto simp: null_pointers_def)

lemma scope_step_scoped:
  "scope_step sc sc' \<Longrightarrow> scoped (stack sc) (held sc) (alive sc) \<Longrightarrow> scoped (stack sc') (held sc') (alive sc')"
proof (induction rule: scope_step.induct)
  case (reset rawptr sc this g ps)
  then have "guard_destroy g ps = held sc \<and> ps this = rawptr" "ptr g = this"
    using guard_restores [OF reset.hyps(2)] by (auto simp: scoped_reset_def Let_def)
  then show ?case using reset by auto
qed auto

lemma scope_steps_scoped:
  "scope_step\<^sup>*\<^sup>* program_start sc \<Longrightarrow> scoped (stack sc) (held sc) (alive sc)"
  by (induction rule: rtranclp_induct) (auto simp: program_start_def intro: scope_step_scoped)

text \<open>
  C24: Whatever objects a program constructs, whatever it points to with nested guards, and wherever an
  exception makes it leave its scopes, the signal handler finds no object or one that is still
  alive; when all scopes have been left it finds none.
\<close>

theorem handler_never_dangles:
  assumes "scope_step\<^sup>*\<^sup>* program_start sc"
  shows "\<exists>target. handler_target this sc = Inr target \<and> set_option target \<subseteq> alive sc \<and> (stack sc = [] \<longrightarrow> target = None)"
proof -
  note sc = scope_steps_scoped [OF assms]
  have "held sc this = None" if "stack sc = []" using sc by (simp add: that null_pointers_def)
  moreover have "x \<in> alive sc" if "held sc this = Some x" for x using scoped_alive [OF sc that] .
  ultimately show ?thesis
    by (cases "held sc this") (auto simp: handler_target_def scoped_bool_def scoped_deref_def)
qed

text \<open>The scopes of the examples: the node object, and then a guard for it.\<close>

lemma example_scopes:
  "scope_step\<^sup>*\<^sup>* program_start \<lparr>stack = [Guard \<lparr>ptr = 0, prev_raw_ptr = None\<rparr>, Object 7],
     held = null_pointers(0 := Some 7), alive = {7}\<rparr>"
proof -
  let ?node = "program_start\<lparr>stack := [Object 7], alive := {7}\<rparr>"
  have "scope_step program_start ?node"
    using scope_step.construct [of 7 program_start] by (simp add: program_start_def)
  moreover have "scope_step ?node (?node\<lparr>stack := [Guard \<lparr>ptr = 0, prev_raw_ptr = None\<rparr>, Object 7], held := null_pointers(0 := Some 7)\<rparr>)"
    using scope_step.reset [of "Some 7" ?node 0 "\<lparr>ptr = 0, prev_raw_ptr = None\<rparr>" "null_pointers(0 := Some 7)"]
    by (simp add: program_start_def scoped_reset_def null_pointers_def)
  ultimately show ?thesis by (simp add: program_start_def)
qed

theorem handler_never_dangles_witness:
  "\<exists>target. handler_target 0 \<lparr>stack = [Guard \<lparr>ptr = 0, prev_raw_ptr = None\<rparr>, Object 7],
     held = null_pointers(0 := Some 7), alive = {7}\<rparr> = Inr target \<and> set_option target \<subseteq> {7}"
  using handler_never_dangles [OF example_scopes, of 0] by auto

end
