(* ===== verification/Config_Checks.thy ===== *)
theory Config_Checks
  imports Post
begin

text \<open>
  The checks of \<open>include/uccn/config.h\<close> that stop a build whose settings do not fit together. The
  settings are the fields of a record here, since every other theory fixes them to their defaults.
\<close>

record config =
  cf_max_num_resources :: nat
  cf_max_num_trackers :: nat
  cf_max_num_providers :: nat
  cf_max_content_size :: nat
  cf_incoming_buffer_size :: nat
  cf_outgoing_buffer_size :: nat
  cf_liveliness_timeout_ms :: int
  cf_liveliness_assert_timeout_ms :: int
  cf_peer_discovery_period_ms :: int
  cf_endpoint_probe_timeout_ms :: int

definition default_config :: config where
  "default_config = \<lparr>cf_max_num_resources = CONFIG_UCCN_MAX_NUM_RESOURCES,
     cf_max_num_trackers = CONFIG_UCCN_MAX_NUM_TRACKERS, cf_max_num_providers = CONFIG_UCCN_MAX_NUM_PROVIDERS,
     cf_max_content_size = CONFIG_UCCN_MAX_CONTENT_SIZE,
     cf_incoming_buffer_size = CONFIG_UCCN_INCOMING_BUFFER_SIZE,
     cf_outgoing_buffer_size = CONFIG_UCCN_OUTGOING_BUFFER_SIZE,
     cf_liveliness_timeout_ms = CONFIG_UCCN_LIVELINESS_TIMEOUT_MS,
     cf_liveliness_assert_timeout_ms = CONFIG_UCCN_LIVELINESS_ASSERT_TIMEOUT_MS,
     cf_peer_discovery_period_ms = CONFIG_UCCN_PEER_DISCOVERY_PERIOD_MS,
     cf_endpoint_probe_timeout_ms = CONFIG_UCCN_ENDPOINT_PROBE_TIMEOUT_MS\<rparr>"

text \<open>One check per limit, and the settings that pass them all. The second check repeats the first one.\<close>

definition check_trackers :: "config \<Rightarrow> bool" where
  "check_trackers c \<longleftrightarrow> \<not> cf_max_num_trackers c > cf_max_num_resources c"

definition check_providers :: "config \<Rightarrow> bool" where
  "check_providers c \<longleftrightarrow> \<not> cf_max_num_trackers c > cf_max_num_resources c"

definition check_incoming :: "config \<Rightarrow> bool" where
  "check_incoming c \<longleftrightarrow> \<not> cf_max_content_size c > cf_incoming_buffer_size c"

definition check_outgoing :: "config \<Rightarrow> bool" where
  "check_outgoing c \<longleftrightarrow> \<not> cf_max_content_size c > cf_outgoing_buffer_size c"

definition check_asserts :: "config \<Rightarrow> bool" where
  "check_asserts c \<longleftrightarrow> \<not> cf_liveliness_assert_timeout_ms c \<ge> cf_liveliness_timeout_ms c"

definition check_probes :: "config \<Rightarrow> bool" where
  "check_probes c \<longleftrightarrow> \<not> cf_endpoint_probe_timeout_ms c \<ge> cf_peer_discovery_period_ms c"

definition builds :: "config \<Rightarrow> bool" where
  "builds c \<longleftrightarrow> check_trackers c \<and> check_providers c \<and> check_incoming c \<and> check_outgoing c \<and> check_asserts c \<and> check_probes c"

lemmas builds_simps = builds_def check_trackers_def check_providers_def check_incoming_def check_outgoing_def
  check_asserts_def check_probes_def

lemma default_config_builds: "builds default_config"
  by (simp add: builds_simps default_config_def config_simps CONFIG_UCCN_LIVELINESS_TIMEOUT_MS_def
      CONFIG_UCCN_LIVELINESS_ASSERT_TIMEOUT_MS_def CONFIG_UCCN_PEER_DISCOVERY_PERIOD_MS_def
      CONFIG_UCCN_ENDPOINT_PROBE_TIMEOUT_MS_def)

text \<open>A content packet is longer than its content.\<close>

lemma length_bin_exceeds:
  assumes "length bs < 2 ^ 32"
  shows "length bs < length (enc_item (Item_Bin bs))"
proof -
  have "unat (word_of_nat (length bs) :: u32) = length bs" using assms by (simp add: unat_of_nat take_bit_nat_eq_self)
  then show ?thesis by (simp add: Let_def mpack_encode_bin8_def mpack_encode_bin16_def mpack_encode_bin32_def)
qed

lemma content_packet_longer: "length bs < 2 ^ 32 \<Longrightarrow> length bs < length (content_packet hash bs)"
  using length_bin_exceeds [of bs] by (simp add: content_packet_def content_items_def del: enc_item.simps)

lemma content_packet_refused:
  "n \<le> length bs \<Longrightarrow> length bs < 2 ^ 32 \<Longrightarrow>
   w_error (fold write_item (content_items hash bs) (mpack_writer_init n)) \<noteq> mpack_ok"
  using items.fold_ok_iff [of "mpack_writer_init n" "content_items hash bs"] content_packet_longer [of bs hash]
  by (simp add: content_packet_def del: write_item.simps)

text \<open>
  The checks let through more providers than there are resources, and contents of the greatest size
  that no packet can hold: the room that a packet takes for the rest is not checked.
\<close>

theorem checks_too_weak:
  shows "builds (default_config\<lparr>cf_max_num_providers := m\<rparr>)"
    and "builds (default_config\<lparr>cf_max_content_size := CONFIG_UCCN_OUTGOING_BUFFER_SIZE\<rparr>) \<and>
      (\<forall>hash bs. length bs = CONFIG_UCCN_OUTGOING_BUFFER_SIZE \<longrightarrow>
        w_error (fold write_item (content_items hash bs) (mpack_writer_init CONFIG_UCCN_OUTGOING_BUFFER_SIZE)) \<noteq> mpack_ok)"
  using default_config_builds
  by (simp_all add: builds_simps default_config_def content_packet_refused config_simps)

end
